(* ===== verification/Obstor_Prelude.thy ===== *)
theory Obstor_Prelude
  imports Main "HOL-Library.Monad_Syntax"
begin

text \<open>
  Shared ground of the development: the collections of rewrite rules, the conventions for Go
  values, and the generic facts on lists and options that several components use.

  Conventions for Go:
  \<^item> a Go \<open>string\<close> is a list of bytes, here \<open>string\<close> (a \<open>char list\<close>);
  \<^item> a \<open>[]rune\<close> is a list of code points, here \<open>nat list\<close>;
  \<^item> a computation that may stop with a run-time panic has a result in \<open>'a option\<close>, and
    \<open>None\<close> is the panic;
  \<^item> a function returning \<open>(value, error)\<close> has a result in a sum type, with the error on
    the left;
  \<^item> a Go map used as a set is a list in its iteration order, which Go leaves open: a theorem
    about every list is a theorem about every order.
\<close>

named_theorems go_defs \<open>definitions that unfold to plain list and option operations\<close>

type_synonym rune = nat

type_synonym bytes = "nat list"

subsection \<open>Bytes, strings and runes\<close>

definition byte_of :: "char \<Rightarrow> nat" where
  "byte_of c = of_char c"

definition ascii :: "string \<Rightarrow> bool" where
  "ascii s \<longleftrightarrow> (\<forall>c \<in> set s. byte_of c < 128)"

text \<open>
  The conversion \<open>[]rune(s)\<close> of the Go specification: a byte sequence that is not valid
  UTF-8 yields the replacement character U+FFFD for one byte.
\<close>

definition rune_error :: rune where
  "rune_error = 65533"

definition cont_byte :: "nat \<Rightarrow> bool" where
  "cont_byte b \<longleftrightarrow> 128 \<le> b \<and> b \<le> 191"

definition decode2 :: "nat \<Rightarrow> nat list \<Rightarrow> rune \<times> nat" where
  "decode2 b0 t =
     (case t of
        b1 # _ \<Rightarrow> if cont_byte b1 then ((b0 mod 32) * 64 + b1 mod 64, 2) else (rune_error, 1)
      | [] \<Rightarrow> (rune_error, 1))"

definition decode3 :: "nat \<Rightarrow> nat list \<Rightarrow> rune \<times> nat" where
  "decode3 b0 t =
     (case t of
        b1 # b2 # _ \<Rightarrow>
          if (if b0 = 224 then 160 else 128) \<le> b1 \<and> b1 \<le> (if b0 = 237 then 159 else 191)
             \<and> cont_byte b2
          then ((b0 mod 16) * 4096 + (b1 mod 64) * 64 + b2 mod 64, 3) else (rune_error, 1)
      | _ \<Rightarrow> (rune_error, 1))"

definition decode4 :: "nat \<Rightarrow> nat list \<Rightarrow> rune \<times> nat" where
  "decode4 b0 t =
     (case t of
        b1 # b2 # b3 # _ \<Rightarrow>
          if (if b0 = 240 then 144 else 128) \<le> b1 \<and> b1 \<le> (if b0 = 244 then 143 else 191)
             \<and> cont_byte b2 \<and> cont_byte b3
          then ((b0 mod 8) * 262144 + (b1 mod 64) * 4096 + (b2 mod 64) * 64 + b3 mod 64, 4)
          else (rune_error, 1)
      | _ \<Rightarrow> (rune_error, 1))"

definition decode_rune :: "nat \<Rightarrow> nat list \<Rightarrow> rune \<times> nat" where
  "decode_rune b0 t =
     (if b0 < 128 then (b0, 1)
      else if b0 < 194 then (rune_error, 1)
      else if b0 < 224 then decode2 b0 t
      else if b0 < 240 then decode3 b0 t
      else if b0 < 245 then decode4 b0 t
      else (rune_error, 1))"

fun decode_bytes :: "nat list \<Rightarrow> rune list" where
  "decode_bytes [] = []"
| "decode_bytes (b # t) =
     (case decode_rune b t of (r, w) \<Rightarrow> r # decode_bytes (drop (w - 1) t))"

definition runes :: "string \<Rightarrow> rune list" where
  "runes s = decode_bytes (map byte_of s)"

abbreviation rune_of :: "char \<Rightarrow> rune" where
  "rune_of c \<equiv> byte_of c"

lemma runes_Nil [simp]: "runes [] = []"
  by (simp add: runes_def)

lemma decode_bytes_ascii: "\<forall>b \<in> set bs. b < 128 \<Longrightarrow> decode_bytes bs = bs"
  by (induction bs rule: decode_bytes.induct) (auto simp: decode_rune_def)

lemma runes_ascii: "ascii s \<Longrightarrow> runes s = map byte_of s"
  by (auto simp: runes_def ascii_def intro!: decode_bytes_ascii)

lemma decode_bytes_eq_Nil [simp]: "decode_bytes bs = [] \<longleftrightarrow> bs = []"
  by (cases bs) (auto split: prod.splits)

lemma runes_eq_Nil [simp]: "runes s = [] \<longleftrightarrow> s = []"
  by (simp add: runes_def)

subsection \<open>Lists\<close>

lemma find_append:
  "find P (xs @ ys) = (case find P xs of None \<Rightarrow> find P ys | Some x \<Rightarrow> Some x)"
  by (induction xs) auto

lemma find_SomeD: "find P xs = Some x \<Longrightarrow> P x \<and> x \<in> set xs"
  by (induction xs) (auto split: if_splits)

lemma length_filter_nth:
  "length (filter P xs) = length (filter (\<lambda>i. P (xs ! i)) [0..<length xs])"
proof -
  have "length (filter P (map ((!) xs) [0..<length xs])) = length (filter (\<lambda>i. P (xs ! i)) [0..<length xs])"
    by (simp add: filter_map comp_def del: map_nth)
  then show ?thesis by (simp add: map_nth)
qed

text \<open>
  Indexing and element assignment of a Go slice: out of range is a run-time panic.
\<close>

definition go_nth :: "'a list \<Rightarrow> int \<Rightarrow> 'a option" where
  "go_nth xs i = (if 0 \<le> i \<and> i < int (length xs) then Some (xs ! nat i) else None)"

definition go_set :: "'a list \<Rightarrow> int \<Rightarrow> 'a \<Rightarrow> 'a list option" where
  "go_set xs i v = (if 0 \<le> i \<and> i < int (length xs) then Some (xs[nat i := v]) else None)"

text \<open>The slice expression \<open>xs[lo:hi]\<close> of a slice whose capacity is its length.\<close>

definition go_slice :: "'a list \<Rightarrow> int \<Rightarrow> int \<Rightarrow> 'a list option" where
  "go_slice xs lo hi =
     (if 0 \<le> lo \<and> lo \<le> hi \<and> hi \<le> int (length xs)
      then Some (take (nat (hi - lo)) (drop (nat lo) xs)) else None)"

lemma go_nth_int [simp]: "go_nth xs (int i) = (if i < length xs then Some (xs ! i) else None)"
  by (simp add: go_nth_def)

lemma go_nth_SomeD:
  "go_nth xs i = Some x \<Longrightarrow> 0 \<le> i \<and> nat i < length xs \<and> x = xs ! nat i"
  by (auto simp: go_nth_def split: if_splits)

lemma go_set_SomeD:
  "go_set xs i v = Some ys \<Longrightarrow> 0 \<le> i \<and> nat i < length xs \<and> ys = xs[nat i := v]"
  by (auto simp: go_set_def split: if_splits)

lemma go_set_length: "go_set xs i v = Some ys \<Longrightarrow> length ys = length xs"
  by (auto dest: go_set_SomeD)

lemma go_slice_length:
  "go_slice xs lo hi = Some ys \<Longrightarrow> int (length ys) = hi - lo"
  by (auto simp: go_slice_def split: if_splits)

subsection \<open>Numbers in text\<close>

text \<open>The decimal form that \<open>%d\<close> and \<open>strconv.Itoa\<close> print.\<close>

fun digits_of_nat :: "nat \<Rightarrow> string" where
  "digits_of_nat n =
     (if n < 10 then [char_of (48 + n)] else digits_of_nat (n div 10) @ [char_of (48 + n mod 10)])"

declare digits_of_nat.simps [simp del]

definition itoa :: "int \<Rightarrow> string" where
  "itoa i = (if i < 0 then ''-'' @ digits_of_nat (nat (- i)) else digits_of_nat (nat i))"

subsection \<open>Errors\<close>

text \<open>
  A Go \<open>error\<close> is \<open>goerr option\<close> with \<open>None\<close> for \<open>nil\<close>. \<open>StorageErr\<close> values compare by their
  text (the type is a string), \<open>errors.New\<close> values by identity (the name of the package
  variable), and each \<open>fmt.Errorf\<close> with \<open>%w\<close> allocates a value of its own that wraps another.
\<close>

datatype goerr = StorageErr string | ErrorsNew string | Wrapped nat goerr

fun errors_is :: "goerr \<Rightarrow> goerr \<Rightarrow> bool" where
  "errors_is (Wrapped n e) t = (Wrapped n e = t \<or> errors_is e t)"
| "errors_is e t = (e = t)"

definition errDiskNotFound :: goerr where
  "errDiskNotFound = StorageErr ''disk not found''"

definition errFaultyDisk :: goerr where
  "errFaultyDisk = StorageErr ''disk is faulty''"

definition errFaultyRemoteDisk :: goerr where
  "errFaultyRemoteDisk = StorageErr ''remote disk is faulty''"

definition errDiskAccessDenied :: goerr where
  "errDiskAccessDenied = StorageErr ''disk access denied''"

definition errUnformattedDisk :: goerr where
  "errUnformattedDisk = StorageErr ''unformatted disk found''"

definition errFileNotFound :: goerr where
  "errFileNotFound = StorageErr ''file not found''"

definition errFileVersionNotFound :: goerr where
  "errFileVersionNotFound = StorageErr ''file version not found''"

definition errFileCorrupt :: goerr where
  "errFileCorrupt = StorageErr ''file is corrupted''"

definition errCorruptedFormat :: goerr where
  "errCorruptedFormat =
     StorageErr ''corrupted backend format, specified disk mount has unexpected previous content''"

definition errErasureReadQuorum :: goerr where
  "errErasureReadQuorum = ErrorsNew ''errErasureReadQuorum''"

definition errErasureWriteQuorum :: goerr where
  "errErasureWriteQuorum = ErrorsNew ''errErasureWriteQuorum''"

definition errInvalidArgument :: goerr where
  "errInvalidArgument = ErrorsNew ''errInvalidArgument''"

subsection \<open>Iteration order of Go maps\<close>

text \<open>
  The order in which \<open>range\<close> visits the keys of a map is unspecified. A function whose code ranges
  over a map takes that order as an argument \<open>ord\<close>, a function that lists the keys in some order.
\<close>

definition map_order :: "('k list \<Rightarrow> 'k list) \<Rightarrow> bool" where
  "map_order ord \<longleftrightarrow> (\<forall>ks. distinct ks \<longrightarrow> distinct (ord ks) \<and> set (ord ks) = set ks)"

lemma map_order_id [simp]: "map_order (\<lambda>ks. ks)"
  by (simp add: map_order_def)

lemma map_order_rev [simp]: "map_order rev"
  by (simp add: map_order_def)

lemma map_order_remdups [simp]: "map_order ord \<Longrightarrow> set (ord (remdups xs)) = set xs"
  by (simp add: map_order_def)

subsection \<open>Counting\<close>

lemma count_list_le_length: "count_list xs x \<le> length xs"
  by (induction xs) auto

lemma count_list_two:
  "x \<noteq> y \<Longrightarrow> count_list xs x + count_list xs y \<le> length xs"
  by (induction xs) auto

lemma count_list_filter: "P x \<Longrightarrow> count_list (filter P xs) x = count_list xs x"
  by (induction xs) auto

lemma count_list_filter_le: "count_list (filter P xs) x \<le> count_list xs x"
  by (induction xs) auto

lemma count_list_pos_iff: "0 < count_list xs x \<longleftrightarrow> x \<in> set xs"
  by (induction xs) auto

end
