(* ===== verification/File_Info.thy ===== *)
theory File_Info
  imports Obstor_Prelude "HOL-Library.Signed_Division" "HOL-Library.Multiset"
begin

text \<open>
  The per-version metadata that every storage component exchanges: \<^verbatim>\<open>FileInfo\<close> of
  \<^verbatim>\<open>cmd/storage-datatypes.go\<close> with \<^verbatim>\<open>ErasureInfo\<close>, \<^verbatim>\<open>ObjectPartInfo\<close> and \<^verbatim>\<open>ChecksumInfo\<close>
  of \<^verbatim>\<open>cmd/xl-storage-format-v1.go\<close>, \<^verbatim>\<open>BlockRef\<close> of \<^verbatim>\<open>cmd/erasure-utils.go\<close>, and the
  operations on them in \<^verbatim>\<open>cmd/erasure-metadata.go\<close>: validity, parts and the translation of
  object offsets to part offsets.

  A \<open>time.Time\<close> is its distance from the Unix epoch in nanoseconds, an unbounded integer; the
  zero \<open>time.Time\<close> is \<open>zero_time\<close>. Sizes, offsets and counts are \<open>int\<close>: the code keeps them far
  below \<open>2 ^ 63\<close>.
\<close>

type_synonym gotime = int

definition zero_time :: gotime where
  "zero_time = -62135596800000000000"

text \<open>The header and metadata key for the replication status of an object.\<close>

definition AmzBucketReplicationStatus :: string where
  "AmzBucketReplicationStatus = ''X-Amz-Replication-Status''"

subsection \<open>Data\<close>

record ObjectPartInfo =
  pt_ETag :: string
  pt_Number :: int
  pt_Size :: int
  pt_ActualSize :: int

record ChecksumInfo =
  ck_PartNumber :: int
  ck_Algorithm :: nat
  ck_Hash :: "nat list"

record ErasureInfo =
  er_Algorithm :: string
  er_DataBlocks :: int
  er_ParityBlocks :: int
  er_BlockSize :: int
  er_Index :: int
  er_Distribution :: "int list"
  er_Checksums :: "ChecksumInfo list"

record BlockRef =
  bl_Hash :: string
  bl_Size :: int
  bl_Index :: int

record FileInfo =
  fi_Volume :: string
  fi_Name :: string
  fi_VersionID :: string
  fi_IsLatest :: bool
  fi_Deleted :: bool
  fi_TransitionStatus :: string
  fi_DataDir :: string
  fi_XLV1 :: bool
  fi_ModTime :: gotime
  fi_Size :: int
  fi_Mode :: nat
  fi_Metadata :: "string \<rightharpoonup> string"
  fi_Parts :: "ObjectPartInfo list"
  fi_Erasure :: ErasureInfo
  fi_Blocks :: "BlockRef list"
  fi_MarkDeleted :: bool
  fi_DeleteMarkerReplicationStatus :: string
  fi_VersionPurgeStatus :: string
  fi_Data :: "nat list"
  fi_NumVersions :: nat
  fi_SuccessorModTime :: gotime

text \<open>The zero values of Go.\<close>

definition empty_ErasureInfo :: ErasureInfo where
  "empty_ErasureInfo = \<lparr>er_Algorithm = '''', er_DataBlocks = 0, er_ParityBlocks = 0,
     er_BlockSize = 0, er_Index = 0, er_Distribution = [], er_Checksums = []\<rparr>"

definition empty_FileInfo :: FileInfo where
  "empty_FileInfo = \<lparr>fi_Volume = '''', fi_Name = '''', fi_VersionID = '''', fi_IsLatest = False,
     fi_Deleted = False, fi_TransitionStatus = '''', fi_DataDir = '''', fi_XLV1 = False,
     fi_ModTime = zero_time, fi_Size = 0, fi_Mode = 0, fi_Metadata = Map.empty, fi_Parts = [],
     fi_Erasure = empty_ErasureInfo, fi_Blocks = [], fi_MarkDeleted = False,
     fi_DeleteMarkerReplicationStatus = '''', fi_VersionPurgeStatus = '''', fi_Data = [],
     fi_NumVersions = 0, fi_SuccessorModTime = zero_time\<rparr>"

definition empty_ChecksumInfo :: ChecksumInfo where
  "empty_ChecksumInfo = \<lparr>ck_PartNumber = 0, ck_Algorithm = 0, ck_Hash = []\<rparr>"

subsection \<open>Validity\<close>

definition FileInfo_IsValid :: "FileInfo \<Rightarrow> bool" where
  "FileInfo_IsValid fi =
     (if fi_Deleted fi then True
      else if fi_Blocks fi \<noteq> [] then True
      else
        let dataBlocks = er_DataBlocks (fi_Erasure fi);
            parityBlocks = er_ParityBlocks (fi_Erasure fi);
            correctIndexes =
              er_Index (fi_Erasure fi) > 0 \<and>
              er_Index (fi_Erasure fi) \<le> dataBlocks + parityBlocks \<and>
              int (length (er_Distribution (fi_Erasure fi))) = dataBlocks + parityBlocks
        in dataBlocks \<ge> parityBlocks \<and> dataBlocks \<noteq> 0 \<and> parityBlocks \<noteq> 0 \<and> correctIndexes)"

subsection \<open>Checksums of parts\<close>

fun put_checksum :: "ChecksumInfo \<Rightarrow> ChecksumInfo list \<Rightarrow> ChecksumInfo list" where
  "put_checksum c [] = [c]"
| "put_checksum c (s # sums) =
     (if ck_PartNumber s = ck_PartNumber c then c # sums else s # put_checksum c sums)"

definition AddChecksumInfo :: "ErasureInfo \<Rightarrow> ChecksumInfo \<Rightarrow> ErasureInfo" where
  "AddChecksumInfo e c = e\<lparr>er_Checksums := put_checksum c (er_Checksums e)\<rparr>"

definition GetChecksumInfo :: "ErasureInfo \<Rightarrow> int \<Rightarrow> ChecksumInfo" where
  "GetChecksumInfo e partNumber =
     (case find (\<lambda>s. ck_PartNumber s = partNumber) (er_Checksums e) of
        Some s \<Rightarrow> s | None \<Rightarrow> empty_ChecksumInfo)"

subsection \<open>Parts\<close>

fun objectPartIndex_from :: "nat \<Rightarrow> ObjectPartInfo list \<Rightarrow> int \<Rightarrow> int" where
  "objectPartIndex_from i [] partNumber = -1"
| "objectPartIndex_from i (part # parts) partNumber =
     (if partNumber = pt_Number part then int i
      else objectPartIndex_from (Suc i) parts partNumber)"

definition objectPartIndex :: "ObjectPartInfo list \<Rightarrow> int \<Rightarrow> int" where
  "objectPartIndex parts partNumber = objectPartIndex_from 0 parts partNumber"

text \<open>The update loop of \<open>AddObjectPart\<close>: \<open>None\<close> when no part has the number.\<close>

fun replace_part :: "ObjectPartInfo \<Rightarrow> ObjectPartInfo list \<Rightarrow> ObjectPartInfo list option" where
  "replace_part p [] = None"
| "replace_part p (q # qs) =
     (if pt_Number p = pt_Number q then Some (p # qs)
      else map_option ((#) q) (replace_part p qs))"

definition AddObjectPart :: "FileInfo \<Rightarrow> int \<Rightarrow> string \<Rightarrow> int \<Rightarrow> int \<Rightarrow> FileInfo" where
  "AddObjectPart fi partNumber partETag partSize actualSize =
     (let partInfo = \<lparr>pt_ETag = partETag, pt_Number = partNumber, pt_Size = partSize,
                      pt_ActualSize = actualSize\<rparr>
      in case replace_part partInfo (fi_Parts fi) of
           Some parts \<Rightarrow> fi\<lparr>fi_Parts := parts\<rparr>
         | None \<Rightarrow> fi\<lparr>fi_Parts := sort_key pt_Number (fi_Parts fi @ [partInfo])\<rparr>)"

text \<open>The offset \<open>InvalidRange\<close> of the code is \<open>None\<close> here.\<close>

fun seek_part :: "nat \<Rightarrow> ObjectPartInfo list \<Rightarrow> int \<Rightarrow> (nat \<times> int) option" where
  "seek_part i [] partOffset = None"
| "seek_part i (part # parts) partOffset =
     (if partOffset < pt_Size part then Some (i, partOffset)
      else seek_part (Suc i) parts (partOffset - pt_Size part))"

definition ObjectToPartOffset :: "FileInfo \<Rightarrow> int \<Rightarrow> (nat \<times> int) option" where
  "ObjectToPartOffset fi offset =
     (if offset = 0 then Some (0, 0) else seek_part 0 (fi_Parts fi) offset)"

subsection \<open>Lemmas on checksums\<close>

lemma find_put_checksum:
  "find (\<lambda>s. ck_PartNumber s = n) (put_checksum c sums) =
     (if n = ck_PartNumber c then Some c else find (\<lambda>s. ck_PartNumber s = n) sums)"
  by (induction c sums rule: put_checksum.induct) auto

subsection \<open>Lemmas on parts\<close>

definition parts_sorted :: "FileInfo \<Rightarrow> bool" where
  "parts_sorted fi \<longleftrightarrow> sorted_wrt (<) (map pt_Number (fi_Parts fi))"

definition part_at :: "FileInfo \<Rightarrow> int \<Rightarrow> ObjectPartInfo option" where
  "part_at fi n = find (\<lambda>p. pt_Number p = n) (fi_Parts fi)"

lemma replace_part_None:
  "replace_part p qs = None \<longleftrightarrow> pt_Number p \<notin> pt_Number ` set qs"
  by (induction p qs rule: replace_part.induct) auto

lemma replace_part_numbers:
  "replace_part p qs = Some rs \<Longrightarrow> map pt_Number rs = map pt_Number qs"
  by (induction p qs arbitrary: rs rule: replace_part.induct) (auto split: if_splits)

lemma replace_part_find:
  "replace_part p qs = Some rs \<Longrightarrow>
     find (\<lambda>q. pt_Number q = n) rs =
       (if n = pt_Number p then Some p else find (\<lambda>q. pt_Number q = n) qs)"
  by (induction p qs arbitrary: rs rule: replace_part.induct) (auto split: if_splits)

lemma find_unique_key:
  "distinct (map f xs) \<Longrightarrow> find (\<lambda>x. f x = k) xs = Some y \<longleftrightarrow> y \<in> set xs \<and> f y = k"
  by (induction xs) (auto simp: image_iff)

lemma find_key_cong:
  assumes "distinct (map f xs)" and "distinct (map f ys)" and "set xs = set ys"
  shows "find (\<lambda>x. f x = k) xs = find (\<lambda>x. f x = k) ys"
proof (cases "find (\<lambda>x. f x = k) ys")
  case None
  then have "find (\<lambda>x. f x = k) xs = None" using assms(3) by (simp add: find_None_iff)
  with None show ?thesis by simp
next
  case (Some y)
  then have "find (\<lambda>x. f x = k) xs = Some y" using assms by (simp add: find_unique_key)
  with Some show ?thesis by simp
qed

lemma sorted_wrt_less_iff:
  fixes xs :: "int list"
  shows "sorted_wrt (<) xs \<longleftrightarrow> sorted xs \<and> distinct xs"
  by (rule strict_sorted_iff)

lemma AddObjectPart_parts_new:
  assumes "replace_part p (fi_Parts fi) = None" and "parts_sorted fi"
    and "p = \<lparr>pt_ETag = t, pt_Number = n, pt_Size = s, pt_ActualSize = a\<rparr>"
  shows "distinct (map pt_Number (sort_key pt_Number (fi_Parts fi @ [p])))"
proof -
  have "distinct (map pt_Number (fi_Parts fi @ [p]))"
    using assms by (auto simp: replace_part_None parts_sorted_def sorted_wrt_less_iff)
  moreover have "mset (map pt_Number (sort_key pt_Number (fi_Parts fi @ [p])))
      = mset (map pt_Number (fi_Parts fi @ [p]))"
    by simp
  ultimately show ?thesis
    by (blast dest: mset_eq_imp_distinct_iff)
qed

text \<open>
  Adding a part to a \<open>FileInfo\<close> whose parts are in strictly ascending part number order
  keeps that order, and afterwards the part with the given number is the one just added while
  every other part number finds what it found before.
\<close>

theorem AddObjectPart_insert_lookup:
  assumes "parts_sorted fi"
  shows "parts_sorted (AddObjectPart fi n t s a) \<and>
    part_at (AddObjectPart fi n t s a) m =
      (if m = n then Some \<lparr>pt_ETag = t, pt_Number = n, pt_Size = s, pt_ActualSize = a\<rparr>
       else part_at fi m)"
proof -
  let ?p = "\<lparr>pt_ETag = t, pt_Number = n, pt_Size = s, pt_ActualSize = a\<rparr>"
  show ?thesis
  proof (cases "replace_part ?p (fi_Parts fi)")
    case None
    have d: "distinct (map pt_Number (sort_key pt_Number (fi_Parts fi @ [?p])))"
      by (rule AddObjectPart_parts_new [OF None assms refl])
    have d': "distinct (map pt_Number (fi_Parts fi @ [?p]))"
      using None assms by (auto simp: replace_part_None parts_sorted_def sorted_wrt_less_iff)
    have "find (\<lambda>q. pt_Number q = m) (sort_key pt_Number (fi_Parts fi @ [?p]))
        = find (\<lambda>q. pt_Number q = m) (fi_Parts fi @ [?p])"
      by (rule find_key_cong [OF d d']) simp
    also have "\<dots> = (if m = n then Some ?p else find (\<lambda>q. pt_Number q = m) (fi_Parts fi))"
      using None by (auto simp: replace_part_None find_append image_iff split: option.splits
          dest: find_SomeD)
    finally show ?thesis
      using None d
      by (simp add: AddObjectPart_def parts_sorted_def sorted_wrt_less_iff part_at_def Let_def)
  next
    case (Some parts)
    then show ?thesis
      using assms replace_part_numbers [OF Some] replace_part_find [OF Some, of m]
      by (simp add: AddObjectPart_def parts_sorted_def part_at_def Let_def)
  qed
qed

theorem AddObjectPart_insert_lookup_witness:
  "parts_sorted empty_FileInfo \<and>
   part_at (AddObjectPart empty_FileInfo 2 ''t'' 5 5) 2 =
     Some \<lparr>pt_ETag = ''t'', pt_Number = 2, pt_Size = 5, pt_ActualSize = 5\<rparr>"
proof -
  have e: "parts_sorted empty_FileInfo"
    by (simp add: parts_sorted_def empty_FileInfo_def)
  show ?thesis using e AddObjectPart_insert_lookup [OF e, of 2 "''t''" 5 5 2] by simp
qed

lemma seek_part_Some:
  "seek_part i parts off = Some (j, o') \<Longrightarrow>
     i \<le> j \<and> j - i < length parts \<and> o' < pt_Size (parts ! (j - i)) \<and>
     off = (\<Sum>p\<leftarrow>take (j - i) parts. pt_Size p) + o'"
proof (induction i parts off rule: seek_part.induct)
  case (2 i part parts off)
  show ?case
  proof (cases "off < pt_Size part")
    case True
    with "2.prems" show ?thesis by auto
  next
    case False
    with "2.IH" "2.prems" have IH: "Suc i \<le> j" "j - Suc i < length parts"
        "o' < pt_Size (parts ! (j - Suc i))"
        "off - pt_Size part = (\<Sum>p\<leftarrow>take (j - Suc i) parts. pt_Size p) + o'"
      by auto
    then have "j - i = Suc (j - Suc i)" by arith
    with IH show ?thesis by (simp add: nth_Cons' )
  qed
qed simp

lemma seek_part_nonneg:
  "seek_part i parts off = Some (j, o') \<Longrightarrow> 0 \<le> off \<Longrightarrow> 0 \<le> o'"
  by (induction i parts off rule: seek_part.induct) (auto split: if_splits)

lemma seek_part_None:
  "\<forall>p \<in> set parts. 0 \<le> pt_Size p \<Longrightarrow> 0 \<le> off \<Longrightarrow>
     seek_part i parts off = None \<longleftrightarrow> (\<Sum>p\<leftarrow>parts. pt_Size p) \<le> off"
proof (induction i parts off rule: seek_part.induct)
  case (1 i off)
  then show ?case by simp
next
  case (2 i part parts off)
  have "0 \<le> (\<Sum>p\<leftarrow>parts. pt_Size p)"
    using "2.prems"(1) by (intro sum_list_nonneg) auto
  with "2" show ?case by auto
qed

text \<open>
  (C20) For a positive object offset, \<open>ObjectToPartOffset\<close> reports \<open>InvalidRange\<close> exactly when the
  offset is at or beyond the sum of the part sizes, and otherwise returns a part and an offset
  inside that part which together denote the given object offset.
\<close>

theorem ObjectToPartOffset_correct:
  assumes "\<forall>p \<in> set (fi_Parts fi). 0 \<le> pt_Size p" and "0 < off"
  shows "case ObjectToPartOffset fi off of
      None \<Rightarrow> (\<Sum>p\<leftarrow>fi_Parts fi. pt_Size p) \<le> off
    | Some (i, o') \<Rightarrow> off < (\<Sum>p\<leftarrow>fi_Parts fi. pt_Size p) \<and> i < length (fi_Parts fi) \<and>
        0 \<le> o' \<and> o' < pt_Size (fi_Parts fi ! i) \<and>
        off = (\<Sum>p\<leftarrow>take i (fi_Parts fi). pt_Size p) + o'"
proof (cases "seek_part 0 (fi_Parts fi) off")
  case None
  then show ?thesis
    using assms seek_part_None [OF assms(1), of off 0] by (simp add: ObjectToPartOffset_def)
next
  case (Some r)
  obtain i o' where r: "r = (i, o')" by (cases r)
  from Some show ?thesis
    using assms seek_part_None [OF assms(1), of off 0]
      seek_part_Some [OF Some [unfolded r]] seek_part_nonneg [OF Some [unfolded r]]
    by (simp add: ObjectToPartOffset_def r)
qed

theorem ObjectToPartOffset_correct_witness:
  "let fi = AddObjectPart (AddObjectPart empty_FileInfo 1 ''a'' 10 10) 2 ''b'' 5 5 in
     (\<forall>p \<in> set (fi_Parts fi). 0 \<le> pt_Size p) \<and> ObjectToPartOffset fi 12 = Some (1, 2)
     \<and> 12 < (\<Sum>p\<leftarrow>fi_Parts fi. pt_Size p)"
proof -
  let ?fi = "AddObjectPart (AddObjectPart empty_FileInfo 1 ''a'' 10 10) 2 ''b'' 5 5"
  have a: "\<forall>p \<in> set (fi_Parts ?fi). 0 \<le> pt_Size p"
    and b: "ObjectToPartOffset ?fi 12 = Some (1, 2)"
    by (simp_all add: AddObjectPart_def empty_FileInfo_def ObjectToPartOffset_def)
  show ?thesis
    using a b ObjectToPartOffset_correct [OF a, of 12] by simp
qed

end
