(* ===== verification/Go_Strings.thy ===== *)
theory Go_Strings
  imports Obstor_Prelude
begin

text \<open>
  The functions of the Go standard library on strings that the code calls: \<^verbatim>\<open>strings.Split\<close> on a
  one-byte separator, \<^verbatim>\<open>strings.HasPrefix\<close>, \<^verbatim>\<open>strings.HasSuffix\<close>, \<^verbatim>\<open>strings.TrimSpace\<close>, \<^verbatim>\<open>strings.Join\<close>,
  and \<^verbatim>\<open>strconv.Atoi\<close>, with the facts the components need.
\<close>

definition HasPrefix :: "string \<Rightarrow> string \<Rightarrow> bool" where
  "HasPrefix s p = (take (length p) s = p)"

definition HasSuffix :: "string \<Rightarrow> string \<Rightarrow> bool" where
  "HasSuffix s p = (length p \<le> length s \<and> drop (length s - length p) s = p)"

definition TrimPrefix :: "string \<Rightarrow> string \<Rightarrow> string" where
  "TrimPrefix s p = (if HasPrefix s p then drop (length p) s else s)"

definition TrimSuffix :: "string \<Rightarrow> string \<Rightarrow> string" where
  "TrimSuffix s p = (if HasSuffix s p then take (length s - length p) s else s)"

text \<open>
  \<open>strings.ToLower\<close> and \<open>strings.EqualFold\<close> on ASCII text, the form of the header and metadata
  names they are applied to: bytes from 128 on are kept.
\<close>

definition lower_char :: "char \<Rightarrow> char" where
  "lower_char c = (if 65 \<le> byte_of c \<and> byte_of c \<le> 90 then char_of (byte_of c + 32) else c)"

definition ToLower :: "string \<Rightarrow> string" where
  "ToLower s = map lower_char s"

definition EqualFold :: "string \<Rightarrow> string \<Rightarrow> bool" where
  "EqualFold s t \<longleftrightarrow> ToLower s = ToLower t"

text \<open>\<open>strings.Split(s, sep)\<close> for a separator of one byte.\<close>

fun split_on :: "char \<Rightarrow> string \<Rightarrow> string list" where
  "split_on sep [] = [[]]"
| "split_on sep (c # cs) =
     (if c = sep then [] # split_on sep cs
      else case split_on sep cs of [] \<Rightarrow> [[c]] | w # ws \<Rightarrow> (c # w) # ws)"

fun Join :: "string list \<Rightarrow> string \<Rightarrow> string" where
  "Join [] sep = []"
| "Join [s] sep = s"
| "Join (s # t # ts) sep = s @ sep @ Join (t # ts) sep"

lemma split_on_nonempty [simp]: "split_on sep s \<noteq> []"
  by (induction sep s rule: split_on.induct) (auto split: list.splits)

lemma Join_split_on: "Join (split_on sep s) [sep] = s"
proof (induction sep s rule: split_on.induct)
  case (2 sep c cs)
  obtain w ws where s: "split_on sep cs = w # ws" by (cases "split_on sep cs") auto
  with 2 show ?case by (cases ws) auto
qed simp

lemma split_on_no_sep: "sep \<notin> set s \<Longrightarrow> split_on sep s = [s]"
  by (induction s) auto

lemma split_on_append: "sep \<notin> set s \<Longrightarrow> split_on sep (s @ sep # t) = s # split_on sep t"
  by (induction s) auto

subsection \<open>White space\<close>

text \<open>\<open>unicode.IsSpace\<close> on a code point.\<close>

definition IsSpace :: "rune \<Rightarrow> bool" where
  "IsSpace r \<longleftrightarrow> r \<in> {9, 10, 11, 12, 13, 32, 133, 160, 5760, 8232, 8233, 8239, 8287, 12288}
     \<or> (8192 \<le> r \<and> r \<le> 8202)"

text \<open>\<open>strings.TrimSpace\<close>, as the code points of its result.\<close>

definition TrimSpace_runes :: "string \<Rightarrow> rune list" where
  "TrimSpace_runes s = rev (dropWhile IsSpace (rev (dropWhile IsSpace (runes s))))"

lemma TrimSpace_runes_Nil [simp]: "TrimSpace_runes [] = []"
  by (simp add: TrimSpace_runes_def)

subsection \<open>Decimal numbers\<close>

definition is_digit :: "char \<Rightarrow> bool" where
  "is_digit c \<longleftrightarrow> 48 \<le> byte_of c \<and> byte_of c \<le> 57"

fun parse_digits :: "int \<Rightarrow> string \<Rightarrow> int" where
  "parse_digits acc [] = acc"
| "parse_digits acc (c # cs) = parse_digits (10 * acc + int (byte_of c) - 48) cs"

definition min_int64 :: int where
  "min_int64 = - 9223372036854775808"

definition max_int64 :: int where
  "max_int64 = 9223372036854775807"

text \<open>Conversion to a 64-bit integer, and the wrap-around of its arithmetic.\<close>

definition to_int64 :: "int \<Rightarrow> int" where
  "to_int64 i = (i + 2 ^ 63) mod 2 ^ 64 - 2 ^ 63"

lemma to_int64_id: "min_int64 \<le> t \<Longrightarrow> t \<le> max_int64 \<Longrightarrow> to_int64 t = t"
  by (simp add: to_int64_def min_int64_def max_int64_def)

text \<open>\<open>strconv.Atoi\<close> with a 64-bit \<open>int\<close>; \<open>None\<close> is the error.\<close>

definition Atoi :: "string \<Rightarrow> int option" where
  "Atoi s =
     (let neg = (s \<noteq> [] \<and> hd s = CHR ''-'');
          body = (if s \<noteq> [] \<and> (hd s = CHR ''-'' \<or> hd s = CHR ''+'') then tl s else s)
      in if body = [] \<or> \<not> list_all is_digit body then None
         else let v = (if neg then - parse_digits 0 body else parse_digits 0 body)
              in if min_int64 \<le> v \<and> v \<le> max_int64 then Some v else None)"

lemma byte_of_digit: "d < 10 \<Longrightarrow> byte_of (char_of (48 + d :: nat)) = 48 + d"
  by (simp add: byte_of_def)

lemma is_digit_char: "d < 10 \<Longrightarrow> is_digit (char_of (48 + d :: nat))"
  by (simp add: is_digit_def byte_of_digit)

lemma digits_of_nat_digits: "list_all is_digit (digits_of_nat n)"
  by (induction n rule: digits_of_nat.induct)
    (subst digits_of_nat.simps, auto simp: is_digit_char)

lemma parse_digits_append: "parse_digits a (xs @ ys) = parse_digits (parse_digits a xs) ys"
  by (induction a xs rule: parse_digits.induct) auto

lemma parse_digits_of_nat: "parse_digits 0 (digits_of_nat n) = int n"
proof (induction n rule: digits_of_nat.induct)
  case (1 n)
  show ?case
  proof (cases "n < 10")
    case True
    then show ?thesis by (subst digits_of_nat.simps) (simp add: byte_of_digit)
  next
    case False
    have "10 * (n div 10) + n mod 10 = n" by simp
    then have "10 * int (n div 10) + int (n mod 10) = int n" by linarith
    with False show ?thesis
      using 1 by (subst digits_of_nat.simps) (simp add: parse_digits_append byte_of_digit)
  qed
qed

lemma digits_of_nat_nonempty [simp]: "digits_of_nat n \<noteq> []"
  by (subst digits_of_nat.simps) simp

lemma digits_of_nat_hd: "is_digit (hd (digits_of_nat n))"
  using digits_of_nat_digits [of n] by (cases "digits_of_nat n") (auto dest: sym)

lemma Atoi_itoa: "min_int64 \<le> i \<Longrightarrow> i \<le> max_int64 \<Longrightarrow> Atoi (itoa i) = Some i"
  using digits_of_nat_hd [of "nat i"] digits_of_nat_digits [of "nat i"]
    digits_of_nat_digits [of "nat (- i)"]
  by (auto simp: Atoi_def itoa_def Let_def parse_digits_of_nat is_digit_def byte_of_def)

lemma digits_no_colon: "CHR '':'' \<notin> set (itoa i)"
proof
  assume "CHR '':'' \<in> set (itoa i)"
  then have "is_digit CHR '':''"
    using digits_of_nat_digits [of "nat i"] digits_of_nat_digits [of "nat (- i)"]
    by (auto simp: itoa_def list_all_iff split: if_splits)
  then show False by (simp add: is_digit_def byte_of_def)
qed

end
