(* ===== verification/Go_Time.thy ===== *)
theory Go_Time
  imports File_Info Go_Strings "HOL-Library.Monad_Syntax"
begin

text \<open>
  The functions of the Go standard library on times that the code calls: \<open>Format\<close> and \<open>Parse\<close> of
  \<^verbatim>\<open>time.RFC3339\<close> for UTC. The calendar is the proleptic Gregorian one; a year here begins in March, so that
  the leap day is its last one. \<open>Parse\<close> first tries the strict form and then the general parser of layouts,
  which is the parameter \<open>lenient\<close>: it can only accept texts that are not in the strict form.
\<close>

subsection \<open>The calendar\<close>

text \<open>Years, months and days of a count of days since 1970-01-01, and back.\<close>

definition march_day :: "int \<Rightarrow> int \<times> int" where
  "march_day z =
     (let e = z div 146097; n = z mod 146097;
          a = min 3 (n div 36524); r = n - 36524 * a;
          b = r div 1461; q = r mod 1461;
          c = min 3 (q div 365)
      in (400 * e + 100 * a + 4 * b + c, q - 365 * c))"

definition date_of_days :: "int \<Rightarrow> int \<times> int \<times> int" where
  "date_of_days z =
     (let (y, n) = march_day (z + 719468);
          k = (5 * n + 2) div 153;
          d = n - (153 * k + 2) div 5 + 1;
          m = (if k < 10 then k + 3 else k - 9)
      in (if m \<le> 2 then y + 1 else y, m, d))"

definition days_of_date :: "int \<Rightarrow> int \<Rightarrow> int \<Rightarrow> int" where
  "days_of_date y m d =
     (let y' = (if m \<le> 2 then y - 1 else y);
          k = (if m \<le> 2 then m + 9 else m - 3)
      in 365 * y' + y' div 4 - y' div 100 + y' div 400 + (153 * k + 2) div 5 + d - 1 - 719468)"

definition isLeap :: "int \<Rightarrow> bool" where
  "isLeap y \<longleftrightarrow> y mod 4 = 0 \<and> (y mod 100 \<noteq> 0 \<or> y mod 400 = 0)"

definition daysIn :: "int \<Rightarrow> int \<Rightarrow> int" where
  "daysIn m y =
     (if m = 2 then (if isLeap y then 29 else 28)
      else if m = 4 \<or> m = 6 \<or> m = 9 \<or> m = 11 then 30
      else 31)"

subsection \<open>Formatting\<close>

definition append_int :: "int \<Rightarrow> nat \<Rightarrow> string" where
  "append_int x w =
     (let ds = digits_of_nat (nat \<bar>x\<bar>) in (if x < 0 then ''-'' else []) @ replicate (w - length ds) (CHR ''0'') @ ds)"

definition second_ns :: int where
  "second_ns = 1000000000"

definition format_rfc3339 :: "gotime \<Rightarrow> string" where
  "format_rfc3339 t =
     (let sec = t div second_ns; (y, m, d) = date_of_days (sec div 86400); s = sec mod 86400 in
      append_int y 4 @ ''-'' @ append_int m 2 @ ''-'' @ append_int d 2 @ ''T'' @
      append_int (s div 3600) 2 @ '':'' @ append_int (s mod 3600 div 60) 2 @ '':'' @ append_int (s mod 60) 2 @ ''Z'')"

subsection \<open>Parsing\<close>

definition parse_uint :: "string \<Rightarrow> int \<Rightarrow> int \<Rightarrow> int option" where
  "parse_uint s lo hi =
     (if list_all is_digit s \<and> lo \<le> parse_digits 0 s \<and> parse_digits 0 s \<le> hi then Some (parse_digits 0 s) else None)"

text \<open>The fraction of a second: the nanoseconds of at most nine digits after the point, and the rest.\<close>

definition parse_fraction :: "string \<Rightarrow> int \<times> string" where
  "parse_fraction s =
     (if length s \<ge> 2 \<and> s ! 0 = CHR ''.'' \<and> is_digit (s ! 1) then
        (let ds = takeWhile is_digit (tl s); nine = take 9 ds in
         (parse_digits 0 nine * 10 ^ (9 - length nine), drop (1 + length ds) s))
      else (0, s))"

definition parse_zone :: "string \<Rightarrow> int option" where
  "parse_zone s =
     (if s = ''Z'' then Some 0
      else if length s \<noteq> 6 then None
      else do {
        hr \<leftarrow> parse_uint (take 2 (drop 1 s)) 0 23;
        mm \<leftarrow> parse_uint (drop 4 s) 0 59;
        if (s ! 0 = CHR ''-'' \<or> s ! 0 = CHR ''+'') \<and> s ! 3 = CHR '':''
        then Some (if s ! 0 = CHR ''-'' then - ((hr * 60 + mm) * 60) else (hr * 60 + mm) * 60)
        else None
      })"

definition parse_strict :: "string \<Rightarrow> gotime option" where
  "parse_strict s =
     (if length s < 19 then None
      else do {
        year \<leftarrow> parse_uint (take 4 s) 0 9999;
        month \<leftarrow> parse_uint (take 2 (drop 5 s)) 1 12;
        day \<leftarrow> parse_uint (take 2 (drop 8 s)) 1 (daysIn month year);
        hour \<leftarrow> parse_uint (take 2 (drop 11 s)) 0 23;
        minute \<leftarrow> parse_uint (take 2 (drop 14 s)) 0 59;
        sec \<leftarrow> parse_uint (take 2 (drop 17 s)) 0 59;
        if \<not> (s ! 4 = CHR ''-'' \<and> s ! 7 = CHR ''-'' \<and> s ! 10 = CHR ''T'' \<and> s ! 13 = CHR '':'' \<and> s ! 16 = CHR '':'') then None
        else do {
          let (nsec, rest) = parse_fraction (drop 19 s);
          offset \<leftarrow> parse_zone rest;
          Some ((days_of_date year month day * 86400 + hour * 3600 + minute * 60 + sec - offset) * second_ns + nsec)
        }
      })"

definition parse_rfc3339 :: "(string \<Rightarrow> gotime option) \<Rightarrow> string \<Rightarrow> gotime option" where
  "parse_rfc3339 lenient s = (case parse_strict s of Some t \<Rightarrow> Some t | None \<Rightarrow> lenient s)"

subsection \<open>Formatting and parsing\<close>

text \<open>A quotient that is cut off at three.\<close>

lemma capped_div:
  assumes "0 \<le> (x :: int)" and "0 < k"
  shows "0 \<le> min 3 (x div k)" and "min 3 (x div k) \<le> 3" and "k * min 3 (x div k) \<le> x"
    and "min 3 (x div k) < 3 \<Longrightarrow> x < k * (min 3 (x div k) + 1)"
proof -
  have "x = k * (x div k) + x mod k" "0 \<le> x mod k" "x mod k < k"
    using assms by (simp_all only: mult_div_mod_eq pos_mod_sign pos_mod_bound)
  then have d: "k * (x div k) \<le> x" "x < k * (x div k + 1)" unfolding distrib_left by linarith+
  have "k * min 3 (x div k) \<le> k * (x div k)" using assms(2) by (intro mult_left_mono) auto
  then show "k * min 3 (x div k) \<le> x" using d(1) by linarith
  show "x < k * (min 3 (x div k) + 1)" if "min 3 (x div k) < 3"
  proof -
    have "min 3 (x div k) = x div k" using that by (auto simp: min_def)
    then show ?thesis using d(2) by simp
  qed
qed (use assms in \<open>auto simp: pos_imp_zdiv_nonneg_iff\<close>)

lemma march_day_split:
  assumes "march_day z = (y, n)"
  obtains e a b c where "y = 400 * e + 100 * a + 4 * b + c" "z = 146097 * e + 36524 * a + 1461 * b + 365 * c + n"
    "0 \<le> a" "a \<le> 3" "0 \<le> b" "b \<le> 24" "0 \<le> c" "c \<le> 3" "0 \<le> n" "n \<le> 365"
    "n = 365 \<longrightarrow> c = 3 \<and> (b = 24 \<longrightarrow> a = 3)"
proof -
  define e m where "e = z div 146097" and "m = z mod 146097"
  define a where "a = min 3 (m div 36524)"
  define r where "r = m - 36524 * a"
  define b q where "b = r div 1461" and "q = r mod 1461"
  define c where "c = min 3 (q div 365)"
  have "march_day z = (400 * e + 100 * a + 4 * b + c, q - 365 * c)"
    unfolding march_day_def Let_def e_def m_def a_def r_def b_def q_def c_def by (rule refl)
  then have y: "y = 400 * e + 100 * a + 4 * b + c" and n: "n = q - 365 * c" using assms by simp_all
  have m: "0 \<le> m" "m < 146097" "z = 146097 * e + m" by (simp_all add: m_def e_def)
  have a: "0 \<le> a" "a \<le> 3" "36524 * a \<le> m" "a < 3 \<Longrightarrow> m < 36524 * (a + 1)" unfolding a_def by (rule capped_div; use m in simp)+
  have r: "0 \<le> r" "r \<le> 36524" "a < 3 \<Longrightarrow> r < 36524"
    using a m(2) unfolding r_def by (cases "a < 3"; simp)+
  have q: "0 \<le> q" "q < 1461" "r = 1461 * b + q" unfolding q_def b_def by simp_all
  have b: "0 \<le> b" "b \<le> 24" using q r(1,2) by linarith+
  have c: "0 \<le> c" "c \<le> 3" "365 * c \<le> q" "c < 3 \<Longrightarrow> q < 365 * (c + 1)" unfolding c_def by (rule capped_div; use q in simp)+
  have "n = 365 \<longrightarrow> c = 3" using n c(2,4) by (cases "c < 3") simp_all
  moreover have "n = 365 \<and> c = 3 \<longrightarrow> (b = 24 \<longrightarrow> a = 3)" using n q(3) r(3) a(2) by (cases "a < 3") simp_all
  moreover have "z = 146097 * e + 36524 * a + 1461 * b + 365 * c + n" using m(3) q(3) n unfolding r_def by linarith
  moreover have "0 \<le> n" "n \<le> 365" using n c q(2) by (cases "c < 3"; simp)+
  ultimately show thesis by (intro that [OF y]) (use a(1,2) b c(1,2) in auto)
qed

lemma march_day_inverse:
  assumes "march_day z = (y, n)"
  shows "365 * y + y div 4 - y div 100 + y div 400 + n = z \<and> 0 \<le> n \<and> n \<le> 365 \<and> (n = 365 \<longrightarrow> isLeap (y + 1))"
proof -
  obtain e a b c where y: "y = 400 * e + 100 * a + 4 * b + c" and z: "z = 146097 * e + 36524 * a + 1461 * b + 365 * c + n"
    and B: "0 \<le> a" "a \<le> 3" "0 \<le> b" "b \<le> 24" "0 \<le> c" "c \<le> 3" and n: "0 \<le> n" "n \<le> 365"
    and l: "n = 365 \<longrightarrow> c = 3 \<and> (b = 24 \<longrightarrow> a = 3)" by (rule march_day_split [OF assms])
  have "y div 4 = 100 * e + 25 * a + b" by (rule int_div_pos_eq [of _ _ _ c]) (use y B in simp_all)
  moreover have "y div 100 = 4 * e + a" by (rule int_div_pos_eq [of _ _ _ "4 * b + c"]) (use y B in simp_all)
  moreover have "y div 400 = e" by (rule int_div_pos_eq [of _ _ _ "100 * a + 4 * b + c"]) (use y B in simp_all)
  moreover have "isLeap (y + 1)" if "n = 365"
  proof -
    have c: "c = 3" "b = 24 \<longrightarrow> a = 3" using l that by auto
    then have "y + 1 = 4 * (100 * e + 25 * a + b + 1)" using y by simp
    then have 4: "(y + 1) mod 4 = 0" by simp
    show ?thesis
    proof (cases "b = 24")
      case True
      then have "y + 1 = 400 * (e + 1)" using c y by simp
      then show ?thesis by (simp add: isLeap_def)
    next
      case False
      have "(y + 1) mod 100 = 4 * b + 4" by (rule int_mod_pos_eq [of _ _ "4 * e + a"]) (use y c(1) B False in simp_all)
      then have "(y + 1) mod 100 \<noteq> 0" using B by simp
      then show ?thesis using 4 by (simp add: isLeap_def)
    qed
  qed
  ultimately show ?thesis using y z n by linarith
qed

lemma month_day:
  assumes "0 \<le> (n :: int)" and "n \<le> 365"
  defines "k \<equiv> (5 * n + 2) div 153"
  defines "d \<equiv> n - (153 * k + 2) div 5 + 1"
  shows "0 \<le> k \<and> k \<le> 11 \<and> 1 \<le> d \<and> d \<le> (if k = 11 then (if n = 365 then 29 else 28) else if k = 1 \<or> k = 3 \<or> k = 6 \<or> k = 8 then 30 else 31)"
proof -
  have k: "0 \<le> k" "k \<le> 11" "153 * k \<le> 5 * n + 2" "5 * n + 2 < 153 * k + 153" using assms(1,2) unfolding k_def by linarith+
  have "k = 0 \<or> k = 1 \<or> k = 2 \<or> k = 3 \<or> k = 4 \<or> k = 5 \<or> k = 6 \<or> k = 7 \<or> k = 8 \<or> k = 9 \<or> k = 10 \<or> k = 11" using k(1,2) by presburger
  then show ?thesis using k assms(2) unfolding d_def by (elim disjE) simp_all
qed

lemma date_of_days_inverse:
  assumes "date_of_days z = (y, m, d)"
  shows "days_of_date y m d = z \<and> 1 \<le> m \<and> m \<le> 12 \<and> 1 \<le> d \<and> d \<le> daysIn m y"
proof -
  obtain y0 n where yn: "march_day (z + 719468) = (y0, n)" by fastforce
  define k where "k = (5 * n + 2) div 153"
  have m: "m = (if k < 10 then k + 3 else k - 9)" and y: "y = (if m \<le> 2 then y0 + 1 else y0)" and d: "d = n - (153 * k + 2) div 5 + 1"
    using assms yn by (auto simp: date_of_days_def Let_def k_def)
  note inv = march_day_inverse [OF yn]
  have md: "0 \<le> k" "k \<le> 11" "1 \<le> d"
    "d \<le> (if k = 11 then (if n = 365 then 29 else 28) else if k = 1 \<or> k = 3 \<or> k = 6 \<or> k = 8 then 30 else 31)"
    using month_day [of n] inv unfolding d k_def by auto
  have k': "(if m \<le> 2 then m + 9 else m - 3) = k" and y': "(if m \<le> 2 then y - 1 else y) = y0" using m y md(1,2) by auto
  have "days_of_date y m d = z" unfolding days_of_date_def Let_def k' y' using inv d by linarith
  moreover have "d \<le> daysIn m y"
  proof (cases "k = 11")
    case True
    then show ?thesis using md(4) m y inv by (auto simp: daysIn_def split: if_splits)
  next
    case False
    then show ?thesis using md(4) m md(1,2) by (auto simp: daysIn_def split: if_splits)
  qed
  ultimately show ?thesis using m md(1,2,3) by auto
qed

lemma digits_length: "n < 10 ^ w \<Longrightarrow> 0 < w \<Longrightarrow> length (digits_of_nat n) \<le> w"
proof (induction n arbitrary: w rule: digits_of_nat.induct)
  case (1 n)
  show ?case
  proof (cases "n < 10")
    case True
    then show ?thesis using 1(3) by (subst digits_of_nat.simps) simp
  next
    case False
    then obtain v where v: "w = Suc v" "0 < v" using 1(2,3) by (cases w; cases "w - 1") auto
    then have "n div 10 < 10 ^ v" using 1(2) by auto
    from 1(1) [OF False this v(2)] show ?thesis using False v by (subst digits_of_nat.simps) simp
  qed
qed

lemma parse_zeros: "parse_digits 0 (replicate k (CHR ''0'') @ s) = parse_digits 0 s"
  by (induction k) (simp_all add: byte_of_def)

lemma append_int_digits:
  assumes "0 \<le> x" and "x < 10 ^ w" and "0 < w"
  shows "length (append_int x w) = w" and "list_all is_digit (append_int x w)" and "parse_digits 0 (append_int x w) = x"
proof -
  have "nat x < 10 ^ w" using assms(1,2) by (simp add: nat_less_iff)
  then have "length (digits_of_nat (nat x)) \<le> w" using digits_length assms(3) by blast
  then show "length (append_int x w) = w" using assms(1) by (simp add: append_int_def Let_def)
  have z: "is_digit (CHR ''0'')" by (simp add: is_digit_def byte_of_def)
  show "list_all is_digit (append_int x w)"
    using assms(1) digits_of_nat_digits [of "nat x"] z by (auto simp: append_int_def Let_def list_all_iff set_replicate_conv_if)
  show "parse_digits 0 (append_int x w) = x" using assms(1) by (simp add: append_int_def Let_def parse_zeros parse_digits_of_nat)
qed

lemma parse_uint_append_int:
  "lo \<le> x \<Longrightarrow> x \<le> hi \<Longrightarrow> 0 \<le> lo \<Longrightarrow> hi < 10 ^ w \<Longrightarrow> 0 < w \<Longrightarrow> parse_uint (append_int x w) lo hi = Some x"
  using append_int_digits [of x w] by (simp add: parse_uint_def)

definition four_digit_year :: "gotime \<Rightarrow> bool" where
  "four_digit_year t \<longleftrightarrow> (case date_of_days (t div second_ns div 86400) of (y, m, d) \<Rightarrow> 0 \<le> y \<and> y \<le> 9999)"

definition Truncate_second :: "gotime \<Rightarrow> gotime" where
  "Truncate_second t = t - t mod second_ns"

text \<open>A text in the strict form, taken apart.\<close>

lemma parse_strict_parts:
  assumes "length Y = 4" "length M = 2" "length D = 2" "length h = 2" "length i = 2" "length s = 2"
    and "parse_uint Y 0 9999 = Some y" "parse_uint M 1 12 = Some m" "parse_uint D 1 (daysIn m y) = Some d"
    and "parse_uint h 0 23 = Some hour" "parse_uint i 0 59 = Some minute" "parse_uint s 0 59 = Some sec"
  shows "parse_strict (Y @ ''-'' @ M @ ''-'' @ D @ ''T'' @ h @ '':'' @ i @ '':'' @ s @ ''Z'') =
    Some ((days_of_date y m d * 86400 + hour * 3600 + minute * 60 + sec) * second_ns)"
  using assms by (simp add: parse_strict_def nth_append parse_fraction_def parse_zone_def)

lemma parse_strict_format:
  assumes "0 \<le> y" "y \<le> 9999" "1 \<le> m" "m \<le> 12" "1 \<le> d" "d \<le> daysIn m y"
    and "0 \<le> hour" "hour \<le> 23" "0 \<le> minute" "minute \<le> 59" "0 \<le> sec" "sec \<le> 59"
  shows "parse_strict (append_int y 4 @ ''-'' @ append_int m 2 @ ''-'' @ append_int d 2 @ ''T'' @
      append_int hour 2 @ '':'' @ append_int minute 2 @ '':'' @ append_int sec 2 @ ''Z'') =
    Some ((days_of_date y m d * 86400 + hour * 3600 + minute * 60 + sec) * second_ns)"
proof (rule parse_strict_parts)
  have d31: "daysIn m y \<le> 31" by (simp add: daysIn_def)
  show "parse_uint (append_int d 2) 1 (daysIn m y) = Some d" using assms(5,6) d31 by (intro parse_uint_append_int) simp_all
  show "length (append_int d 2) = 2" using assms(5,6) d31 by (intro append_int_digits(1)) simp_all
qed (use assms in \<open>simp_all add: append_int_digits(1) parse_uint_append_int\<close>)

lemma parse_format_rfc3339:
  assumes "four_digit_year t"
  shows "parse_rfc3339 lenient (format_rfc3339 t) = Some (Truncate_second t)"
proof -
  define z where "z = t div second_ns div 86400"
  define r where "r = t div second_ns mod 86400"
  obtain y m d where ymd: "date_of_days z = (y, m, d)" by (metis prod_cases3)
  note inv = date_of_days_inverse [OF ymd]
  have y: "0 \<le> y" "y \<le> 9999" using assms ymd by (simp_all add: four_digit_year_def z_def)
  have r: "0 \<le> r" "r < 86400" by (simp_all add: r_def)
  have h: "0 \<le> r div 3600" "r div 3600 \<le> 23" "0 \<le> r mod 3600 div 60" "r mod 3600 div 60 \<le> 59" "0 \<le> r mod 60" "r mod 60 \<le> 59"
    using r zdiv_mono1 [of r 86399 3600] zdiv_mono1 [of "r mod 3600" 3599 60] pos_mod_bound [of 3600 r] pos_mod_bound [of 60 r]
    by (simp_all add: pos_imp_zdiv_nonneg_iff)
  have "r mod 60 = r mod 3600 mod 60" by (simp add: mod_mod_cancel)
  then have "r mod 3600 div 60 * 60 + r mod 60 = r mod 3600" by (metis div_mult_mod_eq)
  then have sum: "r div 3600 * 3600 + r mod 3600 div 60 * 60 + r mod 60 = r" by (simp only: add.assoc div_mult_mod_eq)
  have "format_rfc3339 t = append_int y 4 @ ''-'' @ append_int m 2 @ ''-'' @ append_int d 2 @ ''T'' @
      append_int (r div 3600) 2 @ '':'' @ append_int (r mod 3600 div 60) 2 @ '':'' @ append_int (r mod 60) 2 @ ''Z''"
    using ymd by (simp add: format_rfc3339_def Let_def z_def r_def)
  also have "parse_strict \<dots> = Some ((days_of_date y m d * 86400 + r div 3600 * 3600 + r mod 3600 div 60 * 60 + r mod 60) * second_ns)"
    using inv by (intro parse_strict_format y h) blast+
  also have "(days_of_date y m d * 86400 + r div 3600 * 3600 + r mod 3600 div 60 * 60 + r mod 60) * second_ns = (z * 86400 + r) * second_ns"
    using inv sum by (simp add: add.assoc)
  also have "z * 86400 + r = t div second_ns" by (simp add: z_def r_def)
  also have "t div second_ns * second_ns = Truncate_second t" by (simp add: Truncate_second_def minus_mod_eq_div_mult)
  finally show ?thesis by (simp add: parse_rfc3339_def)
qed

end
