(* ===== verification/Lifecycle.thy ===== *)
theory Lifecycle
  imports File_Info Go_Strings
begin

text \<open>
  The lifecycle rules of a bucket, \<^verbatim>\<open>pkg/bucket/lifecycle\<close>: the elements of a rule and their validation,
  the choice of the rules that apply to an object version, the action they call for, the time at which
  an object will expire, and the test whether a prefix has active rules at all. Configurations are the
  values after XML decoding; \<open>now\<close> is the time that the code reads.
\<close>

subsection \<open>Elements of a rule\<close>

record lc_Prefix =
  lp_string :: string
  lp_set :: bool

record lc_Tag =
  lt_Key :: string
  lt_Value :: string

record lc_And =
  an_Prefix :: lc_Prefix
  an_Tags :: "lc_Tag list"

record lc_Filter =
  lf_set :: bool
  lf_Prefix :: lc_Prefix
  lf_And :: lc_And
  lf_andSet :: bool
  lf_Tag :: lc_Tag
  lf_tagSet :: bool
  lf_cachedTags :: "string list option"

record ExpireDeleteMarker =
  ed_val :: bool
  ed_set :: bool

record Expiration =
  ex_Days :: int
  ex_Date :: gotime
  ex_DeleteMarker :: ExpireDeleteMarker
  ex_set :: bool

record Transition =
  tr_Days :: int
  tr_Date :: gotime
  tr_StorageClass :: string
  tr_set :: bool

record NoncurrentVersionExpiration =
  nve_NoncurrentDays :: int
  nve_set :: bool

record NoncurrentVersionTransition =
  nvt_NoncurrentDays :: int
  nvt_StorageClass :: string
  nvt_set :: bool

record Rule =
  ru_ID :: string
  ru_Status :: string
  ru_Filter :: lc_Filter
  ru_Prefix :: lc_Prefix
  ru_Expiration :: Expiration
  ru_Transition :: Transition
  ru_NoncurrentVersionExpiration :: NoncurrentVersionExpiration
  ru_NoncurrentVersionTransition :: NoncurrentVersionTransition

record Lifecycle =
  lc_Rules :: "Rule list"

definition Enabled :: string where
  "Enabled = ''Enabled''"

definition Disabled :: string where
  "Disabled = ''Disabled''"

definition errXMLNotWellFormed :: goerr where
  "errXMLNotWellFormed = ErrorsNew ''The XML you provided was not well-formed or did not validate against our published schema''"

subsection \<open>Null fields\<close>

definition Expiration_IsDaysNull :: "Expiration \<Rightarrow> bool" where
  "Expiration_IsDaysNull e \<longleftrightarrow> ex_Days e = 0"

definition Expiration_IsDateNull :: "Expiration \<Rightarrow> bool" where
  "Expiration_IsDateNull e \<longleftrightarrow> ex_Date e = zero_time"

definition Expiration_IsNull :: "Expiration \<Rightarrow> bool" where
  "Expiration_IsNull e \<longleftrightarrow> Expiration_IsDaysNull e \<and> Expiration_IsDateNull e"

definition Transition_IsDaysNull :: "Transition \<Rightarrow> bool" where
  "Transition_IsDaysNull t \<longleftrightarrow> tr_Days t = 0"

definition Transition_IsDateNull :: "Transition \<Rightarrow> bool" where
  "Transition_IsDateNull t \<longleftrightarrow> tr_Date t = zero_time"

definition Transition_IsNull :: "Transition \<Rightarrow> bool" where
  "Transition_IsNull t \<longleftrightarrow> Transition_IsDaysNull t \<and> Transition_IsDateNull t"

definition NVE_IsDaysNull :: "NoncurrentVersionExpiration \<Rightarrow> bool" where
  "NVE_IsDaysNull n \<longleftrightarrow> nve_NoncurrentDays n = 0"

definition NVT_IsDaysNull :: "NoncurrentVersionTransition \<Rightarrow> bool" where
  "NVT_IsDaysNull n \<longleftrightarrow> nvt_NoncurrentDays n = 0"

subsection \<open>Validation\<close>

text \<open>The checks on a number of days when an element is decoded.\<close>

definition ExpirationDays_decode :: "int \<Rightarrow> goerr + int" where
  "ExpirationDays_decode numDays =
     (if numDays \<le> 0 then Inl (ErrorsNew ''Days must be positive integer when used with Expiration'') else Inr numDays)"

definition TransitionDays_decode :: "int \<Rightarrow> goerr + int" where
  "TransitionDays_decode numDays =
     (if numDays < 0 then Inl (ErrorsNew ''Days must be 0 or greater when used with Transition'') else Inr numDays)"

definition Expiration_Validate :: "Expiration \<Rightarrow> goerr option" where
  "Expiration_Validate e =
     (if \<not> ex_set e then None
      else if (\<not> Expiration_IsDaysNull e \<or> \<not> Expiration_IsDateNull e) \<and> ed_set (ex_DeleteMarker e)
      then Some (ErrorsNew ''Delete marker cannot be specified with Days or Date in a Lifecycle Expiration Policy'')
      else if \<not> ed_set (ex_DeleteMarker e) \<and> Expiration_IsDaysNull e \<and> Expiration_IsDateNull e then Some errXMLNotWellFormed
      else if \<not> Expiration_IsDaysNull e \<and> \<not> Expiration_IsDateNull e
      then Some (ErrorsNew ''Exactly one of Days (positive integer) or Date (positive ISO 8601 format) should be present inside Expiration.'')
      else None)"

definition Transition_Validate :: "Transition \<Rightarrow> goerr option" where
  "Transition_Validate t =
     (if \<not> tr_set t then None
      else if Transition_IsDaysNull t \<and> Transition_IsDateNull t then Some errXMLNotWellFormed
      else if \<not> Transition_IsDaysNull t \<and> \<not> Transition_IsDateNull t
      then Some (ErrorsNew ''Exactly one of Days (0 or greater) or Date (positive ISO 8601 format) should be present inside Expiration.'')
      else if tr_StorageClass t = [] then Some errXMLNotWellFormed
      else None)"

definition NVE_Validate :: "NoncurrentVersionExpiration \<Rightarrow> goerr option" where
  "NVE_Validate n =
     (if \<not> nve_set n then None else if nve_NoncurrentDays n \<le> 0 then Some errXMLNotWellFormed else None)"

definition NVT_Validate :: "NoncurrentVersionTransition \<Rightarrow> goerr option" where
  "NVT_Validate n =
     (if \<not> nvt_set n then None
      else if nvt_NoncurrentDays n \<le> 0 \<or> nvt_StorageClass n = [] then Some errXMLNotWellFormed
      else None)"

definition Tag_IsEmpty :: "lc_Tag \<Rightarrow> bool" where
  "Tag_IsEmpty t \<longleftrightarrow> lt_Key t = []"

definition Tag_String :: "lc_Tag \<Rightarrow> string" where
  "Tag_String t = lt_Key t @ ''='' @ lt_Value t"

definition Tag_Validate :: "lc_Tag \<Rightarrow> goerr option" where
  "Tag_Validate t =
     (if lt_Key t = [] \<or> length (runes (lt_Key t)) > 128 then Some (ErrorsNew ''The TagKey you have provided is invalid'')
      else if length (runes (lt_Value t)) > 256 then Some (ErrorsNew ''The TagValue you have provided is invalid'')
      else None)"

definition And_isEmpty :: "lc_And \<Rightarrow> bool" where
  "And_isEmpty a \<longleftrightarrow> an_Tags a = [] \<and> \<not> lp_set (an_Prefix a)"

fun duplicate_tag :: "string set \<Rightarrow> lc_Tag list \<Rightarrow> bool" where
  "duplicate_tag x [] = False"
| "duplicate_tag x (t # ts) = (if lt_Key t \<in> x then True else duplicate_tag (insert (lt_Key t) x) ts)"

definition ContainsDuplicateTag :: "lc_And \<Rightarrow> bool" where
  "ContainsDuplicateTag a = duplicate_tag {} (an_Tags a)"

text \<open>A loop that returns the first error.\<close>

fun first_err :: "('a \<Rightarrow> goerr option) \<Rightarrow> 'a list \<Rightarrow> goerr option" where
  "first_err f [] = None"
| "first_err f (x # xs) = (case f x of Some e \<Rightarrow> Some e | None \<Rightarrow> first_err f xs)"

definition And_Validate :: "lc_And \<Rightarrow> goerr option" where
  "And_Validate a =
     (let emptyPrefix = \<not> lp_set (an_Prefix a); emptyTags = an_Tags a = [] in
      if emptyPrefix \<and> emptyTags then None
      else if emptyPrefix \<and> \<not> emptyTags \<or> \<not> emptyPrefix \<and> emptyTags then Some errXMLNotWellFormed
      else if ContainsDuplicateTag a then Some (ErrorsNew ''Duplicate Tag Keys are not allowed'')
      else first_err Tag_Validate (an_Tags a))"

definition errInvalidFilter :: goerr where
  "errInvalidFilter = ErrorsNew ''Filter must have exactly one of Prefix, Tag, or And specified''"

definition Filter_IsEmpty :: "lc_Filter \<Rightarrow> bool" where
  "Filter_IsEmpty f \<longleftrightarrow> \<not> lf_set f"

definition Filter_Validate :: "lc_Filter \<Rightarrow> goerr option" where
  "Filter_Validate f =
     (if Filter_IsEmpty f then Some errXMLNotWellFormed
      else if \<not> And_isEmpty (lf_And f) \<and> lp_set (lf_Prefix f) then Some errInvalidFilter
      else if \<not> And_isEmpty (lf_And f) \<and> \<not> Tag_IsEmpty (lf_Tag f) then Some errInvalidFilter
      else
        (case (if \<not> And_isEmpty (lf_And f) then And_Validate (lf_And f) else None) of
           Some e \<Rightarrow> Some e
         | None \<Rightarrow>
             if lp_set (lf_Prefix f) \<and> \<not> Tag_IsEmpty (lf_Tag f) then Some errInvalidFilter
             else if \<not> Tag_IsEmpty (lf_Tag f) then
               (if lp_set (lf_Prefix f) then Some errInvalidFilter else Tag_Validate (lf_Tag f))
             else None))"

text \<open>The outcome of generating an identifier is \<open>newID\<close>; the rule that \<open>validateID\<close> changes is returned.\<close>

definition validateID :: "goerr + string \<Rightarrow> Rule \<Rightarrow> Rule \<times> goerr option" where
  "validateID newID r =
     (let IDLen = length (ru_ID r) in
      if IDLen = 0 then
        (case newID of Inr i \<Rightarrow> (r\<lparr>ru_ID := i\<rparr>, None) | Inl err \<Rightarrow> (r, Some err))
      else if IDLen > 255 then (r, Some (ErrorsNew ''ID length is limited to 255 characters''))
      else (r, None))"

definition validateStatus :: "Rule \<Rightarrow> goerr option" where
  "validateStatus r =
     (if ru_Status r = [] then Some (ErrorsNew ''Status should not be empty'')
      else if ru_Status r \<noteq> Enabled \<and> ru_Status r \<noteq> Disabled
      then Some (ErrorsNew ''Status must be set to either Enabled or Disabled'')
      else None)"

definition validatePrefixAndFilter :: "Rule \<Rightarrow> goerr option" where
  "validatePrefixAndFilter r =
     (if \<not> lp_set (ru_Prefix r) \<and> Filter_IsEmpty (ru_Filter r) \<or> lp_set (ru_Prefix r) \<and> \<not> Filter_IsEmpty (ru_Filter r)
      then Some errXMLNotWellFormed
      else if \<not> lp_set (ru_Prefix r) then Filter_Validate (ru_Filter r)
      else None)"

text \<open>The receiver is a copy: the identifier that \<open>validateID\<close> generates ends with the call.\<close>

definition Rule_Validate :: "goerr + string \<Rightarrow> Rule \<Rightarrow> goerr option" where
  "Rule_Validate newID r0 =
     (case validateID newID r0 of
        (r, Some err) \<Rightarrow> Some err
      | (r, None) \<Rightarrow>
          first_err (\<lambda>check. check r)
            [validateStatus, \<lambda>r. Expiration_Validate (ru_Expiration r), \<lambda>r. NVE_Validate (ru_NoncurrentVersionExpiration r),
             validatePrefixAndFilter, \<lambda>r. Transition_Validate (ru_Transition r),
             \<lambda>r. NVT_Validate (ru_NoncurrentVersionTransition r),
             \<lambda>r. if \<not> ex_set (ru_Expiration r) \<and> \<not> tr_set (ru_Transition r) \<and>
                    \<not> nve_set (ru_NoncurrentVersionExpiration r) \<and> \<not> nvt_set (ru_NoncurrentVersionTransition r)
                 then Some errXMLNotWellFormed else None])"

fun duplicate_id :: "Rule list \<Rightarrow> bool" where
  "duplicate_id [] = False"
| "duplicate_id (r # rs) = ((\<exists>o' \<in> set rs. ru_ID r = ru_ID o') \<or> duplicate_id rs)"

definition Lifecycle_Validate :: "(Rule \<Rightarrow> goerr + string) \<Rightarrow> Lifecycle \<Rightarrow> goerr option" where
  "Lifecycle_Validate newID lc =
     (if length (lc_Rules lc) > 1000 then Some (ErrorsNew ''Lifecycle configuration allows a maximum of 1000 rules'')
      else if lc_Rules lc = [] then Some (ErrorsNew ''Lifecycle configuration should have at least one rule'')
      else
        (case first_err (\<lambda>r. Rule_Validate (newID r) r) (lc_Rules lc) of
           Some e \<Rightarrow> Some e
         | None \<Rightarrow>
             if duplicate_id (lc_Rules lc)
             then Some (ErrorsNew ''Lifecycle configuration has rule with the same ID. Rule ID must be unique.'')
             else None))"

subsection \<open>Filtering\<close>

definition GetPrefix :: "Rule \<Rightarrow> string" where
  "GetPrefix r =
     (if lp_string (ru_Prefix r) \<noteq> [] then lp_string (ru_Prefix r)
      else if lp_string (lf_Prefix (ru_Filter r)) \<noteq> [] then lp_string (lf_Prefix (ru_Filter r))
      else if lp_string (an_Prefix (lf_And (ru_Filter r))) \<noteq> [] then lp_string (an_Prefix (lf_And (ru_Filter r)))
      else [])"

fun write_tags :: "string \<Rightarrow> lc_Tag list \<Rightarrow> string" where
  "write_tags buf [] = buf"
| "write_tags buf (t # ts) = write_tags ((if length buf > 0 then buf @ ''&'' else buf) @ Tag_String t) ts"

definition Rule_Tags :: "Rule \<Rightarrow> string" where
  "Rule_Tags r =
     (if \<not> Tag_IsEmpty (lf_Tag (ru_Filter r)) then Tag_String (lf_Tag (ru_Filter r))
      else if an_Tags (lf_And (ru_Filter r)) \<noteq> [] then write_tags [] (an_Tags (lf_And (ru_Filter r)))
      else [])"

definition TestTags :: "lc_Filter \<Rightarrow> string list \<Rightarrow> bool" where
  "TestTags f tags =
     (let cachedTags = (case lf_cachedTags f of
          None \<Rightarrow> map Tag_String (filter (\<lambda>t. \<not> Tag_IsEmpty t) (an_Tags (lf_And f) @ [lf_Tag f]))
        | Some c \<Rightarrow> c)
      in list_all (\<lambda>ct. ct \<in> set tags) cachedTags)"

record ObjectOpts =
  oo_Name :: string
  oo_UserTags :: string
  oo_ModTime :: gotime
  oo_VersionID :: string
  oo_IsLatest :: bool
  oo_DeleteMarker :: bool
  oo_NumVersions :: int
  oo_SuccessorModTime :: gotime
  oo_TransitionStatus :: string
  oo_RestoreOngoing :: bool
  oo_RestoreExpires :: gotime

definition ExpiredObjectDeleteMarker :: "ObjectOpts \<Rightarrow> bool" where
  "ExpiredObjectDeleteMarker obj \<longleftrightarrow> oo_DeleteMarker obj \<and> oo_NumVersions obj = 1"

text \<open>What the loop appends for one rule; a rule with a transition may be appended twice.\<close>

definition actionable :: "ObjectOpts \<Rightarrow> Rule \<Rightarrow> Rule list" where
  "actionable obj rule =
     (if ru_Status rule = Disabled then []
      else if \<not> HasPrefix (oo_Name obj) (GetPrefix rule) then []
      else if ed_val (ex_DeleteMarker (ru_Expiration rule)) then [rule]
      else if \<not> NVE_IsDaysNull (ru_NoncurrentVersionExpiration rule) then [rule]
      else if \<not> NVT_IsDaysNull (ru_NoncurrentVersionTransition rule) then [rule]
      else (if TestTags (ru_Filter rule) (split_on (CHR ''&'') (oo_UserTags obj)) then [rule] else []) @
           (if \<not> Transition_IsNull (ru_Transition rule) then [rule] else []))"

definition FilterActionableRules :: "Lifecycle \<Rightarrow> ObjectOpts \<Rightarrow> Rule list" where
  "FilterActionableRules lc obj = (if oo_Name obj = [] then [] else concat (map (actionable obj) (lc_Rules lc)))"

subsection \<open>Actions\<close>

datatype Action =
  NoneAction | DeleteAction | DeleteVersionAction | TransitionAction | TransitionVersionAction
| DeleteRestoredAction | DeleteRestoredVersionAction

definition TransitionComplete :: string where
  "TransitionComplete = ''complete''"

definition TransitionPending :: string where
  "TransitionPending = ''pending''"

text \<open>A day in nanoseconds; the product is one of 64-bit integers, \<open>Truncate\<close> counts from the zero time.\<close>

definition day_ns :: int where
  "day_ns = 86400000000000"

definition Truncate_day :: "gotime \<Rightarrow> gotime" where
  "Truncate_day t = t - (t - zero_time) mod day_ns"

definition ExpectedExpiryTime :: "gotime \<Rightarrow> int \<Rightarrow> gotime" where
  "ExpectedExpiryTime modTime days = Truncate_day (modTime + to_int64 (to_int64 (days + 1) * day_ns))"

text \<open>One turn of the loop of \<open>ComputeAction\<close>: an action to return, or the action so far.\<close>

definition compute_rule :: "gotime \<Rightarrow> ObjectOpts \<Rightarrow> Rule \<Rightarrow> Action \<Rightarrow> Action + Action" where
  "compute_rule now obj rule action =
     (let nve = ru_NoncurrentVersionExpiration rule; nvt = ru_NoncurrentVersionTransition rule;
          ex = ru_Expiration rule; tr = ru_Transition rule
      in
      if ExpiredObjectDeleteMarker obj \<and> ed_val (ex_DeleteMarker ex) then Inl DeleteVersionAction
      else if \<not> NVE_IsDaysNull nve \<and>
        (oo_VersionID obj \<noteq> [] \<and> \<not> oo_IsLatest obj \<and> oo_SuccessorModTime obj \<noteq> zero_time \<and>
           now > ExpectedExpiryTime (oo_SuccessorModTime obj) (nve_NoncurrentDays nve) \<or>
         oo_VersionID obj \<noteq> [] \<and> ExpiredObjectDeleteMarker obj \<and>
           now > ExpectedExpiryTime (oo_ModTime obj) (nve_NoncurrentDays nve))
      then Inl DeleteVersionAction
      else if \<not> NVT_IsDaysNull nvt \<and>
        oo_VersionID obj \<noteq> [] \<and> \<not> oo_IsLatest obj \<and> oo_SuccessorModTime obj \<noteq> zero_time \<and> \<not> oo_DeleteMarker obj \<and>
        oo_TransitionStatus obj \<noteq> TransitionComplete \<and>
        now > ExpectedExpiryTime (oo_SuccessorModTime obj) (nvt_NoncurrentDays nvt)
      then Inl TransitionVersionAction
      else if oo_VersionID obj = [] \<or> oo_IsLatest obj \<and> \<not> oo_DeleteMarker obj then
        (if (if \<not> Expiration_IsDateNull ex then now > ex_Date ex
             else if \<not> Expiration_IsDaysNull ex then now > ExpectedExpiryTime (oo_ModTime obj) (ex_Days ex)
             else False)
         then Inl DeleteAction
         else
           (let action =
              (if oo_TransitionStatus obj \<noteq> TransitionComplete \<and>
                  (if \<not> Transition_IsDateNull tr then now > tr_Date tr
                   else if \<not> Transition_IsDaysNull tr then now > ExpectedExpiryTime (oo_ModTime obj) (tr_Days tr)
                   else False)
               then TransitionAction else action);
                action =
              (if oo_RestoreExpires obj \<noteq> zero_time \<and> now > oo_RestoreExpires obj
               then (if oo_VersionID obj \<noteq> [] then DeleteRestoredVersionAction else DeleteRestoredAction)
               else action)
            in Inr action))
      else Inr action)"

fun compute_loop :: "gotime \<Rightarrow> ObjectOpts \<Rightarrow> Rule list \<Rightarrow> Action \<Rightarrow> Action" where
  "compute_loop now obj [] action = action"
| "compute_loop now obj (rule # rules) action =
     (case compute_rule now obj rule action of Inl a \<Rightarrow> a | Inr a \<Rightarrow> compute_loop now obj rules a)"

definition ComputeAction :: "gotime \<Rightarrow> Lifecycle \<Rightarrow> ObjectOpts \<Rightarrow> Action" where
  "ComputeAction now lc obj =
     (if oo_ModTime obj = zero_time then NoneAction
      else compute_loop now obj (FilterActionableRules lc obj) NoneAction)"

text \<open>The earliest expiration with the identifier of its rule.\<close>

fun predict_loop :: "ObjectOpts \<Rightarrow> Rule list \<Rightarrow> string \<times> gotime \<Rightarrow> string \<times> gotime" where
  "predict_loop obj [] final = final"
| "predict_loop obj (rule # rules) final =
     (let nve = ru_NoncurrentVersionExpiration rule; ex = ru_Expiration rule in
      if \<not> NVE_IsDaysNull nve \<and> \<not> oo_IsLatest obj \<and> oo_VersionID obj \<noteq> []
      then (ru_ID rule, ExpectedExpiryTime (oo_SuccessorModTime obj) (nve_NoncurrentDays nve))
      else
        (let final = (if \<not> Expiration_IsDateNull ex \<and> (snd final = zero_time \<or> snd final > ex_Date ex)
                      then (ru_ID rule, ex_Date ex) else final);
             expectedExpiry = ExpectedExpiryTime (oo_ModTime obj) (ex_Days ex);
             final = (if \<not> Expiration_IsDaysNull ex \<and> (snd final = zero_time \<or> snd final > expectedExpiry)
                      then (ru_ID rule, expectedExpiry) else final)
         in predict_loop obj rules final))"

definition PredictExpiryTime :: "Lifecycle \<Rightarrow> ObjectOpts \<Rightarrow> string \<times> gotime" where
  "PredictExpiryTime lc obj =
     (if oo_DeleteMarker obj then ([], zero_time)
      else predict_loop obj (FilterActionableRules lc obj) ([], zero_time))"

subsection \<open>Active rules\<close>

definition active_rule :: "gotime \<Rightarrow> string \<Rightarrow> bool \<Rightarrow> Rule \<Rightarrow> bool" where
  "active_rule now prefix recursive rule =
     (let ex = ru_Expiration rule; tr = ru_Transition rule in
      if ru_Status rule = Disabled then False
      else if length prefix > 0 \<and> length (GetPrefix rule) > 0 \<and> \<not> recursive \<and> \<not> HasPrefix prefix (GetPrefix rule) then False
      else if length prefix > 0 \<and> length (GetPrefix rule) > 0 \<and> recursive \<and>
        \<not> HasPrefix prefix (GetPrefix rule) \<and> \<not> HasPrefix (GetPrefix rule) prefix then False
      else if nve_NoncurrentDays (ru_NoncurrentVersionExpiration rule) > 0 then True
      else if nvt_NoncurrentDays (ru_NoncurrentVersionTransition rule) > 0 then True
      else if Expiration_IsNull ex \<and> Transition_IsNull tr then False
      else if \<not> Expiration_IsDateNull ex \<and> ex_Date ex < now then True
      else if \<not> Transition_IsDateNull tr \<and> tr_Date tr < now then True
      else \<not> Expiration_IsDaysNull ex \<or> \<not> Transition_IsDaysNull tr)"

fun has_active :: "(Rule \<Rightarrow> bool) \<Rightarrow> Rule list \<Rightarrow> bool" where
  "has_active P [] = False"
| "has_active P (r # rs) = (if P r then True else has_active P rs)"

definition HasActiveRules :: "gotime \<Rightarrow> Lifecycle \<Rightarrow> string \<Rightarrow> bool \<Rightarrow> bool" where
  "HasActiveRules now lc prefix recursive = has_active (active_rule now prefix recursive) (lc_Rules lc)"

end
