(* ===== verification/Object_Lock.thy ===== *)
theory Object_Lock
  imports Go_Time Lifecycle
begin

text \<open>
  Object locking: retention and legal holds of \<^verbatim>\<open>pkg/bucket/object/lock/lock.go\<close>, the checks of
  \<^verbatim>\<open>cmd/bucket-object-lock.go\<close> on deletes and writes, and the permission check for retention of
  \<^verbatim>\<open>cmd/auth-handler.go\<close>. XML bodies are the values after decoding. What a request brings along is the
  record \<open>lock_request_env\<close>: its headers, the outcome of reading the time, and the decisions of the
  policies.
\<close>

subsection \<open>Modes and holds\<close>

text \<open>
  \<open>strings.ToUpper\<close>, for comparison with ASCII text: the letters whose upper case is an ASCII letter are
  the ASCII letters, the dotless i and the long s.
\<close>

definition upper_rune :: "rune \<Rightarrow> rune" where
  "upper_rune c =
     (if 97 \<le> c \<and> c \<le> 122 then c - 32 else if c = 305 then 73 else if c = 383 then 83 else c)"

definition upper_is :: "string \<Rightarrow> string \<Rightarrow> bool" where
  "upper_is s t \<longleftrightarrow> map upper_rune (runes s) = runes t"

definition RetGovernance :: string where
  "RetGovernance = ''GOVERNANCE''"

definition RetCompliance :: string where
  "RetCompliance = ''COMPLIANCE''"

definition RetMode_Valid :: "string \<Rightarrow> bool" where
  "RetMode_Valid r \<longleftrightarrow> r = RetGovernance \<or> r = RetCompliance"

definition parseRetMode :: "string \<Rightarrow> string" where
  "parseRetMode modeStr =
     (if upper_is modeStr ''GOVERNANCE'' then RetGovernance
      else if upper_is modeStr ''COMPLIANCE'' then RetCompliance
      else [])"

definition LegalHoldOn :: string where
  "LegalHoldOn = ''ON''"

definition LegalHoldOff :: string where
  "LegalHoldOff = ''OFF''"

definition LegalHold_Valid :: "string \<Rightarrow> bool" where
  "LegalHold_Valid l \<longleftrightarrow> l = LegalHoldOn \<or> l = LegalHoldOff"

definition parseLegalHoldStatus :: "string \<Rightarrow> string" where
  "parseLegalHoldStatus holdStr =
     (if upper_is holdStr ''ON'' then LegalHoldOn else if upper_is holdStr ''OFF'' then LegalHoldOff else [])"

definition AmzObjectLockBypassRetGovernance :: string where
  "AmzObjectLockBypassRetGovernance = ''X-Amz-Bypass-Governance-Retention''"

definition AmzObjectLockRetainUntilDate :: string where
  "AmzObjectLockRetainUntilDate = ''X-Amz-Object-Lock-Retain-Until-Date''"

definition AmzObjectLockMode :: string where
  "AmzObjectLockMode = ''X-Amz-Object-Lock-Mode''"

definition AmzObjectLockLegalHold :: string where
  "AmzObjectLockLegalHold = ''X-Amz-Object-Lock-Legal-Hold''"

subsection \<open>Bucket configuration\<close>

record Retention =
  rc_Mode :: string
  rc_Validity :: int
  rc_LockEnabled :: bool

record DefaultRetention =
  df_Mode :: string
  df_Days :: "int option"
  df_Years :: "int option"

record lock_Config =
  cf_ObjectLockEnabled :: string
  cf_Rule :: "DefaultRetention option"

definition maximumRetentionDays :: int where
  "maximumRetentionDays = 36500"

definition maximumRetentionYears :: int where
  "maximumRetentionYears = 100"

text \<open>The checks on a default retention after it has been decoded; the numbers are unsigned. Each message is one error.\<close>

definition DefaultRetention_check :: "DefaultRetention \<Rightarrow> goerr option" where
  "DefaultRetention_check retention =
     (if df_Mode retention \<noteq> RetGovernance \<and> df_Mode retention \<noteq> RetCompliance then Some (ErrorsNew ''unknown retention mode'')
      else if df_Days retention = None \<and> df_Years retention = None then Some (ErrorsNew ''either Days or Years must be specified'')
      else if df_Days retention \<noteq> None \<and> df_Years retention \<noteq> None
      then Some (ErrorsNew ''either Days or Years must be specified, not both'')
      else
        (case df_Days retention of
           Some d \<Rightarrow>
             if d = 0 then Some (ErrorsNew ''default retention period must be a positive integer value for Days'')
             else if d > maximumRetentionDays then Some (ErrorsNew ''default retention period too large for Days'')
             else None
         | None \<Rightarrow>
             (case df_Years retention of
                Some y \<Rightarrow>
                  if y = 0 then Some (ErrorsNew ''default retention period must be a positive integer value for Years'')
                  else if y > maximumRetentionYears then Some (ErrorsNew ''default retention period too large for Years'')
                  else None
              | None \<Rightarrow> None)))"

definition lock_Config_check :: "lock_Config \<Rightarrow> goerr option" where
  "lock_Config_check config =
     (if cf_ObjectLockEnabled config \<noteq> ''Enabled''
      then Some (ErrorsNew ''only Enabled value is allowed to ObjectLockEnabled element'')
      else case cf_Rule config of None \<Rightarrow> None | Some dr \<Rightarrow> DefaultRetention_check dr)"

text \<open>\<open>AddDate\<close> for years and days: the date with another year, where a leap day that is missing becomes the first of March.\<close>

definition AddDate :: "gotime \<Rightarrow> int \<Rightarrow> int \<Rightarrow> gotime" where
  "AddDate t years days =
     (let day = 86400 * second_ns; (y, m, d) = date_of_days (t div day) in
      (days_of_date (y + years) m d + days) * day + t mod day)"

text \<open>A configuration without days and years panics; \<open>now\<close> is the outcome of reading the time.\<close>

definition ToRetention :: "goerr + gotime \<Rightarrow> lock_Config \<Rightarrow> Retention option" where
  "ToRetention now config =
     (let r = \<lparr>rc_Mode = [], rc_Validity = 0, rc_LockEnabled = (cf_ObjectLockEnabled config = ''Enabled'')\<rparr> in
      case cf_Rule config of
        None \<Rightarrow> Some r
      | Some rule \<Rightarrow>
          (let r = r\<lparr>rc_Mode := df_Mode rule\<rparr> in
           case now of
             Inl err \<Rightarrow> Some r
           | Inr t \<Rightarrow>
               (case df_Days rule of
                  Some d \<Rightarrow> Some (r\<lparr>rc_Validity := AddDate t 0 d - t\<rparr>)
                | None \<Rightarrow>
                    (case df_Years rule of
                       Some y \<Rightarrow> Some (r\<lparr>rc_Validity := AddDate t y 0 - t\<rparr>)
                     | None \<Rightarrow> None))))"

definition Retain :: "goerr + gotime \<Rightarrow> Retention \<Rightarrow> gotime \<Rightarrow> bool" where
  "Retain now r created = (case now of Inl err \<Rightarrow> True | Inr t \<Rightarrow> created + rc_Validity r > t)"

subsection \<open>Retention of an object\<close>

record ObjectRetention =
  rt_Mode :: string
  rt_RetainUntilDate :: gotime

definition ErrUnknownWORMModeDirective :: goerr where
  "ErrUnknownWORMModeDirective = ErrorsNew ''unknown WORM mode directive''"

definition ErrMalformedXML :: goerr where
  "ErrMalformedXML = ErrorsNew ''the XML you provided was not well-formed or did not validate against our published schema''"

definition ErrPastObjectLockRetainDate :: goerr where
  "ErrPastObjectLockRetainDate = ErrorsNew ''the retain until date must be in the future''"

definition ParseObjectRetention :: "goerr + gotime \<Rightarrow> ObjectRetention \<Rightarrow> goerr + ObjectRetention" where
  "ParseObjectRetention now ret =
     (if rt_Mode ret \<noteq> [] \<and> \<not> RetMode_Valid (rt_Mode ret) then Inl ErrUnknownWORMModeDirective
      else if RetMode_Valid (rt_Mode ret) \<and> rt_RetainUntilDate ret = zero_time then Inl ErrMalformedXML
      else if \<not> RetMode_Valid (rt_Mode ret) \<and> rt_RetainUntilDate ret \<noteq> zero_time then Inl ErrMalformedXML
      else
        (case now of
           Inl err \<Rightarrow> Inl ErrPastObjectLockRetainDate
         | Inr t \<Rightarrow>
             if rt_RetainUntilDate ret \<noteq> zero_time \<and> rt_RetainUntilDate ret < t then Inl ErrPastObjectLockRetainDate
             else Inr ret))"

type_synonym header = "string \<rightharpoonup> string list"

definition Header_Get :: "header \<Rightarrow> string \<Rightarrow> string" where
  "Header_Get h k = (case h k of Some (v # vs) \<Rightarrow> v | _ \<Rightarrow> [])"

definition IsObjectLockRetentionRequested :: "header \<Rightarrow> bool" where
  "IsObjectLockRetentionRequested h \<longleftrightarrow> h AmzObjectLockMode \<noteq> None \<or> h AmzObjectLockRetainUntilDate \<noteq> None"

definition IsObjectLockLegalHoldRequested :: "header \<Rightarrow> bool" where
  "IsObjectLockLegalHoldRequested h \<longleftrightarrow> h AmzObjectLockLegalHold \<noteq> None"

definition IsObjectLockGovernanceBypassSet :: "header \<Rightarrow> bool" where
  "IsObjectLockGovernanceBypassSet h \<longleftrightarrow> ToLower (Header_Get h AmzObjectLockBypassRetGovernance) = ''true''"

definition IsObjectLockRequested :: "header \<Rightarrow> bool" where
  "IsObjectLockRequested h \<longleftrightarrow> IsObjectLockLegalHoldRequested h \<or> IsObjectLockRetentionRequested h"

definition ParseObjectLockRetentionHeaders ::
    "(string \<Rightarrow> gotime option) \<Rightarrow> goerr + gotime \<Rightarrow> header \<Rightarrow> goerr + ObjectRetention" where
  "ParseObjectLockRetentionHeaders lenient now h =
     (let retMode = Header_Get h AmzObjectLockMode; dateStr = Header_Get h AmzObjectLockRetainUntilDate; rmode = parseRetMode retMode in
      if retMode = [] \<or> dateStr = []
      then Inl (ErrorsNew ''x-amz-object-lock-retain-until-date and x-amz-object-lock-mode must both be supplied'')
      else if \<not> RetMode_Valid rmode then Inl ErrUnknownWORMModeDirective
      else
        (case parse_rfc3339 lenient dateStr of
           None \<Rightarrow> Inl (ErrorsNew ''date must be provided in ISO 8601 format'')
         | Some retDate \<Rightarrow>
             (case now of
                Inl err \<Rightarrow> Inl ErrPastObjectLockRetainDate
              | Inr t \<Rightarrow>
                  if retDate < t then Inl ErrPastObjectLockRetainDate
                  else Inr \<lparr>rt_Mode = rmode, rt_RetainUntilDate = retDate\<rparr>)))"

text \<open>The status of the legal hold header; a header without values panics.\<close>

definition ParseObjectLockLegalHoldHeaders :: "header \<Rightarrow> (goerr + string) option" where
  "ParseObjectLockLegalHoldHeaders h =
     (case h AmzObjectLockLegalHold of
        None \<Rightarrow> Some (Inr [])
      | Some [] \<Rightarrow> None
      | Some (v # vs) \<Rightarrow>
          (let lh = parseLegalHoldStatus v in
           if \<not> LegalHold_Valid lh then Some (Inl ErrUnknownWORMModeDirective) else Some (Inr lh)))"

definition ParseObjectLegalHold :: "string \<Rightarrow> goerr + string" where
  "ParseObjectLegalHold status = (if \<not> LegalHold_Valid status then Inl ErrMalformedXML else Inr status)"

subsection \<open>Lock metadata\<close>

text \<open>A key in lower case, and as it stands in a header otherwise.\<close>

definition lock_meta :: "(string \<rightharpoonup> string) \<Rightarrow> string \<Rightarrow> string option" where
  "lock_meta meta k = (case meta (ToLower k) of Some v \<Rightarrow> Some v | None \<Rightarrow> meta k)"

definition GetObjectRetentionMeta :: "(string \<Rightarrow> gotime option) \<Rightarrow> (string \<rightharpoonup> string) \<Rightarrow> ObjectRetention" where
  "GetObjectRetentionMeta lenient meta =
     (case lock_meta meta AmzObjectLockMode of
        None \<Rightarrow> \<lparr>rt_Mode = [], rt_RetainUntilDate = zero_time\<rparr>
      | Some modeStr \<Rightarrow>
          \<lparr>rt_Mode = parseRetMode modeStr,
           rt_RetainUntilDate =
             (case lock_meta meta AmzObjectLockRetainUntilDate of
                None \<Rightarrow> zero_time
              | Some tillStr \<Rightarrow> (case parse_rfc3339 lenient tillStr of None \<Rightarrow> zero_time | Some t \<Rightarrow> t))\<rparr>)"

definition GetObjectLegalHoldMeta :: "(string \<rightharpoonup> string) \<Rightarrow> string" where
  "GetObjectLegalHoldMeta meta =
     (case lock_meta meta AmzObjectLockLegalHold of None \<Rightarrow> [] | Some holdStr \<Rightarrow> parseLegalHoldStatus holdStr)"

definition FilterObjectLockMetadata ::
    "(string \<Rightarrow> gotime option) \<Rightarrow> (string \<rightharpoonup> string) \<Rightarrow> bool \<Rightarrow> bool \<Rightarrow> (string \<rightharpoonup> string)" where
  "FilterObjectLockMetadata lenient metadata filterRetention filterLegalHold =
     (let dst = (if \<not> LegalHold_Valid (GetObjectLegalHoldMeta metadata) \<or> filterLegalHold
                 then metadata(AmzObjectLockLegalHold := None) else metadata)
      in if \<not> RetMode_Valid (rt_Mode (GetObjectRetentionMeta lenient metadata)) \<or> filterRetention
         then dst(AmzObjectLockMode := None, AmzObjectLockRetainUntilDate := None)
         else dst)"

subsection \<open>Checks on deletes and writes\<close>

text \<open>The errors of the object layer that the code tells apart, and the codes of the API.\<close>

datatype object_err = MethodNotAllowed | ObjectNotFound | VersionNotFound | OtherErr goerr

datatype APIErrorCode =
  ErrNone | ErrObjectLocked | ErrAccessDenied | ErrMethodNotAllowed | ErrNoSuchKey | ErrNoSuchVersion
| ErrInvalidBucketObjectLockConfiguration | ErrMalformedBody | ErrOf goerr

definition toAPIErrorCode :: "object_err option \<Rightarrow> APIErrorCode" where
  "toAPIErrorCode err =
     (case err of
        None \<Rightarrow> ErrNone
      | Some MethodNotAllowed \<Rightarrow> ErrMethodNotAllowed
      | Some ObjectNotFound \<Rightarrow> ErrNoSuchKey
      | Some VersionNotFound \<Rightarrow> ErrNoSuchVersion
      | Some (OtherErr e) \<Rightarrow> ErrOf e)"

record ObjectInfo =
  oi_Bucket :: string
  oi_Name :: string
  oi_ModTime :: gotime
  oi_VersionID :: string
  oi_IsLatest :: bool
  oi_DeleteMarker :: bool
  oi_TransitionStatus :: string
  oi_RestoreExpires :: gotime
  oi_RestoreOngoing :: bool
  oi_UserDefined :: "string \<rightharpoonup> string"
  oi_UserTags :: string
  oi_NumVersions :: int
  oi_SuccessorModTime :: gotime

definition empty_ObjectInfo :: ObjectInfo where
  "empty_ObjectInfo = \<lparr>oi_Bucket = [], oi_Name = [], oi_ModTime = zero_time, oi_VersionID = [], oi_IsLatest = False, oi_DeleteMarker = False,
     oi_TransitionStatus = [], oi_RestoreExpires = zero_time, oi_RestoreOngoing = False, oi_UserDefined = Map.empty, oi_UserTags = [],
     oi_NumVersions = 0, oi_SuccessorModTime = zero_time\<rparr>"

datatype lock_action =
  BypassGovernanceRetentionAction | GetBucketObjectLockConfigurationAction | PutObjectRetentionAction
| PutObjectLegalHoldAction | ReplicateDeleteAction | DeleteObjectAction

text \<open>
  What a request brings along: its headers; the version it names, or the error of \<open>getOpts\<close>; the outcome
  of reading the time; the answers of \<open>checkRequestAuthType\<close> and of the policies under the conditions of
  the request; and the parser of times in a lenient form.
\<close>

record lock_request_env =
  lq_Header :: header
  lq_Opts :: "object_err + string"
  lq_Now :: "goerr + gotime"
  lq_Auth :: "lock_action \<Rightarrow> APIErrorCode"
  lq_Allowed :: "lock_action \<Rightarrow> bool"
  lq_Lenient :: "string \<Rightarrow> gotime option"

definition enforceRetentionForDeletion :: "(string \<Rightarrow> gotime option) \<Rightarrow> goerr + gotime \<Rightarrow> ObjectInfo \<Rightarrow> bool" where
  "enforceRetentionForDeletion lenient now objInfo =
     (let lhold = GetObjectLegalHoldMeta (oi_UserDefined objInfo);
          ret = GetObjectRetentionMeta lenient (oi_UserDefined objInfo)
      in
      if LegalHold_Valid lhold \<and> lhold = LegalHoldOn then True
      else if RetMode_Valid (rt_Mode ret) \<and> (rt_Mode ret = RetCompliance \<or> rt_Mode ret = RetGovernance)
      then (case now of Inl err \<Rightarrow> True | Inr t \<Rightarrow> rt_RetainUntilDate ret > t)
      else False)"

definition enforceRetentionBypassForDelete ::
    "lock_request_env \<Rightarrow> ObjectInfo \<Rightarrow> object_err option \<Rightarrow> APIErrorCode" where
  "enforceRetentionBypassForDelete r oi gerr =
     (case lq_Opts r of
        Inl err \<Rightarrow> toAPIErrorCode (Some err)
      | Inr _ \<Rightarrow>
          (case gerr of
             Some err \<Rightarrow>
               if err = MethodNotAllowed \<and> oi_DeleteMarker oi then ErrNone
               else if err = ObjectNotFound \<or> err = VersionNotFound then ErrNone
               else toAPIErrorCode gerr
           | None \<Rightarrow>
               (let lhold = GetObjectLegalHoldMeta (oi_UserDefined oi);
                    ret = GetObjectRetentionMeta (lq_Lenient r) (oi_UserDefined oi);
                    until_past = (case lq_Now r of
                        Inl err \<Rightarrow> ErrObjectLocked
                      | Inr t \<Rightarrow> if \<not> rt_RetainUntilDate ret < t then ErrObjectLocked else ErrNone)
                in
                if LegalHold_Valid lhold \<and> lhold = LegalHoldOn then ErrObjectLocked
                else if RetMode_Valid (rt_Mode ret) then
                  (if rt_Mode ret = RetCompliance then until_past
                   else if rt_Mode ret = RetGovernance then
                     (if \<not> IsObjectLockGovernanceBypassSet (lq_Header r) then until_past
                      else if lq_Auth r BypassGovernanceRetentionAction \<noteq> ErrNone \<or>
                        lq_Auth r GetBucketObjectLockConfigurationAction \<noteq> ErrNone then ErrAccessDenied
                      else ErrNone)
                   else ErrNone)
                else ErrNone)))"

text \<open>The check is the same for anonymous requests and for those of a user.\<close>

definition isPutRetentionAllowed :: "lock_request_env \<Rightarrow> string \<Rightarrow> bool \<Rightarrow> APIErrorCode" where
  "isPutRetentionAllowed r retMode byPassSet =
     (let byPassSet = (if retMode = RetGovernance \<and> byPassSet then lq_Allowed r BypassGovernanceRetentionAction else byPassSet);
          retSet = lq_Allowed r PutObjectRetentionAction
      in if byPassSet \<or> retSet then ErrNone else ErrAccessDenied)"

definition enforceRetentionBypassForPut ::
    "lock_request_env \<Rightarrow> ObjectInfo \<times> object_err option \<Rightarrow> ObjectRetention \<Rightarrow> ObjectInfo \<times> APIErrorCode" where
  "enforceRetentionBypassForPut r getObjectInfo objRetention =
     (let byPassSet = IsObjectLockGovernanceBypassSet (lq_Header r) in
      case lq_Opts r of
        Inl err \<Rightarrow> (empty_ObjectInfo, toAPIErrorCode (Some err))
      | Inr _ \<Rightarrow>
          (case getObjectInfo of
             (oi, Some err) \<Rightarrow> (oi, toAPIErrorCode (Some err))
           | (oi, None) \<Rightarrow>
               (case lq_Now r of
                  Inl err \<Rightarrow> (oi, ErrObjectLocked)
                | Inr t \<Rightarrow>
                    (let ret = GetObjectRetentionMeta (lq_Lenient r) (oi_UserDefined oi) in
                     if RetMode_Valid (rt_Mode ret) then
                       (if rt_RetainUntilDate ret < t then (oi, isPutRetentionAllowed r (rt_Mode objRetention) byPassSet)
                        else if rt_Mode ret = RetGovernance then
                          (if \<not> byPassSet \<and>
                              (rt_Mode objRetention \<noteq> RetGovernance \<or> rt_RetainUntilDate objRetention < rt_RetainUntilDate ret)
                           then (oi, ErrObjectLocked)
                           else (oi, isPutRetentionAllowed r (rt_Mode objRetention) byPassSet))
                        else if rt_Mode ret = RetCompliance then
                          (if rt_Mode objRetention \<noteq> RetCompliance \<or> rt_RetainUntilDate objRetention < rt_RetainUntilDate ret
                           then (oi, ErrObjectLocked)
                           else (oi, isPutRetentionAllowed r (rt_Mode objRetention) False))
                        else (oi, ErrNone))
                     else (oi, isPutRetentionAllowed r (rt_Mode objRetention) byPassSet)))))"

text \<open>
  The retention and the legal hold of a new object, or the error of the check; \<open>None\<close> is the panic of an
  empty header. The bucket configuration and the object that an explicit version names are outcomes of
  lookups.
\<close>

definition checkPutObjectLockAllowed ::
    "lock_request_env \<Rightarrow> goerr + Retention \<Rightarrow> ObjectInfo \<times> object_err option \<Rightarrow> APIErrorCode \<Rightarrow> APIErrorCode \<Rightarrow>
     (ObjectRetention \<times> string \<times> APIErrorCode) option" where
  "checkPutObjectLockAllowed r retentionCfg getObjectInfo retentionPermErr legalHoldPermErr =
     (let none = \<lparr>rt_Mode = [], rt_RetainUntilDate = zero_time\<rparr>;
          h = lq_Header r;
          retentionRequested = IsObjectLockRetentionRequested h;
          legalHoldRequested = IsObjectLockLegalHoldRequested h
      in
      case retentionCfg of
        Inl err \<Rightarrow> Some (none, [], ErrInvalidBucketObjectLockConfiguration)
      | Inr cfg \<Rightarrow>
          if \<not> rc_LockEnabled cfg then
            (if legalHoldRequested \<or> retentionRequested then Some (none, [], ErrInvalidBucketObjectLockConfiguration)
             else Some (none, [], ErrNone))
          else
            (case lq_Opts r of
               Inl err \<Rightarrow> Some (none, [], toAPIErrorCode (Some err))
             | Inr versionID \<Rightarrow>
                 (let replica = Header_Get h AmzBucketReplicationStatus = ''REPLICA'';
                      old = GetObjectRetentionMeta (lq_Lenient r) (oi_UserDefined (fst getObjectInfo));
                      oldHold = GetObjectLegalHoldMeta (oi_UserDefined (fst getObjectInfo));
                      exists = versionID \<noteq> [] \<and> \<not> replica \<and> snd getObjectInfo = None;
                      ret = (if exists then old else none);
                      legalHold = (if exists then oldHold else [])
                  in
                  if exists \<and> (case lq_Now r of Inl err \<Rightarrow> True | Inr t \<Rightarrow> rt_Mode old = RetCompliance \<and> rt_RetainUntilDate old > t)
                  then Some (none, [], ErrObjectLocked)
                  else if exists \<and> oldHold = LegalHoldOn then Some (old, oldHold, ErrObjectLocked)
                  else do {
                    hold \<leftarrow> ParseObjectLockLegalHoldHeaders h;
                    if legalHoldRequested \<and> isl hold then Some (ret, [], toAPIErrorCode None)
                    else
                      (let legalHold = (if legalHoldRequested then (case hold of Inr l \<Rightarrow> l | Inl e \<Rightarrow> []) else legalHold) in
                       if retentionRequested then
                         (case hold of
                            Inl e \<Rightarrow> Some (ret, [], ErrOf e)
                          | Inr hold' \<Rightarrow>
                              (case ParseObjectLockRetentionHeaders (lq_Lenient r) (lq_Now r) h of
                                 Inl e \<Rightarrow> Some (ret, hold', ErrOf e)
                               | Inr rd \<Rightarrow>
                                   if retentionPermErr \<noteq> ErrNone then Some (ret, hold', retentionPermErr)
                                   else Some (rd, hold', ErrNone)))
                       else if replica then Some (none, legalHold, ErrNone)
                       else if rc_Validity cfg > 0 then
                         (if retentionPermErr \<noteq> ErrNone then Some (ret, legalHold, retentionPermErr)
                          else
                            (case lq_Now r of
                               Inl err \<Rightarrow> Some (ret, legalHold, ErrObjectLocked)
                             | Inr t \<Rightarrow>
                                 if \<not> legalHoldRequested \<and> rc_LockEnabled cfg
                                 then Some (\<lparr>rt_Mode = rc_Mode cfg, rt_RetainUntilDate = t + rc_Validity cfg\<rparr>, legalHold, ErrNone)
                                 else Some (none, legalHold, ErrNone)))
                       else Some (ret, legalHold, ErrNone))
                  })))"

end
