(* ===== verification/Lifecycle_Eval.thy ===== *)
theory Lifecycle_Eval
  imports Lifecycle
begin

text \<open>
  What the lifecycle rules of a bucket do: the action of a configuration read off its rules without the
  loop, the agreement of the predicted expiry with the action, which prefixes may be skipped, and the
  midnight at which a number of days ends.
\<close>

subsection \<open>The rules that apply\<close>

text \<open>Rules that the code takes without a look at their tags.\<close>

definition ignores_tags :: "Rule \<Rightarrow> bool" where
  "ignores_tags r \<longleftrightarrow> ed_val (ex_DeleteMarker (ru_Expiration r)) \<or> \<not> NVE_IsDaysNull (ru_NoncurrentVersionExpiration r) \<or>
     \<not> NVT_IsDaysNull (ru_NoncurrentVersionTransition r) \<or> \<not> Transition_IsNull (ru_Transition r)"

definition applies :: "ObjectOpts \<Rightarrow> Rule \<Rightarrow> bool" where
  "applies obj r \<longleftrightarrow> oo_Name obj \<noteq> [] \<and> ru_Status r \<noteq> Disabled \<and> HasPrefix (oo_Name obj) (GetPrefix r) \<and>
     (ignores_tags r \<or> TestTags (ru_Filter r) (split_on (CHR ''&'') (oo_UserTags obj)))"

lemma set_actionable: "oo_Name obj \<noteq> [] \<Longrightarrow> set (actionable obj r) = (if applies obj r then {r} else {})"
  by (auto simp: actionable_def applies_def ignores_tags_def)

lemma set_FilterActionableRules: "set (FilterActionableRules lc obj) = {r \<in> set (lc_Rules lc). applies obj r}"
proof (cases "oo_Name obj = []")
  case False
  then show ?thesis by (auto simp: FilterActionableRules_def set_actionable split: if_splits)
qed (simp add: FilterActionableRules_def applies_def)

subsection \<open>The action\<close>

definition current :: "ObjectOpts \<Rightarrow> bool" where
  "current obj \<longleftrightarrow> oo_VersionID obj = [] \<or> oo_IsLatest obj \<and> \<not> oo_DeleteMarker obj"

definition noncurrent :: "ObjectOpts \<Rightarrow> bool" where
  "noncurrent obj \<longleftrightarrow> oo_VersionID obj \<noteq> [] \<and> \<not> oo_IsLatest obj \<and> oo_SuccessorModTime obj \<noteq> zero_time"

text \<open>The time at which a rule expires a current version.\<close>

definition expiry_of :: "ObjectOpts \<Rightarrow> Rule \<Rightarrow> gotime option" where
  "expiry_of obj r =
     (if ex_Date (ru_Expiration r) \<noteq> zero_time then Some (ex_Date (ru_Expiration r))
      else if ex_Days (ru_Expiration r) \<noteq> 0 then Some (ExpectedExpiryTime (oo_ModTime obj) (ex_Days (ru_Expiration r)))
      else None)"

definition transition_of :: "ObjectOpts \<Rightarrow> Rule \<Rightarrow> gotime option" where
  "transition_of obj r =
     (if oo_TransitionStatus obj = TransitionComplete then None
      else if tr_Date (ru_Transition r) \<noteq> zero_time then Some (tr_Date (ru_Transition r))
      else if tr_Days (ru_Transition r) \<noteq> 0 then Some (ExpectedExpiryTime (oo_ModTime obj) (tr_Days (ru_Transition r)))
      else None)"

definition past :: "gotime \<Rightarrow> gotime option \<Rightarrow> bool" where
  "past now t \<longleftrightarrow> (case t of None \<Rightarrow> False | Some t \<Rightarrow> now > t)"

text \<open>A version goes when it is an expired delete marker or has been noncurrent long enough.\<close>

definition version_expires :: "gotime \<Rightarrow> ObjectOpts \<Rightarrow> Rule \<Rightarrow> bool" where
  "version_expires now obj r \<longleftrightarrow>
     (ExpiredObjectDeleteMarker obj \<and> ed_val (ex_DeleteMarker (ru_Expiration r))) \<or>
     (let d = nve_NoncurrentDays (ru_NoncurrentVersionExpiration r) in
      d \<noteq> 0 \<and> (noncurrent obj \<and> now > ExpectedExpiryTime (oo_SuccessorModTime obj) d \<or>
               oo_VersionID obj \<noteq> [] \<and> ExpiredObjectDeleteMarker obj \<and> now > ExpectedExpiryTime (oo_ModTime obj) d))"

definition version_moves :: "gotime \<Rightarrow> ObjectOpts \<Rightarrow> Rule \<Rightarrow> bool" where
  "version_moves now obj r \<longleftrightarrow>
     (let d = nvt_NoncurrentDays (ru_NoncurrentVersionTransition r) in
      d \<noteq> 0 \<and> noncurrent obj \<and> \<not> oo_DeleteMarker obj \<and> oo_TransitionStatus obj \<noteq> TransitionComplete \<and>
      now > ExpectedExpiryTime (oo_SuccessorModTime obj) d)"

text \<open>The rules that decide at once, and what they decide.\<close>

definition decides :: "gotime \<Rightarrow> ObjectOpts \<Rightarrow> Rule \<Rightarrow> bool" where
  "decides now obj r \<longleftrightarrow> version_expires now obj r \<or> version_moves now obj r \<or> current obj \<and> past now (expiry_of obj r)"

definition decision :: "gotime \<Rightarrow> ObjectOpts \<Rightarrow> Rule \<Rightarrow> Action" where
  "decision now obj r =
     (if version_expires now obj r then DeleteVersionAction
      else if version_moves now obj r then TransitionVersionAction
      else DeleteAction)"

definition restore_over :: "gotime \<Rightarrow> ObjectOpts \<Rightarrow> bool" where
  "restore_over now obj \<longleftrightarrow> oo_RestoreExpires obj \<noteq> zero_time \<and> now > oo_RestoreExpires obj"

definition restored_action :: "ObjectOpts \<Rightarrow> Action" where
  "restored_action obj = (if oo_VersionID obj \<noteq> [] then DeleteRestoredVersionAction else DeleteRestoredAction)"

lemma compute_rule_cases:
  "compute_rule now obj r a =
     (if decides now obj r then Inl (decision now obj r)
      else if current obj then
        Inr (if restore_over now obj then restored_action obj
             else if past now (transition_of obj r) then TransitionAction else a)
      else Inr a)"
proof -
  have e: "(if \<not> Expiration_IsDateNull (ru_Expiration r) then now > ex_Date (ru_Expiration r)
      else if \<not> Expiration_IsDaysNull (ru_Expiration r) then now > ExpectedExpiryTime (oo_ModTime obj) (ex_Days (ru_Expiration r))
      else False) = past now (expiry_of obj r)"
    by (simp add: Expiration_IsDateNull_def Expiration_IsDaysNull_def expiry_of_def past_def)
  have t: "(oo_TransitionStatus obj \<noteq> TransitionComplete \<and>
      (if \<not> Transition_IsDateNull (ru_Transition r) then now > tr_Date (ru_Transition r)
       else if \<not> Transition_IsDaysNull (ru_Transition r) then now > ExpectedExpiryTime (oo_ModTime obj) (tr_Days (ru_Transition r))
       else False)) = past now (transition_of obj r)"
    by (simp add: Transition_IsDateNull_def Transition_IsDaysNull_def transition_of_def past_def)
  show ?thesis
    unfolding compute_rule_def Let_def e t
    by (auto simp: decides_def decision_def version_expires_def version_moves_def noncurrent_def current_def Let_def
        NVE_IsDaysNull_def NVT_IsDaysNull_def restore_over_def restored_action_def)
qed

lemma compute_loop_decided:
  "\<exists>r \<in> set rs. decides now obj r \<Longrightarrow> \<exists>r \<in> set rs. decides now obj r \<and> compute_loop now obj rs a = decision now obj r"
proof (induction rs arbitrary: a)
  case (Cons r rs)
  then show ?case by (cases "decides now obj r") (auto simp: compute_rule_cases)
qed simp

lemma compute_loop_undecided:
  "\<forall>r \<in> set rs. \<not> decides now obj r \<Longrightarrow>
   compute_loop now obj rs a =
     (if current obj \<and> rs \<noteq> [] \<and> restore_over now obj then restored_action obj
      else if current obj \<and> (\<exists>r \<in> set rs. past now (transition_of obj r)) then TransitionAction
      else a)"
  by (induction rs arbitrary: a) (auto simp: compute_rule_cases)

text \<open>
  (C10) The action that \<open>ComputeAction\<close> returns, without its loop and for every configuration and every
  object version with a modification time. When some rule that applies deletes the version, moves it,
  or expires the current object now, the action is the one of such a rule, so an expiration is never
  lost to a transition or to a restored copy. Otherwise a current object whose restored copy has
  expired loses that copy, else it is moved when the transition of a rule that applies is over, and
  else nothing is done.
\<close>

theorem ComputeAction_exact:
  assumes "oo_ModTime obj \<noteq> zero_time"
  shows "if \<exists>r \<in> set (lc_Rules lc). applies obj r \<and> decides now obj r
    then \<exists>r \<in> set (lc_Rules lc). applies obj r \<and> decides now obj r \<and> ComputeAction now lc obj = decision now obj r
    else ComputeAction now lc obj =
      (if current obj \<and> restore_over now obj \<and> (\<exists>r \<in> set (lc_Rules lc). applies obj r) then restored_action obj
       else if current obj \<and> (\<exists>r \<in> set (lc_Rules lc). applies obj r \<and> past now (transition_of obj r)) then TransitionAction
       else NoneAction)"
proof -
  have R: "set (FilterActionableRules lc obj) = {r \<in> set (lc_Rules lc). applies obj r}"
    by (rule set_FilterActionableRules)
  then have ne: "FilterActionableRules lc obj \<noteq> [] \<longleftrightarrow> (\<exists>r \<in> set (lc_Rules lc). applies obj r)"
    by (metis (no_types, lifting) empty_set mem_Collect_eq set_empty ex_in_conv)
  have C: "ComputeAction now lc obj = compute_loop now obj (FilterActionableRules lc obj) NoneAction"
    using assms by (simp add: ComputeAction_def)
  show ?thesis
  proof (cases "\<exists>r \<in> set (lc_Rules lc). applies obj r \<and> decides now obj r")
    case True
    then have "\<exists>r \<in> set (FilterActionableRules lc obj). decides now obj r" using R by blast
    from compute_loop_decided [OF this, of NoneAction] show ?thesis using True R C by auto
  next
    case False
    then have "\<forall>r \<in> set (FilterActionableRules lc obj). \<not> decides now obj r" using R by blast
    from compute_loop_undecided [OF this, of NoneAction] show ?thesis using False R C ne by (auto split: if_splits)
  qed
qed

subsection \<open>Midnights\<close>

text \<open>\<open>max_days\<close> is the largest number of days whose duration fits 64 bits of nanoseconds.\<close>

definition max_days :: int where
  "max_days = 106750"

lemma Truncate_day_bounds: "Truncate_day t \<le> t \<and> t < Truncate_day t + day_ns"
proof -
  have "(t - zero_time) mod day_ns < day_ns" "0 \<le> (t - zero_time) mod day_ns" by (simp_all add: day_ns_def)
  then show ?thesis by (simp add: Truncate_day_def)
qed

lemma Truncate_day_mod: "Truncate_day t mod day_ns = 0"
proof -
  have "Truncate_day t = zero_time + day_ns * ((t - zero_time) div day_ns)"
    using minus_mod_eq_mult_div [of "t - zero_time" day_ns] by (simp add: Truncate_day_def algebra_simps)
  moreover have "zero_time mod day_ns = 0" by (simp add: zero_time_def day_ns_def)
  ultimately show ?thesis by (metis mod_mult_self2)
qed

lemma days_fit:
  assumes "0 \<le> days" and "days \<le> max_days"
  shows "to_int64 (to_int64 (days + 1) * day_ns) = (days + 1) * day_ns"
proof -
  have "(days + 1) * day_ns \<le> max_int64" "min_int64 \<le> (days + 1) * day_ns" "days + 1 \<le> max_int64" "min_int64 \<le> days + 1"
    using assms by (simp_all add: max_days_def day_ns_def max_int64_def min_int64_def)
  then show ?thesis by (simp add: to_int64_id)
qed

lemma expiry_after_1970: "0 \<le> modTime \<Longrightarrow> ExpectedExpiryTime modTime days \<noteq> zero_time"
proof -
  assume "0 \<le> modTime"
  moreover have "to_int64 x \<ge> - (2 ^ 63)" for x by (simp add: to_int64_def)
  ultimately have "modTime + to_int64 (to_int64 (days + 1) * day_ns) \<ge> - (2 ^ 63)"
    by (smt (verit))
  then show ?thesis
    using Truncate_day_bounds [of "modTime + to_int64 (to_int64 (days + 1) * day_ns)"]
    by (simp add: ExpectedExpiryTime_def zero_time_def day_ns_def)
qed

text \<open>
  (C35) A number of days up to 106750 ends at the midnight that follows as many full days after the
  modification time, never before the days are over and at most one day later. From 106751 days on the
  duration wraps around: an object that should be kept for a century more than the limit expires in the
  past.
\<close>

theorem ExpectedExpiryTime_midnight:
  assumes "0 \<le> days" and "days \<le> max_days"
  shows "ExpectedExpiryTime modTime days mod day_ns = 0
    \<and> modTime + days * day_ns < ExpectedExpiryTime modTime days
    \<and> ExpectedExpiryTime modTime days \<le> modTime + (days + 1) * day_ns
    \<and> ExpectedExpiryTime modTime (max_days + 1) < modTime"
proof -
  have "ExpectedExpiryTime modTime days = Truncate_day (modTime + (days + 1) * day_ns)"
    using days_fit [OF assms] by (simp add: ExpectedExpiryTime_def)
  moreover have "ExpectedExpiryTime modTime (max_days + 1) = Truncate_day (modTime + - 9223371273709551616)"
    by (simp add: ExpectedExpiryTime_def max_days_def day_ns_def to_int64_def)
  ultimately show ?thesis
    using Truncate_day_bounds [of "modTime + (days + 1) * day_ns"] Truncate_day_mod
      Truncate_day_bounds [of "modTime + - 9223371273709551616"]
    by (simp add: algebra_simps)
qed

theorem ExpectedExpiryTime_midnight_witness:
  "ExpectedExpiryTime 1590068570000000000 1 mod day_ns = 0 \<and> ExpectedExpiryTime 1590068570000000000 1 = 1590192000000000000"
  using ExpectedExpiryTime_midnight [of 1 1590068570000000000]
  by (simp add: max_days_def day_ns_def ExpectedExpiryTime_def to_int64_def Truncate_day_def zero_time_def)

subsection \<open>Sample rules\<close>

definition no_prefix :: lc_Prefix where
  "no_prefix = \<lparr>lp_string = [], lp_set = False\<rparr>"

definition tag_filter :: "string \<Rightarrow> string \<Rightarrow> lc_Filter" where
  "tag_filter k v = \<lparr>lf_set = True, lf_Prefix = no_prefix, lf_And = \<lparr>an_Prefix = no_prefix, an_Tags = []\<rparr>, lf_andSet = False,
     lf_Tag = \<lparr>lt_Key = k, lt_Value = v\<rparr>, lf_tagSet = (k \<noteq> []), lf_cachedTags = None\<rparr>"

definition sample_rule :: "int \<Rightarrow> bool \<Rightarrow> int \<Rightarrow> lc_Filter \<Rightarrow> Rule" where
  "sample_rule days marker noncurrentDays f =
     \<lparr>ru_ID = ''r1'', ru_Status = Enabled, ru_Filter = f, ru_Prefix = no_prefix,
      ru_Expiration = \<lparr>ex_Days = days, ex_Date = zero_time, ex_DeleteMarker = \<lparr>ed_val = marker, ed_set = marker\<rparr>, ex_set = True\<rparr>,
      ru_Transition = \<lparr>tr_Days = 0, tr_Date = zero_time, tr_StorageClass = [], tr_set = False\<rparr>,
      ru_NoncurrentVersionExpiration = \<lparr>nve_NoncurrentDays = noncurrentDays, nve_set = (noncurrentDays \<noteq> 0)\<rparr>,
      ru_NoncurrentVersionTransition = \<lparr>nvt_NoncurrentDays = 0, nvt_StorageClass = [], nvt_set = False\<rparr>\<rparr>"

definition sample_lifecycle :: "int \<Rightarrow> bool \<Rightarrow> int \<Rightarrow> lc_Filter \<Rightarrow> Lifecycle" where
  "sample_lifecycle days marker noncurrentDays f = \<lparr>lc_Rules = [sample_rule days marker noncurrentDays f]\<rparr>"

definition sample_object :: "string \<Rightarrow> bool \<Rightarrow> ObjectOpts" where
  "sample_object version marker =
     \<lparr>oo_Name = ''o'', oo_UserTags = [], oo_ModTime = 1590068570000000000, oo_VersionID = version, oo_IsLatest = True,
      oo_DeleteMarker = marker, oo_NumVersions = 1, oo_SuccessorModTime = zero_time, oo_TransitionStatus = [],
      oo_RestoreOngoing = False, oo_RestoreExpires = zero_time\<rparr>"

lemmas sample_defs = sample_rule_def sample_lifecycle_def sample_object_def tag_filter_def no_prefix_def Enabled_def Disabled_def

lemmas null_defs = Expiration_IsDaysNull_def Expiration_IsDateNull_def Expiration_IsNull_def Transition_IsDaysNull_def
  Transition_IsDateNull_def Transition_IsNull_def NVE_IsDaysNull_def NVT_IsDaysNull_def

lemmas validate_defs = Lifecycle_Validate_def Rule_Validate_def validateID_def validateStatus_def Expiration_Validate_def
  NVE_Validate_def validatePrefixAndFilter_def Filter_Validate_def Filter_IsEmpty_def And_isEmpty_def Tag_IsEmpty_def
  Tag_Validate_def Transition_Validate_def NVT_Validate_def

lemma sample_applies: "applies (sample_object version marker) (sample_rule days m 0 (tag_filter [] []))"
  by (simp add: applies_def sample_object_def GetPrefix_def HasPrefix_def TestTags_def Tag_IsEmpty_def sample_rule_def tag_filter_def no_prefix_def
      Enabled_def Disabled_def)

lemma sample_midnight: "ExpectedExpiryTime 1590068570000000000 1 = 1590192000000000000"
  by (simp add: day_ns_def ExpectedExpiryTime_def to_int64_def Truncate_day_def zero_time_def)

lemma sample_expiry: "expiry_of (sample_object version marker) (sample_rule 1 m n f) = Some 1590192000000000000"
  by (simp add: expiry_of_def sample_rule_def sample_object_def sample_midnight)

theorem ComputeAction_exact_witness:
  "ComputeAction 1590192000000000001 (sample_lifecycle 1 False 0 (tag_filter [] [])) (sample_object [] False) = DeleteAction"
proof -
  let ?o = "sample_object [] False" and ?r = "sample_rule 1 False 0 (tag_filter [] [])" and ?now = "1590192000000000001"
  have "current ?o" "\<not> noncurrent ?o" "\<not> ExpiredObjectDeleteMarker ?o" "oo_ModTime ?o \<noteq> zero_time"
    by (simp_all add: current_def noncurrent_def ExpiredObjectDeleteMarker_def sample_object_def zero_time_def)
  then have "decides ?now ?o ?r" "decision ?now ?o ?r = DeleteAction"
    by (simp_all add: decides_def decision_def version_expires_def version_moves_def sample_expiry past_def Let_def)
  then show ?thesis
    using ComputeAction_exact [of ?o "sample_lifecycle 1 False 0 (tag_filter [] [])" ?now] \<open>oo_ModTime ?o \<noteq> zero_time\<close> sample_applies
    by (simp add: sample_lifecycle_def)
qed

subsection \<open>The predicted expiry\<close>

lemma expiry_nonzero: "0 \<le> oo_ModTime obj \<Longrightarrow> expiry_of obj r = Some t \<Longrightarrow> t \<noteq> zero_time"
  by (auto simp: expiry_of_def expiry_after_1970 split: if_splits)

text \<open>For a current object a rule with one kind of expiration lowers the prediction to its own expiry.\<close>

lemma predict_step:
  assumes "oo_IsLatest obj \<or> oo_VersionID obj = []" and "ex_Days (ru_Expiration r) = 0 \<or> ex_Date (ru_Expiration r) = zero_time"
  shows "predict_loop obj (r # rs) final =
    predict_loop obj rs (case expiry_of obj r of
        None \<Rightarrow> final
      | Some t \<Rightarrow> if snd final = zero_time \<or> snd final > t then (ru_ID r, t) else final)"
  using assms by (auto simp: expiry_of_def null_defs Let_def)

lemma predict_loop_past:
  assumes "oo_IsLatest obj \<or> oo_VersionID obj = []" and "0 \<le> oo_ModTime obj"
    and "\<forall>r \<in> set rs. ex_Days (ru_Expiration r) = 0 \<or> ex_Date (ru_Expiration r) = zero_time"
  shows "(snd (predict_loop obj rs final) \<noteq> zero_time \<and> now > snd (predict_loop obj rs final)) \<longleftrightarrow>
    (snd final \<noteq> zero_time \<and> now > snd final) \<or> (\<exists>r \<in> set rs. past now (expiry_of obj r))"
  using assms(3)
proof (induction rs arbitrary: final)
  case (Cons r rs)
  define f where "f = (case expiry_of obj r of None \<Rightarrow> final
    | Some t \<Rightarrow> if snd final = zero_time \<or> snd final > t then (ru_ID r, t) else final)"
  have "predict_loop obj (r # rs) final = predict_loop obj rs f"
    unfolding f_def by (rule predict_step) (use Cons.prems assms(1) in auto)
  moreover have "(snd f \<noteq> zero_time \<and> now > snd f) \<longleftrightarrow> (snd final \<noteq> zero_time \<and> now > snd final) \<or> past now (expiry_of obj r)"
    using expiry_nonzero [OF assms(2), of r] by (auto simp: f_def past_def split: option.splits)
  ultimately show ?case using Cons.IH [of f] Cons.prems by auto
qed simp

lemma predict_loop_rule:
  assumes "oo_IsLatest obj \<or> oo_VersionID obj = []"
    and "\<forall>r \<in> set rs. ex_Days (ru_Expiration r) = 0 \<or> ex_Date (ru_Expiration r) = zero_time"
  shows "predict_loop obj rs final = final \<or>
    (\<exists>r \<in> set rs. predict_loop obj rs final = (ru_ID r, snd (predict_loop obj rs final)) \<and> expiry_of obj r = Some (snd (predict_loop obj rs final)))"
  using assms(2)
proof (induction rs arbitrary: final)
  case (Cons r rs)
  define f where "f = (case expiry_of obj r of None \<Rightarrow> final
    | Some t \<Rightarrow> if snd final = zero_time \<or> snd final > t then (ru_ID r, t) else final)"
  have st: "predict_loop obj (r # rs) final = predict_loop obj rs f"
    unfolding f_def by (rule predict_step) (use Cons.prems assms(1) in auto)
  have f: "f = final \<or> (f = (ru_ID r, snd f) \<and> expiry_of obj r = Some (snd f))" by (auto simp: f_def split: option.splits)
  show ?case unfolding st using Cons.IH [of f] Cons.prems f by auto
qed simp

lemma Expiration_one_kind: "Expiration_Validate e = None \<Longrightarrow> ex_set e \<or> Expiration_IsNull e \<Longrightarrow> ex_Days e = 0 \<or> ex_Date e = zero_time"
  by (auto simp: Expiration_Validate_def null_defs split: if_splits)

text \<open>
  (C11) The expiry that a response announces is the one that happens. For a current version that is
  not a delete marker, under rules whose expirations have passed validation, the object is removed at a
  time exactly when \<open>PredictExpiryTime\<close> gives a time and that time is over; and the identifier it gives is
  that of a rule which applies to the object and expires it then.
\<close>

theorem PredictExpiryTime_agrees:
  assumes "oo_IsLatest obj \<or> oo_VersionID obj = []" and "\<not> oo_DeleteMarker obj" and "0 \<le> oo_ModTime obj"
    and "\<forall>r \<in> set (lc_Rules lc). (ex_set (ru_Expiration r) \<or> Expiration_IsNull (ru_Expiration r)) \<and> Expiration_Validate (ru_Expiration r) = None"
    and "PredictExpiryTime lc obj = (ruleID, expiry)"
  shows "(ComputeAction now lc obj = DeleteAction \<longleftrightarrow> expiry \<noteq> zero_time \<and> now > expiry)
    \<and> (expiry \<noteq> zero_time \<longrightarrow> (\<exists>r \<in> set (lc_Rules lc). applies obj r \<and> ru_ID r = ruleID \<and> expiry_of obj r = Some expiry))"
proof -
  let ?R = "FilterActionableRules lc obj"
  have R: "set ?R = {r \<in> set (lc_Rules lc). applies obj r}" by (rule set_FilterActionableRules)
  have one: "\<forall>r \<in> set ?R. ex_Days (ru_Expiration r) = 0 \<or> ex_Date (ru_Expiration r) = zero_time"
    using assms(4) R Expiration_one_kind by blast
  have P: "predict_loop obj ?R ([], zero_time) = (ruleID, expiry)" using assms(2,5) by (simp add: PredictExpiryTime_def)
  have cur: "current obj" "\<not> noncurrent obj" "\<not> ExpiredObjectDeleteMarker obj"
    using assms(1,2) by (auto simp: current_def noncurrent_def ExpiredObjectDeleteMarker_def)
  have d: "decides now obj r \<longleftrightarrow> past now (expiry_of obj r)" "decides now obj r \<Longrightarrow> decision now obj r = DeleteAction" for r
    using cur by (auto simp: decides_def decision_def version_expires_def version_moves_def Let_def)
  have m: "oo_ModTime obj \<noteq> zero_time" using assms(3) by (simp add: zero_time_def)
  have C: "ComputeAction now lc obj = compute_loop now obj ?R NoneAction" using m by (simp add: ComputeAction_def)
  have "ComputeAction now lc obj = DeleteAction \<longleftrightarrow> (\<exists>r \<in> set ?R. past now (expiry_of obj r))"
  proof (cases "\<exists>r \<in> set ?R. decides now obj r")
    case True
    from compute_loop_decided [OF this, of NoneAction] show ?thesis using True d C by auto
  next
    case False
    then show ?thesis using compute_loop_undecided [of ?R now obj NoneAction] d C by (auto simp: restored_action_def)
  qed
  also have "\<dots> \<longleftrightarrow> expiry \<noteq> zero_time \<and> now > expiry"
    using predict_loop_past [OF assms(1,3) one, of "([], zero_time)" now] P by simp
  finally show ?thesis
    using predict_loop_rule [OF assms(1) one, of "([], zero_time)"] P R by auto
qed

theorem PredictExpiryTime_agrees_witness:
  "PredictExpiryTime (sample_lifecycle 1 False 0 (tag_filter [] [])) (sample_object [] False) = (''r1'', 1590192000000000000)
   \<and> ComputeAction 1590192000000000000 (sample_lifecycle 1 False 0 (tag_filter [] [])) (sample_object [] False) \<noteq> DeleteAction"
proof -
  have p: "PredictExpiryTime (sample_lifecycle 1 False 0 (tag_filter [] [])) (sample_object [] False) = (''r1'', 1590192000000000000)"
    by (simp add: PredictExpiryTime_def FilterActionableRules_def actionable_def sample_defs null_defs GetPrefix_def HasPrefix_def TestTags_def
        Tag_IsEmpty_def sample_midnight Let_def)
  show ?thesis
    using PredictExpiryTime_agrees [OF _ _ _ _ p, of 1590192000000000000] p
    by (simp add: sample_defs null_defs Expiration_Validate_def)
qed

subsection \<open>Skipping a prefix\<close>

lemma has_active_iff: "has_active P rs \<longleftrightarrow> (\<exists>r \<in> set rs. P r)"
  by (induction rs) auto

lemma prefixes_comparable: "HasPrefix s p \<Longrightarrow> HasPrefix s q \<Longrightarrow> HasPrefix p q \<or> HasPrefix q p"
  unfolding HasPrefix_def by (metis min.cobounded1 min.cobounded2 nle_le take_all take_take min_def)

text \<open>A rule that is not active under a prefix of the name neither expires nor moves a version.\<close>

lemma inactive_rule:
  assumes "\<not> active_rule now prefix recursive r" and "ru_Status r \<noteq> Disabled" and "HasPrefix (oo_Name obj) (GetPrefix r)"
    and "recursive \<and> HasPrefix (oo_Name obj) prefix \<or> prefix = oo_Name obj"
    and "0 \<le> nve_NoncurrentDays (ru_NoncurrentVersionExpiration r)" and "0 \<le> nvt_NoncurrentDays (ru_NoncurrentVersionTransition r)"
    and "\<not> ExpiredObjectDeleteMarker obj"
  shows "\<not> decides now obj r \<and> \<not> past now (transition_of obj r)"
proof -
  let ?e = "ru_Expiration r" and ?t = "ru_Transition r"
  have "HasPrefix prefix (GetPrefix r) \<or> recursive \<and> HasPrefix (GetPrefix r) prefix"
    using assms(3,4) prefixes_comparable [of "oo_Name obj" prefix "GetPrefix r"] by auto
  then have n: "nve_NoncurrentDays (ru_NoncurrentVersionExpiration r) = 0" "nvt_NoncurrentDays (ru_NoncurrentVersionTransition r) = 0"
    and e: "ex_Days ?e = 0" "ex_Date ?e = zero_time \<or> \<not> ex_Date ?e < now"
    and t: "tr_Days ?t = 0" "tr_Date ?t = zero_time \<or> \<not> tr_Date ?t < now"
    using assms(1,2,5,6) by (auto simp: active_rule_def null_defs Let_def split: if_splits)
  then show ?thesis using assms(7)
    by (auto simp: decides_def version_expires_def version_moves_def past_def expiry_of_def transition_of_def Let_def)
qed

text \<open>
  (C34) The scanner may skip a folder. When \<open>HasActiveRules\<close> denies active rules below a prefix, or at
  the name of an object, then no rule calls for an action on an object there, apart from the removal of
  an expired delete marker and of a restored copy. The numbers of days are those of a decoded
  configuration, which are not negative.
\<close>

theorem HasActiveRules_complete:
  assumes "\<not> HasActiveRules now lc prefix recursive"
    and "recursive \<and> HasPrefix (oo_Name obj) prefix \<or> prefix = oo_Name obj"
    and "\<forall>r \<in> set (lc_Rules lc). 0 \<le> nve_NoncurrentDays (ru_NoncurrentVersionExpiration r) \<and>
      0 \<le> nvt_NoncurrentDays (ru_NoncurrentVersionTransition r)"
    and "\<not> ExpiredObjectDeleteMarker obj" and "\<not> restore_over now obj"
  shows "ComputeAction now lc obj = NoneAction"
proof (cases "oo_ModTime obj = zero_time")
  case False
  have q: "\<not> decides now obj r \<and> \<not> past now (transition_of obj r)" if "r \<in> set (FilterActionableRules lc obj)" for r
  proof -
    have r: "r \<in> set (lc_Rules lc)" "applies obj r" using that by (simp_all add: set_FilterActionableRules)
    then show ?thesis
      using inactive_rule [of now prefix recursive r obj] assms by (auto simp: HasActiveRules_def has_active_iff applies_def)
  qed
  then show ?thesis
    using compute_loop_undecided [of "FilterActionableRules lc obj" now obj NoneAction] False assms(5)
    by (simp add: ComputeAction_def)
qed (simp add: ComputeAction_def)

definition disabled_lifecycle :: Lifecycle where
  "disabled_lifecycle = \<lparr>lc_Rules = [(sample_rule 1 False 0 (tag_filter [] []))\<lparr>ru_Status := Disabled\<rparr>]\<rparr>"

theorem HasActiveRules_complete_witness:
  "\<not> HasActiveRules 1590192000000000001 disabled_lifecycle [] True \<and>
   ComputeAction 1590192000000000001 disabled_lifecycle (sample_object [] False) = NoneAction"
proof -
  have "\<not> HasActiveRules 1590192000000000001 disabled_lifecycle [] True"
    by (simp add: HasActiveRules_def disabled_lifecycle_def active_rule_def)
  then show ?thesis
    using HasActiveRules_complete [of 1590192000000000001 disabled_lifecycle "[]" True "sample_object [] False"]
    by (simp add: HasPrefix_def disabled_lifecycle_def sample_rule_def sample_object_def ExpiredObjectDeleteMarker_def restore_over_def)
qed

subsection \<open>Rules that act where they should not, or not where they should\<close>

text \<open>
  (C36) A rule for objects with a tag deletes objects without it. The configuration passes
  validation; its only rule is for objects tagged with a key and value and expires them after some
  days, and it also has a noncurrent expiration. An object without any tag expires under it.
\<close>

theorem tag_filter_ignored:
  assumes "k \<noteq> []" and "length (runes k) \<le> 128" and "length (runes v) \<le> 256"
  shows "Lifecycle_Validate newID (sample_lifecycle 1 False 1 (tag_filter k v)) = None
    \<and> \<not> TestTags (tag_filter k v) (split_on (CHR ''&'') (oo_UserTags (sample_object [] False)))
    \<and> ComputeAction 1590192000000000001 (sample_lifecycle 1 False 1 (tag_filter k v)) (sample_object [] False) = DeleteAction"
proof (intro conjI)
  let ?o = "sample_object [] False" and ?r = "sample_rule 1 False 1 (tag_filter k v)" and ?now = "1590192000000000001"
  have "Rule_Validate n ?r = None" for n
    using assms by (simp add: validate_defs null_defs sample_rule_def tag_filter_def no_prefix_def Enabled_def)
  then show "Lifecycle_Validate newID (sample_lifecycle 1 False 1 (tag_filter k v)) = None"
    by (simp add: Lifecycle_Validate_def sample_lifecycle_def)
  show "\<not> TestTags (tag_filter k v) (split_on (CHR ''&'') (oo_UserTags ?o))"
    using assms(1) by (simp add: TestTags_def tag_filter_def Tag_IsEmpty_def Tag_String_def sample_object_def)
  have "applies ?o ?r"
    by (simp add: applies_def ignores_tags_def NVE_IsDaysNull_def sample_rule_def sample_object_def GetPrefix_def HasPrefix_def
        tag_filter_def no_prefix_def Enabled_def Disabled_def)
  moreover have "current ?o" "\<not> noncurrent ?o" "\<not> ExpiredObjectDeleteMarker ?o" "oo_ModTime ?o \<noteq> zero_time"
    by (simp_all add: current_def noncurrent_def ExpiredObjectDeleteMarker_def sample_object_def zero_time_def)
  moreover from this have "decides ?now ?o ?r" "decision ?now ?o ?r = DeleteAction"
    by (simp_all add: decides_def decision_def version_expires_def version_moves_def sample_expiry past_def Let_def)
  moreover have "set (FilterActionableRules (sample_lifecycle 1 False 1 (tag_filter k v)) ?o) = {?r}"
    using calculation(1) by (auto simp: set_FilterActionableRules sample_lifecycle_def)
  ultimately show "ComputeAction ?now (sample_lifecycle 1 False 1 (tag_filter k v)) ?o = DeleteAction"
    using compute_loop_decided [of "FilterActionableRules (sample_lifecycle 1 False 1 (tag_filter k v)) ?o" ?now ?o NoneAction]
    by (auto simp: ComputeAction_def)
qed

theorem tag_filter_ignored_witness:
  "ComputeAction 1590192000000000001 (sample_lifecycle 1 False 1 (tag_filter ''a'' ''b'')) (sample_object [] False) = DeleteAction"
  using tag_filter_ignored [of "''a''" "''b''"] by (simp add: runes_ascii ascii_def byte_of_def)

text \<open>
  A configuration whose only rule removes expired delete markers has no active rules for the
  scanner, at any time and under any prefix, so the scanner does not look at it; yet the rule is valid
  and calls for the removal of a delete marker that is the only version of its object.
\<close>

theorem marker_rule_never_active:
  "Lifecycle_Validate newID (sample_lifecycle 0 True 0 (tag_filter [] [])) = None
   \<and> \<not> HasActiveRules now (sample_lifecycle 0 True 0 (tag_filter [] [])) prefix recursive
   \<and> ComputeAction now (sample_lifecycle 0 True 0 (tag_filter [] [])) (sample_object ''v1'' True) = DeleteVersionAction"
proof (intro conjI)
  let ?r = "sample_rule 0 True 0 (tag_filter [] [])" and ?o = "sample_object ''v1'' True"
  have "Rule_Validate n ?r = None" for n
    by (simp add: validate_defs null_defs sample_rule_def tag_filter_def no_prefix_def Enabled_def)
  then show "Lifecycle_Validate newID (sample_lifecycle 0 True 0 (tag_filter [] [])) = None"
    by (simp add: Lifecycle_Validate_def sample_lifecycle_def)
  show "\<not> HasActiveRules now (sample_lifecycle 0 True 0 (tag_filter [] [])) prefix recursive"
    by (simp add: HasActiveRules_def active_rule_def sample_lifecycle_def null_defs sample_rule_def Let_def)
  have "FilterActionableRules (sample_lifecycle 0 True 0 (tag_filter [] [])) ?o = [?r]"
    by (simp add: FilterActionableRules_def actionable_def sample_lifecycle_def sample_rule_def sample_object_def GetPrefix_def HasPrefix_def
        tag_filter_def no_prefix_def Enabled_def Disabled_def)
  then show "ComputeAction now (sample_lifecycle 0 True 0 (tag_filter [] [])) ?o = DeleteVersionAction"
    by (simp add: ComputeAction_def compute_rule_def sample_object_def sample_rule_def ExpiredObjectDeleteMarker_def zero_time_def)
qed

subsection \<open>Identifiers\<close>

lemma first_err_None: "first_err f xs = None \<longleftrightarrow> (\<forall>x \<in> set xs. f x = None)"
  by (induction xs) (auto split: option.splits)

lemma duplicate_id_distinct: "duplicate_id rs \<longleftrightarrow> \<not> distinct (map ru_ID rs)"
  by (induction rs) (auto simp: image_iff)

text \<open>The identifiers that a validated configuration keeps are distinct, and at most one rule has none: a generated identifier is lost.\<close>

lemma Lifecycle_Validate_ids:
  "Lifecycle_Validate newID lc = None \<longleftrightarrow>
     lc_Rules lc \<noteq> [] \<and> length (lc_Rules lc) \<le> 1000 \<and> (\<forall>r \<in> set (lc_Rules lc). Rule_Validate (newID r) r = None) \<and>
     distinct (map ru_ID (lc_Rules lc))"
  using first_err_None [of "\<lambda>r. Rule_Validate (newID r) r" "lc_Rules lc"]
  by (cases "first_err (\<lambda>r. Rule_Validate (newID r) r) (lc_Rules lc)")
    (auto simp: Lifecycle_Validate_def duplicate_id_distinct not_le)

end
