(* ===== verification/XL_Inline.thy ===== *)
theory XL_Inline
  imports Obstor_Prelude "HOL-Library.AList"
begin

text \<open>
  The inline data of \<^verbatim>\<open>xl.meta\<close>: the type \<^verbatim>\<open>xlMetaInlineData\<close> of
  \<^verbatim>\<open>cmd/xl-storage-format-v2.go\<close>, a version byte followed by a MessagePack map from keys to
  byte strings, with every operation on it.

  The MessagePack routines of \<^verbatim>\<open>github.com/tinylib/msgp\<close> are the fields of the record
  \<open>msgp\<close>; what the code relies on is \<open>msgp_laws\<close>. A read returns the value, the remaining bytes and
  the error. A \<open>nil\<close> slice that the code tells apart from an empty one is \<open>None\<close>.
\<close>

record msgp =
  ReadMapHeaderBytes :: "nat list \<Rightarrow> nat \<times> nat list \<times> goerr option"
  ReadMapKeyZC :: "nat list \<Rightarrow> nat list \<times> nat list \<times> goerr option"
  ReadBytesZC :: "nat list \<Rightarrow> nat list option \<times> nat list \<times> goerr option"
  EncMapHeader :: "nat \<Rightarrow> nat list"
  EncString :: "nat list \<Rightarrow> nat list"
  EncBytes :: "nat list \<Rightarrow> nat list"

subsection \<open>Reading\<close>

definition xlMetaInlineDataVer :: nat where
  "xlMetaInlineDataVer = 1"

definition versionOK :: "nat list \<Rightarrow> bool" where
  "versionOK x = (case x of [] \<Rightarrow> True | v # _ \<Rightarrow> v > 0 \<and> v \<le> xlMetaInlineDataVer)"

definition afterVersion :: "nat list \<Rightarrow> nat list" where
  "afterVersion x = (case x of [] \<Rightarrow> [] | _ # rest \<Rightarrow> rest)"

fun find_loop :: "msgp \<Rightarrow> nat list \<Rightarrow> nat \<Rightarrow> nat list \<Rightarrow> nat list option" where
  "find_loop M key 0 buf = None"
| "find_loop M key (Suc sz) buf =
     (case ReadMapKeyZC M buf of
        (found, buf, Some err) \<Rightarrow> None
      | (found, buf, None) \<Rightarrow>
          if found = key then fst (ReadBytesZC M buf)
          else (case ReadBytesZC M buf of
                  (_, buf, Some err) \<Rightarrow> None
                | (_, buf, None) \<Rightarrow> find_loop M key sz buf))"

definition inline_find :: "msgp \<Rightarrow> nat list \<Rightarrow> nat list \<Rightarrow> nat list option" where
  "inline_find M x key =
     (if x = [] \<or> \<not> versionOK x then None
      else case ReadMapHeaderBytes M (afterVersion x) of
             (sz, buf, err) \<Rightarrow> if err \<noteq> None \<or> sz = 0 then None else find_loop M key sz buf)"

fun validate_loop :: "msgp \<Rightarrow> nat \<Rightarrow> nat list \<Rightarrow> goerr option" where
  "validate_loop M 0 buf = None"
| "validate_loop M (Suc sz) buf =
     (case ReadMapKeyZC M buf of
        (key, buf, Some err) \<Rightarrow> Some (Wrapped 1 err)
      | (key, buf, None) \<Rightarrow>
          if key = [] then Some (ErrorsNew ''xlMetaInlineData: key is length 0'')
          else (case ReadBytesZC M buf of
                  (_, buf, Some err) \<Rightarrow> Some (Wrapped 2 err)
                | (_, buf, None) \<Rightarrow> validate_loop M sz buf))"

definition inline_validate :: "msgp \<Rightarrow> nat list \<Rightarrow> goerr option" where
  "inline_validate M x =
     (if x = [] then None
      else if \<not> versionOK x then Some (ErrorsNew ''xlMetaInlineData: unknown version'')
      else case ReadMapHeaderBytes M (afterVersion x) of
             (sz, buf, Some err) \<Rightarrow> Some (Wrapped 0 err)
           | (sz, buf, None) \<Rightarrow> validate_loop M sz buf)"

fun list_loop :: "msgp \<Rightarrow> nat \<Rightarrow> nat list \<Rightarrow> nat list list \<Rightarrow> nat list list \<times> goerr option" where
  "list_loop M 0 buf keys = (keys, None)"
| "list_loop M (Suc sz) buf keys =
     (case ReadMapKeyZC M buf of
        (key, buf, Some err) \<Rightarrow> (keys, Some err)
      | (key, buf, None) \<Rightarrow>
          if key = [] then (keys, Some (ErrorsNew ''xlMetaInlineData: key is length 0''))
          else (case ReadBytesZC M buf of
                  (_, buf, Some err) \<Rightarrow> (keys @ [key], Some err)
                | (_, buf, None) \<Rightarrow> list_loop M sz buf (keys @ [key])))"

definition inline_list :: "msgp \<Rightarrow> nat list \<Rightarrow> nat list list \<times> goerr option" where
  "inline_list M x =
     (if x = [] then ([], None)
      else if \<not> versionOK x then ([], Some (ErrorsNew ''xlMetaInlineData: unknown version''))
      else case ReadMapHeaderBytes M (afterVersion x) of
             (sz, buf, Some err) \<Rightarrow> ([], Some err)
           | (sz, buf, None) \<Rightarrow> list_loop M sz buf [])"

definition inline_entries :: "msgp \<Rightarrow> nat list \<Rightarrow> nat" where
  "inline_entries M x =
     (if x = [] \<or> \<not> versionOK x then 0 else fst (ReadMapHeaderBytes M (afterVersion x)))"

subsection \<open>Writing\<close>

text \<open>The computed payload size is only the capacity of the buffer.\<close>

definition serialize :: "msgp \<Rightarrow> nat list list \<Rightarrow> nat list list \<Rightarrow> nat list option" where
  "serialize M keys vals =
     (if length keys \<noteq> length vals then None
      else if keys = [] then Some []
      else Some (xlMetaInlineDataVer # EncMapHeader M (length keys mod 2 ^ 32) @
             concat (map (\<lambda>(k, v). EncString M k @ EncBytes M v) (zip keys vals))))"

definition val_bytes :: "nat list option \<Rightarrow> nat list" where
  "val_bytes v = (case v of None \<Rightarrow> [] | Some b \<Rightarrow> b)"

fun repair_loop ::
  "msgp \<Rightarrow> nat \<Rightarrow> nat list \<Rightarrow> nat list list \<Rightarrow> nat list list \<Rightarrow> nat list list \<times> nat list list" where
  "repair_loop M 0 buf keys vals = (keys, vals)"
| "repair_loop M (Suc sz) buf keys vals =
     (case ReadMapKeyZC M buf of
        (key, buf, Some err) \<Rightarrow> (keys, vals)
      | (key, buf, None) \<Rightarrow>
          if key = [] then (keys, vals)
          else (case ReadBytesZC M buf of
                  (_, buf, Some err) \<Rightarrow> (keys, vals)
                | (val, buf, None) \<Rightarrow> repair_loop M sz buf (keys @ [key]) (vals @ [val_bytes val])))"

definition inline_repair :: "msgp \<Rightarrow> nat list \<Rightarrow> nat list option" where
  "inline_repair M x =
     (if x = [] then Some []
      else if \<not> versionOK x then Some []
      else case ReadMapHeaderBytes M (afterVersion x) of
             (sz, buf, Some err) \<Rightarrow> Some []
           | (sz, buf, None) \<Rightarrow> (case repair_loop M sz buf [] [] of (keys, vals) \<Rightarrow> serialize M keys vals))"

fun replace_loop ::
  "msgp \<Rightarrow> nat list \<Rightarrow> nat list \<Rightarrow> nat \<Rightarrow> nat list \<Rightarrow> nat list list \<Rightarrow> nat list list \<Rightarrow> bool \<Rightarrow>
     nat list list \<times> nat list list \<times> bool" where
  "replace_loop M key value 0 buf keys vals replaced = (keys, vals, replaced)"
| "replace_loop M key value (Suc sz) buf keys vals replaced =
     (case ReadMapKeyZC M buf of
        (found, buf, Some err) \<Rightarrow> (keys, vals, replaced)
      | (found, buf, None) \<Rightarrow>
          (case ReadBytesZC M buf of
             (_, buf, Some err) \<Rightarrow> (keys, vals, replaced)
           | (foundVal, buf, None) \<Rightarrow>
               if found = key
               then replace_loop M key value sz buf (keys @ [found]) (vals @ [value]) True
               else replace_loop M key value sz buf (keys @ [found]) (vals @ [val_bytes foundVal]) replaced))"

definition inline_replace :: "msgp \<Rightarrow> nat list \<Rightarrow> nat list \<Rightarrow> nat list \<Rightarrow> nat list option" where
  "inline_replace M x key value =
     (case ReadMapHeaderBytes M (afterVersion x) of
        (sz, buf, _) \<Rightarrow>
          (case replace_loop M key value sz buf [] [] False of
             (keys, vals, replaced) \<Rightarrow>
               if replaced then serialize M keys vals
               else serialize M (keys @ [key]) (vals @ [value])))"

fun rename_loop ::
  "msgp \<Rightarrow> nat list \<Rightarrow> nat list \<Rightarrow> nat \<Rightarrow> nat list \<Rightarrow> nat list list \<Rightarrow> nat list list \<Rightarrow> bool \<Rightarrow>
     nat list list \<times> nat list list \<times> bool" where
  "rename_loop M oldKey newKey 0 buf keys vals found = (keys, vals, found)"
| "rename_loop M oldKey newKey (Suc sz) buf keys vals found =
     (case ReadMapKeyZC M buf of
        (foundKey, buf, Some err) \<Rightarrow> (keys, vals, found)
      | (foundKey, buf, None) \<Rightarrow>
          (case ReadBytesZC M buf of
             (_, buf, Some err) \<Rightarrow> (keys, vals, found)
           | (foundVal, buf, None) \<Rightarrow>
               if foundKey \<noteq> oldKey
               then rename_loop M oldKey newKey sz buf (keys @ [foundKey]) (vals @ [val_bytes foundVal]) found
               else rename_loop M oldKey newKey sz buf (keys @ [newKey]) (vals @ [val_bytes foundVal]) True))"

text \<open>The new contents and whether the key was found.\<close>

definition inline_rename :: "msgp \<Rightarrow> nat list \<Rightarrow> nat list \<Rightarrow> nat list \<Rightarrow> (nat list \<times> bool) option" where
  "inline_rename M x oldKey newKey =
     (case ReadMapHeaderBytes M (afterVersion x) of
        (sz, buf, _) \<Rightarrow>
          (case rename_loop M oldKey newKey sz buf [] [] False of
             (keys, vals, found) \<Rightarrow>
               if \<not> found then Some (x, False)
               else map_option (\<lambda>x'. (x', True)) (serialize M keys vals)))"

fun remove_loop ::
  "msgp \<Rightarrow> nat list \<Rightarrow> nat \<Rightarrow> nat list \<Rightarrow> nat list list \<Rightarrow> nat list list \<Rightarrow> bool \<Rightarrow>
     nat list list \<times> nat list list \<times> bool" where
  "remove_loop M key 0 buf keys vals found = (keys, vals, found)"
| "remove_loop M key (Suc sz) buf keys vals found =
     (case ReadMapKeyZC M buf of
        (foundKey, buf, Some err) \<Rightarrow> (keys, vals, found)
      | (foundKey, buf, None) \<Rightarrow>
          (case ReadBytesZC M buf of
             (_, buf, Some err) \<Rightarrow> (keys, vals, found)
           | (foundVal, buf, None) \<Rightarrow>
               if foundKey \<noteq> key
               then remove_loop M key sz buf (keys @ [foundKey]) (vals @ [val_bytes foundVal]) found
               else remove_loop M key sz buf keys vals True))"

definition inline_remove :: "msgp \<Rightarrow> nat list \<Rightarrow> nat list \<Rightarrow> (nat list \<times> bool) option" where
  "inline_remove M x key =
     (case ReadMapHeaderBytes M (afterVersion x) of
        (sz, buf, _) \<Rightarrow>
          (case remove_loop M key sz buf [] [] False of
             (keys, vals, found) \<Rightarrow>
               if \<not> found then Some (x, False)
               else if keys = [] then Some ([], True)
               else map_option (\<lambda>x'. (x', True)) (serialize M keys vals)))"

subsection \<open>What is relied on of the MessagePack routines\<close>

text \<open>
  A value that was appended is read back, with what follows it left over; keys and values that are
  read are parts of the buffer; and the empty buffer has no map.
\<close>

definition msgp_laws :: "msgp \<Rightarrow> bool" where
  "msgp_laws M \<longleftrightarrow>
     (\<forall>n rest. n < 2 ^ 32 \<longrightarrow> ReadMapHeaderBytes M (EncMapHeader M n @ rest) = (n, rest, None)) \<and>
     (\<forall>k rest. length k < 2 ^ 32 \<longrightarrow> ReadMapKeyZC M (EncString M k @ rest) = (k, rest, None)) \<and>
     (\<forall>v rest. length v < 2 ^ 32 \<longrightarrow> ReadBytesZC M (EncBytes M v @ rest) = (Some v, rest, None)) \<and>
     (\<forall>b n r. ReadMapHeaderBytes M b = (n, r, None) \<longrightarrow> n < 2 ^ 32 \<and> length r \<le> length b) \<and>
     (\<forall>b k r. ReadMapKeyZC M b = (k, r, None) \<longrightarrow> length k \<le> length b \<and> length r \<le> length b) \<and>
     (\<forall>b v r. ReadBytesZC M b = (v, r, None) \<longrightarrow> length (val_bytes v) \<le> length b \<and> length r \<le> length b) \<and>
     fst (ReadMapHeaderBytes M []) = 0"

lemma msgp_lawsD:
  assumes "msgp_laws M"
  shows "n < 2 ^ 32 \<Longrightarrow> ReadMapHeaderBytes M (EncMapHeader M n @ rest) = (n, rest, None)"
    and "length k < 2 ^ 32 \<Longrightarrow> ReadMapKeyZC M (EncString M k @ rest) = (k, rest, None)"
    and "length v < 2 ^ 32 \<Longrightarrow> ReadBytesZC M (EncBytes M v @ rest) = (Some v, rest, None)"
    and "fst (ReadMapHeaderBytes M []) = 0"
  using assms by (simp_all add: msgp_laws_def)

lemma msgp_bounds:
  assumes "msgp_laws M"
  shows "ReadMapHeaderBytes M b = (n, r, None) \<Longrightarrow> n < 2 ^ 32 \<and> length r \<le> length b"
    and "ReadMapKeyZC M b = (k, r, None) \<Longrightarrow> length k \<le> length b \<and> length r \<le> length b"
    and "ReadBytesZC M b = (v, r, None) \<Longrightarrow> length (val_bytes v) \<le> length b \<and> length r \<le> length b"
  using assms unfolding msgp_laws_def by blast+

subsection \<open>Abstract contents\<close>

text \<open>The bytes of an association list, and the lists that the 32-bit headers can carry.\<close>

definition enc_pairs :: "msgp \<Rightarrow> (nat list \<times> nat list) list \<Rightarrow> nat list" where
  "enc_pairs M kvs = concat (map (\<lambda>(k, v). EncString M k @ EncBytes M v) kvs)"

definition serial :: "msgp \<Rightarrow> (nat list \<times> nat list) list \<Rightarrow> nat list" where
  "serial M kvs = (if kvs = [] then [] else 1 # EncMapHeader M (length kvs) @ enc_pairs M kvs)"

definition fits32 :: "(nat list \<times> nat list) list \<Rightarrow> bool" where
  "fits32 kvs \<longleftrightarrow> length kvs < 2 ^ 32 \<and> (\<forall>(k, v) \<in> set kvs. length k < 2 ^ 32 \<and> length v < 2 ^ 32)"

definition inline_rep :: "msgp \<Rightarrow> nat list \<Rightarrow> (nat list \<times> nat list) list \<Rightarrow> bool" where
  "inline_rep M x kvs \<longleftrightarrow> x = serial M kvs \<and> fits32 kvs \<and> distinct (map fst kvs) \<and> [] \<notin> fst ` set kvs"

lemma enc_pairs_simps [simp]:
  "enc_pairs M [] = []" "enc_pairs M ((k, v) # kvs) = EncString M k @ EncBytes M v @ enc_pairs M kvs"
  by (simp_all add: enc_pairs_def)

lemma serial_Nil [simp]: "serial M [] = []"
  by (simp add: serial_def)

lemma fits32_Cons [simp]:
  "fits32 ((k, v) # kvs) \<longleftrightarrow>
     Suc (length kvs) < 2 ^ 32 \<and> length k < 2 ^ 32 \<and> length v < 2 ^ 32 \<and> fits32 kvs"
  by (auto simp: fits32_def)

lemma serialize_serial:
  "length keys = length vals \<Longrightarrow> length keys < 2 ^ 32 \<Longrightarrow> serialize M keys vals = Some (serial M (zip keys vals))"
  by (cases keys; cases vals) (simp_all add: serialize_def serial_def enc_pairs_def xlMetaInlineDataVer_def)

lemma header_serial:
  assumes "msgp_laws M" and "fits32 kvs"
  shows "\<exists>rest err. ReadMapHeaderBytes M (afterVersion (serial M kvs)) = (length kvs, rest, err) \<and>
    (kvs \<noteq> [] \<longrightarrow> err = None) \<and> (kvs \<noteq> [] \<longrightarrow> rest = enc_pairs M kvs)"
proof (cases "kvs = []")
  case True
  then show ?thesis
    using msgp_lawsD(4) [OF assms(1)]
    by (cases "ReadMapHeaderBytes M []") (simp add: serial_def afterVersion_def)
next
  case False
  then show ?thesis
    using msgp_lawsD(1) [OF assms(1), of "length kvs" "enc_pairs M kvs"] assms(2)
    by (simp add: serial_def afterVersion_def fits32_def)
qed

lemma versionOK_serial [simp]: "versionOK (serial M kvs)"
  by (simp add: serial_def versionOK_def xlMetaInlineDataVer_def)

subsection \<open>The loops on serialized contents\<close>


lemma find_loop_serial:
  "msgp_laws M \<Longrightarrow> fits32 kvs \<Longrightarrow> find_loop M key (length kvs) (enc_pairs M kvs) = map_of kvs key"
proof (induction kvs)
  case (Cons kv kvs)
  then show ?case by (cases kv) (auto simp: msgp_lawsD)
qed simp

lemma validate_loop_serial:
  "msgp_laws M \<Longrightarrow> fits32 kvs \<Longrightarrow> [] \<notin> fst ` set kvs \<Longrightarrow>
     validate_loop M (length kvs) (enc_pairs M kvs) = None"
proof (induction kvs)
  case (Cons kv kvs)
  then show ?case by (cases kv) (auto simp: msgp_lawsD)
qed simp

lemma list_loop_serial:
  "msgp_laws M \<Longrightarrow> fits32 kvs \<Longrightarrow> [] \<notin> fst ` set kvs \<Longrightarrow>
     list_loop M (length kvs) (enc_pairs M kvs) ks = (ks @ map fst kvs, None)"
proof (induction kvs arbitrary: ks)
  case (Cons kv kvs)
  then show ?case by (cases kv) (auto simp: msgp_lawsD)
qed simp

lemma replace_loop_serial:
  "msgp_laws M \<Longrightarrow> fits32 kvs \<Longrightarrow>
     replace_loop M key value (length kvs) (enc_pairs M kvs) ks vs b =
       (ks @ map fst kvs, vs @ map (\<lambda>(k, v). if k = key then value else v) kvs, b \<or> key \<in> fst ` set kvs)"
proof (induction kvs arbitrary: ks vs b)
  case (Cons kv kvs)
  then show ?case by (cases kv) (auto simp: msgp_lawsD val_bytes_def)
qed simp

lemma rename_loop_serial:
  "msgp_laws M \<Longrightarrow> fits32 kvs \<Longrightarrow>
     rename_loop M old new (length kvs) (enc_pairs M kvs) ks vs b =
       (ks @ map (\<lambda>(k, v). if k = old then new else k) kvs, vs @ map snd kvs, b \<or> old \<in> fst ` set kvs)"
proof (induction kvs arbitrary: ks vs b)
  case (Cons kv kvs)
  then show ?case by (cases kv) (auto simp: msgp_lawsD val_bytes_def)
qed simp

lemma remove_loop_serial:
  "msgp_laws M \<Longrightarrow> fits32 kvs \<Longrightarrow>
     remove_loop M key (length kvs) (enc_pairs M kvs) ks vs b =
       (ks @ map fst (filter (\<lambda>(k, v). k \<noteq> key) kvs), vs @ map snd (filter (\<lambda>(k, v). k \<noteq> key) kvs),
        b \<or> key \<in> fst ` set kvs)"
proof (induction kvs arbitrary: ks vs b)
  case (Cons kv kvs)
  then show ?case by (cases kv) (auto simp: msgp_lawsD val_bytes_def)
qed simp

subsection \<open>Refinement\<close>

text \<open>The loops as operations on association lists.\<close>

lemma zip_replace: "zip (map fst kvs) (map (\<lambda>(k, v). if k = key then value else v) kvs)
    = map (\<lambda>(k, v). (k, if k = key then value else v)) kvs"
  by (induction kvs) auto

lemma update_present:
  "distinct (map fst kvs) \<Longrightarrow> key \<in> fst ` set kvs \<Longrightarrow>
     map (\<lambda>(k, v). (k, if k = key then value else v)) kvs = AList.update key value kvs"
proof (induction kvs)
  case (Cons kv kvs)
  have "map (\<lambda>(k, v). (k, if k = key then value else v)) kvs = kvs" if "key \<notin> fst ` set kvs"
    using that by (induction kvs) auto
  with Cons show ?case by (cases kv) auto
qed simp

lemma update_absent: "key \<notin> fst ` set kvs \<Longrightarrow> AList.update key value kvs = kvs @ [(key, value)]"
  by (induction kvs) auto

lemma update_fits:
  assumes "fits32 kvs" and "length kvs + 1 < 2 ^ 32" and "length key < 2 ^ 32" and "length value < 2 ^ 32"
  shows "fits32 (AList.update key value kvs)"
proof -
  have "set (AList.update key value kvs) \<subseteq> insert (key, value) (set kvs)"
    by (induction kvs) auto
  moreover have "length (AList.update key value kvs) \<le> length kvs + 1" by (induction kvs) auto
  ultimately show ?thesis using assms unfolding fits32_def by fastforce
qed

definition rename_key :: "nat list \<Rightarrow> nat list \<Rightarrow> (nat list \<times> nat list) list \<Rightarrow> (nat list \<times> nat list) list" where
  "rename_key old new kvs = map (\<lambda>(k, v). (if k = old then new else k, v)) kvs"

lemma zip_rename: "zip (map (\<lambda>(k, v). if k = old then new else k) kvs) (map snd kvs) = rename_key old new kvs"
  by (induction kvs) (auto simp: rename_key_def)

lemma inline_replace_rep:
  assumes "msgp_laws M" and "inline_rep M x kvs" and "length kvs + 1 < 2 ^ 32"
    and "key \<noteq> []" and "length key < 2 ^ 32" and "length value < 2 ^ 32"
  shows "\<exists>x'. inline_replace M x key value = Some x' \<and> inline_rep M x' (AList.update key value kvs)"
proof -
  have f: "fits32 kvs" and d: "distinct (map fst kvs)" and x: "x = serial M kvs"
    using assms(2) by (simp_all add: inline_rep_def)
  obtain rest err where h: "ReadMapHeaderBytes M (afterVersion x) = (length kvs, rest, err)"
    and r: "kvs \<noteq> [] \<Longrightarrow> rest = enc_pairs M kvs"
    using header_serial [OF assms(1) f] x by auto
  have l: "replace_loop M key value (length kvs) rest [] [] False =
      (map fst kvs, map (\<lambda>(k, v). if k = key then value else v) kvs, key \<in> fst ` set kvs)"
    using replace_loop_serial [OF assms(1) f, of key "value" "[]" "[]" False] r by (cases "kvs = []") simp_all
  have "inline_replace M x key value = Some (serial M (AList.update key value kvs))"
  proof (cases "key \<in> fst ` set kvs")
    case True
    then show ?thesis
      using f by (simp add: inline_replace_def h l serialize_serial fits32_def zip_replace update_present [OF d])
  next
    case False
    have "map (\<lambda>(k, v). (k, if k = key then value else v)) kvs = kvs"
      using False by (intro map_idI) (auto simp: image_iff)
    then show ?thesis
      using False assms(3)
      by (simp add: inline_replace_def h l serialize_serial update_absent zip_replace)
  qed
  moreover have "distinct (map fst (AList.update key value kvs))" using d by (rule distinct_update)
  moreover have "[] \<notin> fst ` set (AList.update key value kvs)"
    using assms(2,4) by (auto simp: inline_rep_def AList.dom_update)
  ultimately show ?thesis using update_fits [OF f assms(3,5,6)] by (simp add: inline_rep_def)
qed

lemma inline_remove_rep:
  assumes "msgp_laws M" and "inline_rep M x kvs"
  shows "\<exists>x'. inline_remove M x key = Some (x', key \<in> fst ` set kvs) \<and> inline_rep M x' (AList.delete key kvs)"
proof -
  have f: "fits32 kvs" and d: "distinct (map fst kvs)" and x: "x = serial M kvs"
    using assms(2) by (simp_all add: inline_rep_def)
  obtain rest err where h: "ReadMapHeaderBytes M (afterVersion x) = (length kvs, rest, err)"
    and r: "kvs \<noteq> [] \<Longrightarrow> rest = enc_pairs M kvs"
    using header_serial [OF assms(1) f] x by auto
  have del: "filter (\<lambda>(k, v). k \<noteq> key) kvs = AList.delete key kvs"
    by (auto simp: AList.delete_eq intro!: filter_cong)
  have l: "remove_loop M key (length kvs) rest [] [] False =
      (map fst (AList.delete key kvs), map snd (AList.delete key kvs), key \<in> fst ` set kvs)"
    using remove_loop_serial [OF assms(1) f, of key "[]" "[]" False] r by (cases "kvs = []") (simp_all add: del)
  have sub: "set (AList.delete key kvs) \<subseteq> set kvs" "length (AList.delete key kvs) \<le> length kvs"
    by (auto simp: AList.delete_eq intro: le_trans [OF length_filter_le])
  then have fd: "fits32 (AList.delete key kvs)" using f unfolding fits32_def by fastforce
  have z: "zip (map fst (AList.delete key kvs)) (map snd (AList.delete key kvs)) = AList.delete key kvs"
    by (rule zip_map_fst_snd)
  have same: "AList.delete key kvs = kvs" if "key \<notin> fst ` set kvs"
    using that by (induction kvs) auto
  have "inline_remove M x key = Some (serial M (AList.delete key kvs), key \<in> fst ` set kvs)"
  proof (cases "key \<in> fst ` set kvs")
    case True
    then show ?thesis
      using fd by (cases "AList.delete key kvs = []") (simp_all add: inline_remove_def h l z serialize_serial fits32_def)
  next
    case False
    then show ?thesis by (simp add: inline_remove_def h l same) (simp add: x)
  qed
  moreover have "distinct (map fst (AList.delete key kvs))" using d by (rule distinct_delete)
  moreover have "[] \<notin> fst ` set (AList.delete key kvs)"
    using assms(2) sub(1) by (auto simp: inline_rep_def)
  ultimately show ?thesis using fd by (simp add: inline_rep_def)
qed

lemma inline_rename_rep:
  assumes "msgp_laws M" and "inline_rep M x kvs" and "new \<notin> fst ` set kvs" and "new \<noteq> []" and "length new < 2 ^ 32"
  shows "\<exists>x'. inline_rename M x old new = Some (x', old \<in> fst ` set kvs) \<and> inline_rep M x' (rename_key old new kvs)"
proof -
  have f: "fits32 kvs" and d: "distinct (map fst kvs)" and x: "x = serial M kvs"
    using assms(2) by (simp_all add: inline_rep_def)
  obtain rest err where h: "ReadMapHeaderBytes M (afterVersion x) = (length kvs, rest, err)"
    and r: "kvs \<noteq> [] \<Longrightarrow> rest = enc_pairs M kvs"
    using header_serial [OF assms(1) f] x by auto
  have l: "rename_loop M old new (length kvs) rest [] [] False =
      (map (\<lambda>(k, v). if k = old then new else k) kvs, map snd kvs, old \<in> fst ` set kvs)"
    using rename_loop_serial [OF assms(1) f, of old new "[]" "[]" False] r by (cases "kvs = []") simp_all
  have fr: "fits32 (rename_key old new kvs)" using f assms(5) by (auto simp: fits32_def rename_key_def)
  have same: "rename_key old new kvs = kvs" if "old \<notin> fst ` set kvs"
    using that by (induction kvs) (auto simp: rename_key_def)
  have "inline_rename M x old new = Some (serial M (rename_key old new kvs), old \<in> fst ` set kvs)"
  proof (cases "old \<in> fst ` set kvs")
    case True
    then show ?thesis using f by (simp add: inline_rename_def h l serialize_serial zip_rename fits32_def)
  next
    case False
    then show ?thesis by (simp add: inline_rename_def h l same) (simp add: x)
  qed
  moreover have "distinct (map fst (rename_key old new kvs))"
  proof -
    have "map fst (rename_key old new kvs) = map (\<lambda>k. if k = old then new else k) (map fst kvs)"
      by (auto simp: rename_key_def)
    moreover have "inj_on (\<lambda>k. if k = old then new else k) (set (map fst kvs))"
      using assms(3) by (auto simp: inj_on_def image_iff)
    ultimately show ?thesis using d by (simp only: distinct_map)
  qed
  moreover have "[] \<notin> fst ` set (rename_key old new kvs)"
    using assms(2,4) by (auto simp: inline_rep_def rename_key_def image_iff split: if_splits)
  ultimately show ?thesis using fr by (simp add: inline_rep_def)
qed

lemma inline_reads_rep:
  assumes "msgp_laws M" and "inline_rep M x kvs"
  shows "inline_find M x key = map_of kvs key" and "inline_validate M x = None"
    and "inline_list M x = (map fst kvs, None)" and "inline_entries M x = length kvs"
proof -
  have f: "fits32 kvs" and ne: "[] \<notin> fst ` set kvs" and x: "x = serial M kvs"
    using assms(2) by (simp_all add: inline_rep_def)
  obtain rest err where h: "ReadMapHeaderBytes M (afterVersion (serial M kvs)) = (length kvs, rest, err)"
    and r: "kvs \<noteq> [] \<Longrightarrow> rest = enc_pairs M kvs" "kvs \<noteq> [] \<Longrightarrow> err = None"
    using header_serial [OF assms(1) f] by auto
  have e: "serial M kvs = [] \<longleftrightarrow> kvs = []" by (simp add: serial_def)
  show "inline_find M x key = map_of kvs key"
    using r find_loop_serial [OF assms(1) f] by (cases "kvs = []") (simp_all add: inline_find_def x e h)
  show "inline_validate M x = None"
    using r validate_loop_serial [OF assms(1) f ne] by (cases "kvs = []") (simp_all add: inline_validate_def x e h)
  show "inline_list M x = (map fst kvs, None)"
    using r list_loop_serial [OF assms(1) f ne] by (cases "kvs = []") (simp_all add: inline_list_def x e h)
  show "inline_entries M x = length kvs"
    by (cases "kvs = []") (simp_all add: inline_entries_def x e h)
qed

text \<open>
  (C30) On a buffer that represents an association list, every operation of the inline data acts as
  the operation of the list, and the resulting buffer represents the resulting list.
\<close>

theorem inline_refines_alist:
  assumes "msgp_laws M" and "inline_rep M x kvs" and "key \<noteq> []" and "length key < 2 ^ 32"
    and "length val < 2 ^ 32" and "length kvs + 1 < 2 ^ 32"
  shows "inline_find M x key = map_of kvs key \<and> inline_list M x = (map fst kvs, None) \<and>
    inline_entries M x = length kvs \<and> inline_validate M x = None \<and>
    (\<exists>x'. inline_replace M x key val = Some x' \<and> inline_rep M x' (AList.update key val kvs)) \<and>
    (\<exists>x'. inline_remove M x old = Some (x', old \<in> fst ` set kvs) \<and> inline_rep M x' (AList.delete old kvs)) \<and>
    (key \<notin> fst ` set kvs \<longrightarrow>
       (\<exists>x'. inline_rename M x old key = Some (x', old \<in> fst ` set kvs) \<and>
          inline_rep M x' (rename_key old key kvs)))"
  using inline_reads_rep [OF assms(1,2)] inline_replace_rep [OF assms(1,2,6,3,4,5)]
    inline_remove_rep [OF assms(1,2)] inline_rename_rep [OF assms(1,2) _ assms(3,4)]
  by simp

subsection \<open>Repair\<close>

lemma repair_loop_spec:
  assumes "msgp_laws M"
  shows "repair_loop M sz buf keys vals = (keys', vals') \<Longrightarrow> length buf < 2 ^ 32 \<Longrightarrow>
    length keys = length vals \<Longrightarrow> \<exists>kvs. keys' = keys @ map fst kvs \<and> vals' = vals @ map snd kvs \<and>
      length kvs \<le> sz \<and> [] \<notin> fst ` set kvs \<and> (\<forall>(k, v) \<in> set kvs. length k < 2 ^ 32 \<and> length v < 2 ^ 32)"
proof (induction sz arbitrary: buf keys vals)
  case (Suc sz)
  obtain k b e where r: "ReadMapKeyZC M buf = (k, b, e)" by (cases "ReadMapKeyZC M buf")
  obtain v b' e' where r': "ReadBytesZC M b = (v, b', e')" by (cases "ReadBytesZC M b")
  show ?case
  proof (cases "e = None \<and> k \<noteq> [] \<and> e' = None")
    case False
    then have "keys' = keys \<and> vals' = vals" using Suc.prems(1) by (auto simp: r r' split: option.splits if_splits)
    then show ?thesis by (intro exI [of _ "[]"]) simp
  next
    case True
    then have rk: "length k \<le> length buf" "length b \<le> length buf"
      and rv: "length (val_bytes v) \<le> length b" "length b' \<le> length b"
      using msgp_bounds(2) [OF assms, of buf k b] msgp_bounds(3) [OF assms, of b v b'] r r' by simp_all
    have "repair_loop M sz b' (keys @ [k]) (vals @ [val_bytes v]) = (keys', vals')"
      using Suc.prems(1) True by (simp add: r r')
    from Suc.IH [OF this] obtain kvs where "keys' = (keys @ [k]) @ map fst kvs"
      "vals' = (vals @ [val_bytes v]) @ map snd kvs" "length kvs \<le> sz" "[] \<notin> fst ` set kvs"
      "\<forall>(k, v) \<in> set kvs. length k < 2 ^ 32 \<and> length v < 2 ^ 32"
      using Suc.prems(2,3) rk rv by fastforce
    then show ?thesis
      using True rk rv Suc.prems(2) by (intro exI [of _ "(k, val_bytes v) # kvs"]) auto
  qed
qed simp

lemma validate_serial:
  assumes "msgp_laws M" and "fits32 kvs" and "[] \<notin> fst ` set kvs"
  shows "inline_validate M (serial M kvs) = None"
proof (cases "kvs = []")
  case False
  then show ?thesis
    using header_serial [OF assms(1,2)] validate_loop_serial [OF assms]
    by (auto simp: inline_validate_def)
qed (simp add: inline_validate_def)

text \<open>Whatever bytes are found on disk, the repaired inline data passes validation.\<close>

lemma repair_valid:
  assumes "msgp_laws M" and "length x < 2 ^ 32"
  shows "\<exists>x'. inline_repair M x = Some x' \<and> inline_validate M x' = None"
proof (cases "x = [] \<or> \<not> versionOK x")
  case True
  then show ?thesis by (auto simp: inline_repair_def inline_validate_def)
next
  case False
  obtain sz buf err where h: "ReadMapHeaderBytes M (afterVersion x) = (sz, buf, err)"
    by (cases "ReadMapHeaderBytes M (afterVersion x)")
  show ?thesis
  proof (cases err)
    case (Some e)
    then show ?thesis using False h by (simp add: inline_repair_def inline_validate_def)
  next
    case None
    have "length (afterVersion x) \<le> length x" by (simp add: afterVersion_def split: list.split)
    then have b: "sz < 2 ^ 32" "length buf < 2 ^ 32"
      using msgp_bounds(1) [OF assms(1)] h None assms(2) by (simp_all, fastforce)
    obtain keys vals where l: "repair_loop M sz buf [] [] = (keys, vals)" by (cases "repair_loop M sz buf [] []")
    obtain kvs where k: "keys = map fst kvs" "vals = map snd kvs" "length kvs \<le> sz" "[] \<notin> fst ` set kvs"
      "\<forall>(k, v) \<in> set kvs. length k < 2 ^ 32 \<and> length v < 2 ^ 32"
      using repair_loop_spec [OF assms(1) l b(2)] by auto
    then have "fits32 kvs" using b(1) by (simp add: fits32_def)
    then have "inline_repair M x = Some (serial M kvs)"
      using False h None l k(1,2) by (simp add: inline_repair_def serialize_serial fits32_def zip_map_fst_snd)
    then show ?thesis using validate_serial [OF assms(1) \<open>fits32 kvs\<close> k(4)] by simp
  qed
qed

subsection \<open>A codec\<close>

text \<open>The four-byte forms of MessagePack: a tag, the length in big-endian order, the bytes.\<close>

definition be32 :: "nat \<Rightarrow> nat list" where
  "be32 n = [n div 2 ^ 24 mod 256, n div 2 ^ 16 mod 256, n div 2 ^ 8 mod 256, n mod 256]"

definition of_be32 :: "nat list \<Rightarrow> nat" where
  "of_be32 bs = ((bs ! 0 * 256 + bs ! 1) * 256 + bs ! 2) * 256 + bs ! 3"

definition read32 :: "nat \<Rightarrow> nat list \<Rightarrow> (nat \<times> nat list) option" where
  "read32 tag b =
     (if length b < 5 \<or> hd b \<noteq> tag \<or> (\<exists>x \<in> set (take 4 (drop 1 b)). x > 255) then None
      else Some (of_be32 (take 4 (drop 1 b)), drop 5 b))"

definition read_blob :: "nat \<Rightarrow> nat list \<Rightarrow> (nat list \<times> nat list) option" where
  "read_blob tag b = (case read32 tag b of
     Some (n, r) \<Rightarrow> if n \<le> length r then Some (take n r, drop n r) else None | None \<Rightarrow> None)"

definition wide_msgp :: msgp where
  "wide_msgp = \<lparr>
     ReadMapHeaderBytes = (\<lambda>b. case read32 223 b of Some (n, r) \<Rightarrow> (n, r, None) | None \<Rightarrow> (0, b, Some (ErrorsNew ''msgp''))),
     ReadMapKeyZC = (\<lambda>b. case read_blob 219 b of Some (k, r) \<Rightarrow> (k, r, None) | None \<Rightarrow> ([], b, Some (ErrorsNew ''msgp''))),
     ReadBytesZC = (\<lambda>b. case read_blob 198 b of Some (v, r) \<Rightarrow> (Some v, r, None) | None \<Rightarrow> (None, b, Some (ErrorsNew ''msgp''))),
     EncMapHeader = (\<lambda>n. 223 # be32 n),
     EncString = (\<lambda>k. 219 # be32 (length k) @ k),
     EncBytes = (\<lambda>v. 198 # be32 (length v) @ v)\<rparr>"

lemma read32_be32: "n < 2 ^ 32 \<Longrightarrow> read32 tag (tag # be32 n @ r) = Some (n, r)"
proof -
  assume n: "n < 2 ^ 32"
  have "of_be32 (be32 n) = n"
  proof -
    have q: "n div 65536 = n div 256 div 256" "n div 16777216 = n div 256 div 256 div 256"
      using div_mult2_eq [of n 256 256] div_mult2_eq [of n "256 * 256" 256] by simp_all
    have top: "n div 16777216 mod 256 = n div 16777216" using n by simp
    have join: "((c * 256 + y) * 256 + x) * 256 + w = n"
      if "a * 256 + w = n" "b * 256 + x = a" "c * 256 + y = b" for a b c w x y :: nat
      using that by simp
    have "((n div 256 div 256 div 256 * 256 + n div 256 div 256 mod 256) * 256 + n div 256 mod 256) * 256 + n mod 256 = n"
      by (rule join) (rule div_mult_mod_eq)+
    then show ?thesis using top unfolding of_be32_def be32_def by (simp add: q)
  qed
  moreover have "\<not> 255 < m mod 256" for m :: nat by (simp add: not_less less_Suc_eq_le [symmetric])
  ultimately show ?thesis by (simp add: read32_def be32_def)
qed

lemma read32_bounds: "read32 tag b = Some (n, r) \<Longrightarrow> n < 2 ^ 32 \<and> length r \<le> length b"
proof -
  assume a: "read32 tag b = Some (n, r)"
  define c where "c = take 4 (drop 1 b)"
  have l: "length c = 4" and s: "\<forall>x \<in> set c. x \<le> 255" and n: "n = of_be32 c" and r: "length r \<le> length b"
    using a by (auto simp: read32_def c_def not_less split: if_splits)
  have "c ! i \<le> 255" if "i < 4" for i using s l that by (metis nth_mem)
  then have "c ! 0 \<le> 255" "c ! 1 \<le> 255" "c ! 2 \<le> 255" "c ! 3 \<le> 255" by simp_all
  then have "n < 2 ^ 32" unfolding n of_be32_def by simp
  then show ?thesis using r by simp
qed

lemma read_blob_enc: "length k < 2 ^ 32 \<Longrightarrow> read_blob tag (tag # be32 (length k) @ k @ r) = Some (k, r)"
  using read32_be32 [of "length k" tag "k @ r"] by (simp add: read_blob_def)

lemma read_blob_bounds: "read_blob tag b = Some (k, r) \<Longrightarrow> length k \<le> length b \<and> length r \<le> length b"
  using read32_bounds by (fastforce simp: read_blob_def split: option.splits if_splits)

lemma wide_msgp_laws: "msgp_laws wide_msgp"
  unfolding msgp_laws_def
  by (auto simp: wide_msgp_def read32_be32 read_blob_enc val_bytes_def split: option.splits
      dest: read32_bounds read_blob_bounds) (simp add: read32_def)

theorem inline_refines_alist_witness:
  "\<exists>x x'. inline_rep wide_msgp x [([110], [1, 2])] \<and> inline_find wide_msgp x [110] = Some [1, 2] \<and>
     inline_replace wide_msgp x [110] [3] = Some x' \<and> inline_rep wide_msgp x' [([110], [3])]"
proof -
  let ?x = "serial wide_msgp [([110], [1, 2])]"
  have r: "inline_rep wide_msgp ?x [([110], [1, 2])]" by (simp add: inline_rep_def fits32_def)
  show ?thesis
    using inline_refines_alist [OF wide_msgp_laws r, of "[110]" "[3]" "[110]"] r by auto
qed

end
