(* ===== verification/Go_Hash.thy ===== *)
theory Go_Hash
  imports Obstor_Prelude "HOL-Library.Word"
begin

text \<open>
  The hash functions of the Go standard library that the code calls: \<^verbatim>\<open>hash/crc32\<close> with the IEEE
  table, \<^verbatim>\<open>crypto/sha256\<close> and \<^verbatim>\<open>encoding/hex\<close>. Bytes are numbers below 256.
\<close>

unbundle bit_operations_syntax

subsection \<open>CRC-32\<close>

text \<open>\<open>crc32.Checksum(\<dots>, crc32.IEEETable)\<close>, the bitwise form with the reversed polynomial.\<close>

definition crc_bit :: "32 word \<Rightarrow> 32 word" where
  "crc_bit c = (if c AND 1 = 1 then drop_bit 1 c XOR 0xEDB88320 else drop_bit 1 c)"

definition crc_byte :: "nat \<Rightarrow> 32 word \<Rightarrow> 32 word" where
  "crc_byte b c = (crc_bit ^^ 8) (c XOR of_nat b)"

definition crc32_IEEE :: "nat list \<Rightarrow> 32 word" where
  "crc32_IEEE bs = NOT (fold crc_byte bs (NOT 0))"

subsection \<open>SHA-256\<close>

definition rotr :: "nat \<Rightarrow> 32 word \<Rightarrow> 32 word" where
  "rotr n x = drop_bit n x OR push_bit (32 - n) x"

text \<open>
  The constants are the first 32 bits of the fractional parts of the cube roots of the first 64
  primes and of the square roots of the first 8, computed bit by bit from the top.
\<close>

fun root_bits :: "nat \<Rightarrow> nat \<Rightarrow> nat \<Rightarrow> nat \<Rightarrow> nat" where
  "root_bits k n 0 acc = acc"
| "root_bits k n (Suc b) acc =
     root_bits k n b (if (acc + 2 ^ b) ^ k \<le> n then acc + 2 ^ b else acc)"

definition sha_primes :: "nat list" where
  "sha_primes = filter (\<lambda>p. \<forall>d \<in> set [2..<p]. p mod d \<noteq> 0) [2..<312]"

definition sha_K :: "32 word list" where
  "sha_K = map (\<lambda>p. of_nat (root_bits 3 (p * 2 ^ 96) 40 0)) sha_primes"

definition sha_H0 :: "32 word list" where
  "sha_H0 = map (\<lambda>p. of_nat (root_bits 2 (p * 2 ^ 64) 40 0)) [2, 3, 5, 7, 11, 13, 17, 19]"

definition be_word :: "nat list \<Rightarrow> 32 word" where
  "be_word bs = fold (\<lambda>b w. push_bit 8 w OR of_nat b) bs 0"

fun groups_of :: "nat \<Rightarrow> 'a list \<Rightarrow> 'a list list" where
  "groups_of n xs = (if n = 0 \<or> xs = [] then [] else take n xs # groups_of n (drop n xs))"

declare groups_of.simps [simp del]

definition be_bytes :: "nat \<Rightarrow> nat \<Rightarrow> nat list" where
  "be_bytes k n = map (\<lambda>i. n div 256 ^ (k - 1 - i) mod 256) [0..<k]"

definition sha_pad :: "nat list \<Rightarrow> nat list" where
  "sha_pad bs =
     bs @ [128] @ replicate ((119 - length bs mod 64) mod 64) 0 @ be_bytes 8 (8 * length bs)"

definition sha_next :: "32 word list \<Rightarrow> 32 word" where
  "sha_next w =
     (let n = length w; a = w ! (n - 2); b = w ! (n - 15);
          s1 = rotr 17 a XOR rotr 19 a XOR drop_bit 10 a;
          s0 = rotr 7 b XOR rotr 18 b XOR drop_bit 3 b
      in s1 + w ! (n - 7) + s0 + w ! (n - 16))"

definition sha_schedule :: "nat list \<Rightarrow> 32 word list" where
  "sha_schedule chunk = ((\<lambda>w. w @ [sha_next w]) ^^ 48) (map be_word (groups_of 4 chunk))"

definition sha_round :: "32 word \<times> 32 word \<Rightarrow> 32 word list \<Rightarrow> 32 word list" where
  "sha_round kw s =
     (let a = s ! 0; b = s ! 1; c = s ! 2; d = s ! 3; e = s ! 4; f = s ! 5; g = s ! 6; h = s ! 7;
          t1 = h + (rotr 6 e XOR rotr 11 e XOR rotr 25 e) + ((e AND f) XOR (NOT e AND g))
                 + fst kw + snd kw;
          t2 = (rotr 2 a XOR rotr 13 a XOR rotr 22 a) + ((a AND b) XOR (a AND c) XOR (b AND c))
      in [t1 + t2, a, b, c, d + t1, e, f, g])"

definition sha_block :: "nat list \<Rightarrow> 32 word list \<Rightarrow> 32 word list" where
  "sha_block chunk hs = map2 (+) hs (fold sha_round (zip sha_K (sha_schedule chunk)) hs)"

definition sha256_Sum256 :: "nat list \<Rightarrow> nat list" where
  "sha256_Sum256 bs =
     concat (map (\<lambda>w. be_bytes 4 (unat w)) (fold sha_block (groups_of 64 (sha_pad bs)) sha_H0))"

subsection \<open>Hexadecimal\<close>

definition hex_digit :: "nat \<Rightarrow> char" where
  "hex_digit n = ''0123456789abcdef'' ! n"

definition hex_EncodeToString :: "nat list \<Rightarrow> string" where
  "hex_EncodeToString bs = concat (map (\<lambda>b. [hex_digit (b div 16), hex_digit (b mod 16)]) bs)"

lemma hex_EncodeToString_length [simp]: "length (hex_EncodeToString bs) = 2 * length bs"
  by (induction bs) (auto simp: hex_EncodeToString_def)

lemma be_bytes_length [simp]: "length (be_bytes k n) = k"
  by (simp add: be_bytes_def)

lemma be_bytes_bound: "b \<in> set (be_bytes k n) \<Longrightarrow> b < 256"
  by (auto simp: be_bytes_def)

lemma sha_round_length: "length s = 8 \<Longrightarrow> length (sha_round kw s) = 8"
  by (simp add: sha_round_def Let_def)

lemma sha_rounds_length: "length s = 8 \<Longrightarrow> length (fold sha_round kws s) = 8"
  by (induction kws arbitrary: s) (auto simp: sha_round_length)

lemma sha_blocks_length: "length s = 8 \<Longrightarrow> length (fold sha_block cs s) = 8"
  by (induction cs arbitrary: s) (auto simp: sha_block_def sha_rounds_length)

lemma sha256_length [simp]: "length (sha256_Sum256 bs) = 32"
proof -
  have "length (fold sha_block cs sha_H0) = 8" for cs
    by (rule sha_blocks_length) (simp add: sha_H0_def)
  then show ?thesis
    by (simp add: sha256_Sum256_def length_concat comp_def sum_list_triv)
qed

lemma sha256_byte: "b \<in> set (sha256_Sum256 bs) \<Longrightarrow> b < 256"
  by (auto simp: sha256_Sum256_def dest: be_bytes_bound)

definition hex_char :: "char \<Rightarrow> bool" where
  "hex_char c \<longleftrightarrow> (48 \<le> byte_of c \<and> byte_of c \<le> 57) \<or> (97 \<le> byte_of c \<and> byte_of c \<le> 102)"

lemma hex_digit_hex: "n < 16 \<Longrightarrow> hex_char (hex_digit n)"
proof -
  assume "n < 16"
  moreover have "\<forall>c \<in> set ''0123456789abcdef''. hex_char c"
    by (simp add: hex_char_def byte_of_def)
  moreover have "length ''0123456789abcdef'' = 16" by simp
  ultimately show ?thesis
    unfolding hex_digit_def by (metis nth_mem)
qed

lemma hex_EncodeToString_hex:
  "\<forall>b \<in> set bs. b < 256 \<Longrightarrow> c \<in> set (hex_EncodeToString bs) \<Longrightarrow> hex_char c"
  by (auto simp: hex_EncodeToString_def intro!: hex_digit_hex)

end
