(* ===== verification/Drive_Quorum.thy ===== *)
theory Drive_Quorum
  imports File_Info Go_Hash
begin

text \<open>
  Agreement between the drives of an erasure set: \<^verbatim>\<open>cmd/erasure-metadata-utils.go\<close> (reduction of
  the per-drive errors, distribution order, shuffling), \<^verbatim>\<open>cmd/erasure-healing-common.go\<close> (the
  commonly seen modification time, the latest metadata) and the quorums of
  \<^verbatim>\<open>cmd/erasure-metadata.go\<close>, \<^verbatim>\<open>cmd/config/storageclass\<close> and \<^verbatim>\<open>cmd/config/replication\<close>.
\<close>

subsection \<open>Reducing the errors of the drives\<close>

definition IsErr :: "goerr option \<Rightarrow> goerr list \<Rightarrow> bool" where
  "IsErr err errs = (case err of None \<Rightarrow> False | Some e \<Rightarrow> list_ex (errors_is e) errs)"

definition IsErrIgnored :: "goerr option \<Rightarrow> goerr list \<Rightarrow> bool" where
  "IsErrIgnored err ignoredErrs = IsErr err ignoredErrs"

definition objectOpIgnoredErrs :: "goerr list" where
  "objectOpIgnoredErrs =
     [errDiskNotFound, errFaultyDisk, errFaultyRemoteDisk, errDiskAccessDenied, errUnformattedDisk]"

definition counted_errs :: "goerr option list \<Rightarrow> goerr list \<Rightarrow> goerr option list" where
  "counted_errs errs ignoredErrs = filter (\<lambda>err. \<not> IsErrIgnored err ignoredErrs) errs"

fun max_err ::
  "(goerr option \<Rightarrow> nat) \<Rightarrow> goerr option list \<Rightarrow> nat \<times> goerr option \<Rightarrow> nat \<times> goerr option" where
  "max_err counts [] acc = acc"
| "max_err counts (err # errs) (mx, maxErr) =
     max_err counts errs
       (if mx < counts err then (counts err, err)
        else if mx = counts err \<and> err = None then (mx, err)
        else (mx, maxErr))"

definition reduceErrs ::
  "(goerr option list \<Rightarrow> goerr option list) \<Rightarrow> goerr option list \<Rightarrow> goerr list \<Rightarrow> nat \<times> goerr option"
where
  "reduceErrs ord errs ignoredErrs =
     max_err (count_list (counted_errs errs ignoredErrs))
       (ord (remdups (counted_errs errs ignoredErrs))) (0, None)"

definition reduceQuorumErrs ::
  "(goerr option list \<Rightarrow> goerr option list) \<Rightarrow> goerr option list \<Rightarrow> goerr list \<Rightarrow> nat \<Rightarrow>
     goerr option \<Rightarrow> goerr option"
where
  "reduceQuorumErrs ord errs ignoredErrs quorum quorumErr =
     (case reduceErrs ord errs ignoredErrs of
        (maxCount, maxErr) \<Rightarrow> if maxCount \<ge> quorum then maxErr else quorumErr)"

definition reduceReadQuorumErrs ::
  "(goerr option list \<Rightarrow> goerr option list) \<Rightarrow> goerr option list \<Rightarrow> goerr list \<Rightarrow> nat \<Rightarrow> goerr option"
where
  "reduceReadQuorumErrs ord errs ignoredErrs readQuorum =
     reduceQuorumErrs ord errs ignoredErrs readQuorum (Some errErasureReadQuorum)"

definition reduceWriteQuorumErrs ::
  "(goerr option list \<Rightarrow> goerr option list) \<Rightarrow> goerr option list \<Rightarrow> goerr list \<Rightarrow> nat \<Rightarrow> goerr option"
where
  "reduceWriteQuorumErrs ord errs ignoredErrs writeQuorum =
     reduceQuorumErrs ord errs ignoredErrs writeQuorum (Some errErasureWriteQuorum)"

lemma counted_errs_nil: "count_list (counted_errs errs ign) None = count_list errs None"
  by (simp add: counted_errs_def count_list_filter IsErrIgnored_def IsErr_def)

text \<open>The scan keeps the largest count, with \<open>nil\<close> winning every tie.\<close>

lemma max_err_spec:
  assumes "max_err counts ks (m0, e0) = (m, e)"
  shows "m0 \<le> m \<and> (\<forall>k \<in> set ks. counts k \<le> m) \<and>
    ((m = m0 \<and> e = e0) \<or> (e \<in> set ks \<and> counts e = m)) \<and>
    (m = m0 \<longrightarrow> e = e0 \<or> e = None) \<and>
    (None \<in> set ks \<and> counts None = m \<longrightarrow> e = None)"
  using assms
proof (induction ks arbitrary: m0 e0)
  case Nil
  then show ?case by simp
next
  case (Cons k ks)
  consider (up) "m0 < counts k" | (tie) "m0 = counts k" "k = None"
    | (skip) "\<not> m0 < counts k" "\<not> (m0 = counts k \<and> k = None)" by blast
  then show ?case
  proof cases
    case up
    with Cons.prems have "max_err counts ks (counts k, k) = (m, e)" by simp
    from Cons.IH [OF this] up show ?thesis by auto
  next
    case tie
    with Cons.prems have "max_err counts ks (m0, None) = (m, e)" by simp
    from Cons.IH [OF this] tie show ?thesis by auto
  next
    case skip
    with Cons.prems have "max_err counts ks (m0, e0) = (m, e)" by auto
    from Cons.IH [OF this] skip show ?thesis by auto
  qed
qed

lemma reduceErrs_spec:
  assumes "map_order ord" and "reduceErrs ord errs ign = (m, e)"
  shows "(\<forall>x. count_list (counted_errs errs ign) x \<le> m)"
    and "m > 0 \<Longrightarrow> count_list (counted_errs errs ign) e = m"
    and "m > 0 \<Longrightarrow> count_list errs None = m \<Longrightarrow> e = None"
proof -
  let ?c = "count_list (counted_errs errs ign)"
  let ?ks = "ord (remdups (counted_errs errs ign))"
  have set: "set ?ks = set (counted_errs errs ign)" using assms(1) by simp
  have eq: "max_err ?c ?ks (0, None) = (m, e)"
    using assms(2) by (simp add: reduceErrs_def)
  note spec = max_err_spec [OF eq]
  show "\<forall>x. ?c x \<le> m"
  proof
    fix x
    show "?c x \<le> m"
      using spec set count_list_pos_iff [of "counted_errs errs ign" x] by (cases "?c x = 0") auto
  qed
  show "m > 0 \<Longrightarrow> ?c e = m" using spec by auto
  show "m > 0 \<Longrightarrow> count_list errs None = m \<Longrightarrow> e = None"
    using spec set counted_errs_nil [of errs ign]
      count_list_pos_iff [of "counted_errs errs ign" None] by auto
qed

lemma reduceQuorumErrs_nil:
  assumes "map_order ord" and "0 < quorum" and "length errs \<le> 2 * quorum"
  shows "reduceQuorumErrs ord errs ign quorum (Some qerr) = None \<longleftrightarrow>
    quorum \<le> count_list errs None"
proof -
  obtain m e where r: "reduceErrs ord errs ign = (m, e)" by (cases "reduceErrs ord errs ign")
  note spec = reduceErrs_spec [OF assms(1) r]
  have nil_le: "count_list errs None \<le> m"
    using spec(1) counted_errs_nil [of errs ign] by (metis)
  show ?thesis
  proof
    assume "reduceQuorumErrs ord errs ign quorum (Some qerr) = None"
    then have "quorum \<le> m" and "e = None"
      by (auto simp: reduceQuorumErrs_def r split: if_splits)
    with spec(2) assms(2) show "quorum \<le> count_list errs None"
      by (simp add: counted_errs_nil)
  next
    assume q: "quorum \<le> count_list errs None"
    with nil_le assms(2) have "0 < m" by simp
    have "e = None"
    proof (rule ccontr)
      assume "e \<noteq> None"
      then have "count_list errs e + count_list errs None \<le> length errs"
        by (rule count_list_two)
      moreover have "m \<le> count_list errs e"
        using spec(2) [OF \<open>0 < m\<close>] count_list_filter_le
        by (metis counted_errs_def)
      ultimately have "count_list errs None = m" using q nil_le assms(3) by simp
      with spec(3) \<open>0 < m\<close> \<open>e \<noteq> None\<close> show False by simp
    qed
    with q nil_le show "reduceQuorumErrs ord errs ign quorum (Some qerr) = None"
      by (simp add: reduceQuorumErrs_def r)
  qed
qed

text \<open>
  With a quorum of at least half the drives, the reduced error of an operation is \<open>nil\<close>
  exactly when the operation succeeded on a quorum of the drives, whatever errors the others
  returned and in whatever order the map of error counts is visited.
\<close>

theorem reduceQuorumErrs_nil_iff:
  assumes "map_order ord" and "0 < quorum" and "length errs \<le> 2 * quorum"
  shows "reduceQuorumErrs ord errs ign quorum (Some qerr) = None \<longleftrightarrow>
    quorum \<le> count_list errs None"
  using assms by (rule reduceQuorumErrs_nil)

theorem reduceQuorumErrs_nil_iff_witness:
  "map_order rev \<and>
   reduceQuorumErrs rev [None, Some errFileNotFound, None, Some errFileNotFound]
     objectOpIgnoredErrs 2 (Some errErasureWriteQuorum) = None"
proof -
  have "map_order (rev :: goerr option list \<Rightarrow> goerr option list)" by simp
  moreover have "length [None, Some errFileNotFound, None, Some errFileNotFound] \<le> 2 * 2" by simp
  ultimately show ?thesis
    using reduceQuorumErrs_nil_iff [of rev 2
        "[None, Some errFileNotFound, None, Some errFileNotFound]"
        objectOpIgnoredErrs errErasureWriteQuorum]
    by simp
qed

text \<open>
  With a quorum above half the drives, the reduced error does not depend on the order in
  which the map of error counts is visited, as the comment on \<open>reduceErrs\<close> claims.
\<close>

theorem reduceQuorumErrs_order:
  assumes "map_order ord" and "map_order ord'" and "length errs < 2 * quorum"
  shows "reduceQuorumErrs ord errs ign quorum qerr = reduceQuorumErrs ord' errs ign quorum qerr"
proof -
  obtain m e where r: "reduceErrs ord errs ign = (m, e)" by (cases "reduceErrs ord errs ign")
  obtain m' e' where r': "reduceErrs ord' errs ign = (m', e')" by (cases "reduceErrs ord' errs ign")
  note spec = reduceErrs_spec [OF assms(1) r]
  note spec' = reduceErrs_spec [OF assms(2) r']
  have q: "0 < quorum" using assms(3) by simp
  have "m = m'"
  proof (cases "m = 0 \<or> m' = 0")
    case True
    then show ?thesis
      using spec(1,2) spec'(1,2) by (metis bot_nat_0.extremum_uniqueI not_gr_zero)
  next
    case False
    then show ?thesis using spec(1,2) spec'(1,2) by (metis le_antisym not_gr_zero)
  qed
  moreover have "e = e'" if "quorum \<le> m"
  proof (rule ccontr)
    assume "e \<noteq> e'"
    have "m > 0" using that q by simp
    with spec(2) spec'(2) \<open>m = m'\<close> have "count_list (counted_errs errs ign) e
        + count_list (counted_errs errs ign) e' = 2 * m" by simp
    then have "2 * m \<le> length (counted_errs errs ign)"
      using count_list_two [OF \<open>e \<noteq> e'\<close>] by metis
    also have "\<dots> \<le> length errs" by (simp add: counted_errs_def)
    finally show False using that assms(3) by simp
  qed
  ultimately show ?thesis by (auto simp: reduceQuorumErrs_def r r')
qed

theorem reduceQuorumErrs_order_witness:
  "reduceQuorumErrs (\<lambda>ks. ks) [Some errFileNotFound, Some errFileNotFound, None] [] 2 None =
   reduceQuorumErrs rev [Some errFileNotFound, Some errFileNotFound, None] [] 2 None"
  using reduceQuorumErrs_order [of "\<lambda>ks. ks" rev
      "[Some errFileNotFound, Some errFileNotFound, None]" 2 "[]" None]
  by simp

subsection \<open>Distribution order\<close>

definition hashOrder :: "string \<Rightarrow> int \<Rightarrow> int list" where
  "hashOrder key cardinality =
     (if cardinality \<le> 0 then []
      else
        let keyCrc = crc32_IEEE (map byte_of key);
            start = int (unat (keyCrc mod of_int cardinality))
        in map (\<lambda>i. 1 + ((start + int i) mod cardinality)) [1..<nat cardinality + 1])"


definition distribution_of :: "nat \<Rightarrow> int list \<Rightarrow> bool" where
  "distribution_of n d \<longleftrightarrow> length d = n \<and> distinct d \<and> set d = {1..int n}"

lemma mod_add_inj:
  fixes a n :: int
  assumes "(a + i) mod n = (a + j) mod n" and "1 \<le> i" and "i \<le> n" and "1 \<le> j" and "j \<le> n"
  shows "i = j"
proof -
  have "n dvd (a + i) - (a + j)" using assms(1) by (simp add: mod_eq_dvd_iff)
  then have "n dvd i - j" by (simp add: algebra_simps)
  moreover have "\<bar>i - j\<bar> < n" using assms(2-5) by linarith
  ultimately show ?thesis using zdvd_not_zless [of "\<bar>i - j\<bar>" n] by (cases "i = j") auto
qed

lemma hashOrder_distribution:
  assumes "0 \<le> n"
  shows "distribution_of (nat n) (hashOrder key n)"
proof (cases "n = 0")
  case True
  then show ?thesis by (simp add: hashOrder_def distribution_of_def)
next
  case False
  define st where "st = int (unat (crc32_IEEE (map byte_of key) mod of_int n))"
  let ?f = "\<lambda>i::nat. 1 + (st + int i) mod n"
  have n: "0 < n" using False assms by simp
  have eq: "hashOrder key n = map ?f [1..<nat n + 1]"
    using n by (simp add: hashOrder_def Let_def st_def)
  have "inj_on ?f {1..<nat n + 1}"
    by (rule inj_onI) (use n in \<open>auto dest!: mod_add_inj\<close>)
  then have d: "distinct (hashOrder key n)"
    unfolding eq by (simp only: distinct_map distinct_upt set_upt simp_thms)
  have sub: "set (hashOrder key n) \<subseteq> {1..n}"
  proof -
    have "1 + x mod n \<in> {1..n}" for x
      using pos_mod_bound [OF n, of x] pos_mod_sign [OF n, of x] by simp
    then show ?thesis unfolding eq by auto
  qed
  have l: "length (hashOrder key n) = nat n" unfolding eq by simp
  have "card (set (hashOrder key n)) = card {1..n}"
    using distinct_card [OF d] l n by simp
  then have "set (hashOrder key n) = {1..n}"
    using sub by (simp add: card_subset_eq)
  with d l n show ?thesis by (simp add: distribution_of_def)
qed


subsection \<open>Shuffling drives and metadata\<close>

text \<open>A \<open>StorageAPI\<close> that may be \<open>nil\<close> is \<open>'d option\<close>. The loop common to the two shuffles:\<close>

fun scatter :: "nat \<Rightarrow> int list \<Rightarrow> 'a list \<Rightarrow> 'a list \<Rightarrow> 'a list option" where
  "scatter index distribution [] shuffled = Some shuffled"
| "scatter index distribution (x # xs) shuffled = do {
     blockIndex \<leftarrow> go_nth distribution (int index);
     shuffled' \<leftarrow> go_set shuffled (blockIndex - 1) x;
     scatter (Suc index) distribution xs shuffled'
   }"

definition diskCount :: "'d option list \<Rightarrow> nat" where
  "diskCount disks = length (filter (\<lambda>d. d \<noteq> None) disks)"

definition shuffleDisks :: "'d option list \<Rightarrow> int list option \<Rightarrow> 'd option list option" where
  "shuffleDisks disks distribution =
     (case distribution of
        None \<Rightarrow> Some disks
      | Some d \<Rightarrow> scatter 0 d disks (replicate (length disks) None))"

definition shufflePartsMetadata :: "FileInfo list \<Rightarrow> int list option \<Rightarrow> FileInfo list option" where
  "shufflePartsMetadata partsMetadata distribution =
     (case distribution of
        None \<Rightarrow> Some partsMetadata
      | Some d \<Rightarrow> scatter 0 d partsMetadata (replicate (length partsMetadata) empty_FileInfo))"

definition evalDisks :: "'d option list \<Rightarrow> goerr option list \<Rightarrow> 'd option list" where
  "evalDisks disks errs =
     (if length errs \<noteq> length disks then []
      else map (\<lambda>(disk, err). if err = None then disk else None) (zip disks errs))"

text \<open>The loop of \<open>shuffleDisksAndPartsMetadata\<close> over the remaining metadata.\<close>

fun shuffle_both :: "bool \<Rightarrow> FileInfo \<Rightarrow> 'd option list \<Rightarrow> nat \<Rightarrow> FileInfo list \<Rightarrow>
    'd option list \<times> FileInfo list \<Rightarrow> ('d option list \<times> FileInfo list) option" where
  "shuffle_both init fi disks index [] acc = Some acc"
| "shuffle_both init fi disks index (meta # metas) (shuffledDisks, shuffledMeta) = do {
     disk \<leftarrow> go_nth disks (int index);
     if disk = None then shuffle_both init fi disks (Suc index) metas (shuffledDisks, shuffledMeta)
     else if \<not> init \<and> \<not> FileInfo_IsValid meta
       then shuffle_both init fi disks (Suc index) metas (shuffledDisks, shuffledMeta)
     else if \<not> init \<and> length (fi_Data fi) \<noteq> length (fi_Data meta)
       then shuffle_both init fi disks (Suc index) metas (shuffledDisks, shuffledMeta)
     else do {
       blockIndex \<leftarrow> go_nth (er_Distribution (fi_Erasure fi)) (int index);
       shuffledMeta' \<leftarrow> go_set shuffledMeta (blockIndex - 1) meta;
       shuffledDisks' \<leftarrow> go_set shuffledDisks (blockIndex - 1) disk;
       shuffle_both init fi disks (Suc index) metas (shuffledDisks', shuffledMeta')
     }
   }"

definition shuffleDisksAndPartsMetadata ::
  "'d option list \<Rightarrow> FileInfo list \<Rightarrow> FileInfo \<Rightarrow> ('d option list \<times> FileInfo list) option" where
  "shuffleDisksAndPartsMetadata disks partsMetadata fi =
     shuffle_both (fi_ModTime fi = zero_time) fi disks 0 partsMetadata
       (replicate (length disks) None, replicate (length partsMetadata) empty_FileInfo)"

text \<open>The loop of the variant by index, with the counter of inconsistent entries.\<close>

fun shuffle_by_index :: "FileInfo \<Rightarrow> 'd option list \<Rightarrow> nat \<Rightarrow> FileInfo list \<Rightarrow>
    int \<times> 'd option list \<times> FileInfo list \<Rightarrow> (int \<times> 'd option list \<times> FileInfo list) option" where
  "shuffle_by_index fi disks i [] acc = Some acc"
| "shuffle_by_index fi disks i (meta # metas) (inconsistent, shuffledDisks, shuffledMeta) = do {
     disk \<leftarrow> go_nth disks (int i);
     if disk = None \<or> \<not> FileInfo_IsValid meta \<or> length (fi_Data fi) \<noteq> length (fi_Data meta)
     then shuffle_by_index fi disks (Suc i) metas (inconsistent + 1, shuffledDisks, shuffledMeta)
     else do {
       d \<leftarrow> go_nth (er_Distribution (fi_Erasure fi)) (int i);
       if d \<noteq> er_Index (fi_Erasure meta)
       then shuffle_by_index fi disks (Suc i) metas (inconsistent + 1, shuffledDisks, shuffledMeta)
       else do {
         shuffledDisks' \<leftarrow> go_set shuffledDisks (er_Index (fi_Erasure meta) - 1) disk;
         shuffledMeta' \<leftarrow> go_set shuffledMeta (er_Index (fi_Erasure meta) - 1) meta;
         shuffle_by_index fi disks (Suc i) metas (inconsistent, shuffledDisks', shuffledMeta')
       }
     }
   }"

definition shuffleDisksAndPartsMetadataByIndex ::
  "'d option list \<Rightarrow> FileInfo list \<Rightarrow> FileInfo \<Rightarrow> ('d option list \<times> FileInfo list) option" where
  "shuffleDisksAndPartsMetadataByIndex disks metaArr fi = do {
     (inconsistent, shuffledDisks, shuffledMeta) \<leftarrow>
       shuffle_by_index fi disks 0 metaArr
         (0, replicate (length disks) None, replicate (length disks) empty_FileInfo);
     if inconsistent < er_ParityBlocks (fi_Erasure fi) then Some (shuffledDisks, shuffledMeta)
     else shuffleDisksAndPartsMetadata disks metaArr fi
   }"

subsection \<open>Placement of drives\<close>

text \<open>The slots filled so far: entry \<open>i\<close> of the input stands where the distribution puts it.\<close>

definition scattered :: "int list \<Rightarrow> 'a list \<Rightarrow> nat \<Rightarrow> 'a list \<Rightarrow> bool" where
  "scattered d xs k ys \<longleftrightarrow> length ys = length xs \<and> (\<forall>i < k. ys ! nat (d ! i - 1) = xs ! i)"

lemma distribution_nth:
  assumes "distribution_of n d" and "i < n"
  shows "1 \<le> d ! i" and "d ! i \<le> int n" and "nat (d ! i - 1) < n"
proof -
  have "d ! i \<in> {1..int n}" using assms by (metis distribution_of_def nth_mem)
  then show "1 \<le> d ! i" and "d ! i \<le> int n" and "nat (d ! i - 1) < n" by auto
qed

lemma distribution_inj:
  assumes "distribution_of n d" and "i < n" and "j < n" and "nat (d ! i - 1) = nat (d ! j - 1)"
  shows "i = j"
proof -
  have "d ! i = d ! j"
    using assms(4) distribution_nth(1) [OF assms(1,2)] distribution_nth(1) [OF assms(1,3)] by simp
  with assms(1-3) show ?thesis by (simp add: distribution_of_def nth_eq_iff_index_eq)
qed

lemma scattered_step:
  assumes "distribution_of (length xs) d" and "k < length xs" and "scattered d xs k ys"
  shows "scattered d xs (Suc k) (ys[nat (d ! k - 1) := xs ! k])"
proof -
  have l: "length ys = length xs" and s: "\<forall>i < k. ys ! nat (d ! i - 1) = xs ! i"
    using assms(3) by (auto simp: scattered_def)
  have "ys[nat (d ! k - 1) := xs ! k] ! nat (d ! i - 1) = xs ! i" if "i < Suc k" for i
  proof (cases "i = k")
    case True
    then show ?thesis using l distribution_nth(3) [OF assms(1,2)] by simp
  next
    case False
    with that assms(2) have "i < k" and "i < length xs" by auto
    then have "nat (d ! i - 1) \<noteq> nat (d ! k - 1)"
      using distribution_inj [OF assms(1) _ assms(2)] by auto
    then show ?thesis using s \<open>i < k\<close> by simp
  qed
  with l show ?thesis by (simp add: scattered_def)
qed

lemma scatter_correct:
  assumes "distribution_of (length xs) d" and "k \<le> length xs" and "scattered d xs k ys"
  shows "\<exists>zs. scatter k d (drop k xs) ys = Some zs \<and> scattered d xs (length xs) zs"
  using assms(2,3)
proof (induction "length xs - k" arbitrary: k ys)
  case 0
  then show ?case by auto
next
  case (Suc m)
  then have k: "k < length xs" by simp
  have dk: "drop k xs = xs ! k # drop (Suc k) xs" using k by (simp add: Cons_nth_drop_Suc)
  have upd: "go_set ys (d ! k - 1) (xs ! k) = Some (ys[nat (d ! k - 1) := xs ! k])"
    using distribution_nth [OF assms(1) k] Suc.prems(2) by (simp add: go_set_def scattered_def)
  have "m = length xs - Suc k" "Suc k \<le> length xs" using Suc.hyps(2) k by auto
  then show ?case
    using Suc.hyps(1) [OF _ _ scattered_step [OF assms(1) k Suc.prems(2)]] assms(1) by (simp add: dk upd distribution_of_def)
qed

lemma mset_nth_image: "mset ys = image_mset ((!) ys) (mset_set {..<length ys})"
  by (metis map_nth mset_map mset_upt lessThan_atLeast0)

text \<open>Every slot is filled by exactly one entry.\<close>

lemma scattered_mset:
  assumes "distribution_of (length xs) d" and "scattered d xs (length xs) ys"
  shows "mset ys = mset xs"
proof -
  let ?n = "length xs"
  let ?f = "\<lambda>i. nat (d ! i - 1)"
  have inj: "inj_on ?f {..<?n}" by (rule inj_onI) (auto dest: distribution_inj [OF assms(1)])
  moreover have "?f ` {..<?n} \<subseteq> {..<?n}" using distribution_nth(3) [OF assms(1)] by auto
  ultimately have im: "?f ` {..<?n} = {..<?n}" by (simp add: card_image card_subset_eq)
  have l: "length ys = ?n" and s: "\<forall>i < ?n. ys ! ?f i = xs ! i"
    using assms(2) by (auto simp: scattered_def)
  have "mset ys = image_mset ((!) ys) (mset_set {..<?n})"
    using mset_nth_image [of ys] by (simp only: l)
  also have "\<dots> = image_mset ((!) ys) (image_mset ?f (mset_set {..<?n}))"
    by (simp only: image_mset_mset_set [OF inj] im)
  also have "\<dots> = image_mset ((!) xs) (mset_set {..<?n})"
    using s by (auto simp: multiset.map_comp comp_def intro!: image_mset_cong)
  also have "\<dots> = mset xs" by (rule mset_nth_image [symmetric])
  finally show ?thesis .
qed

text \<open>
  The order computed from an object name is a permutation of the drive positions 1 to n, and
  shuffling the drives of a set by it does not panic, puts drive i at the slot that the order gives
  it, and neither loses nor repeats a drive.
\<close>

theorem shuffleDisks_hashOrder:
  "distribution_of (length disks) (hashOrder key (int (length disks))) \<and>
    (\<exists>s. shuffleDisks disks (Some (hashOrder key (int (length disks)))) = Some s \<and>
      mset s = mset disks \<and>
      (\<forall>i < length disks. s ! nat (hashOrder key (int (length disks)) ! i - 1) = disks ! i))"
proof -
  let ?d = "hashOrder key (int (length disks))"
  have d: "distribution_of (length disks) ?d"
    using hashOrder_distribution [of "int (length disks)" key] by simp
  have "scattered ?d disks 0 (replicate (length disks) None)" by (simp add: scattered_def)
  from scatter_correct [OF d _ this] obtain s
    where "shuffleDisks disks (Some ?d) = Some s" and "scattered ?d disks (length disks) s"
    by (auto simp: shuffleDisks_def)
  then show ?thesis using d scattered_mset [OF d] by (auto simp: scattered_def)
qed

theorem shuffleDisks_hashOrder_witness:
  "distribution_of 3 (hashOrder ''object'' 3) \<and>
   (\<exists>s. shuffleDisks [Some 1, None, Some (3::nat)] (Some (hashOrder ''object'' 3)) = Some s \<and>
      mset s = mset [Some 1, None, Some (3::nat)])"
  using shuffleDisks_hashOrder [of "[Some 1, None, Some (3::nat)]" "''object''"] by (auto simp: numeral_3_eq_3)


subsection \<open>Placement during reads\<close>

text \<open>
  Every slot that holds a drive holds the drive and the metadata of one input position, at the
  place the distribution assigns to that position.
\<close>

definition placed :: "FileInfo \<Rightarrow> 'd option list \<Rightarrow> FileInfo list \<Rightarrow> 'd option list \<Rightarrow>
    FileInfo list \<Rightarrow> bool" where
  "placed fi disks metas sd sm \<longleftrightarrow>
     (\<forall>j < length sd. sd ! j \<noteq> None \<longrightarrow>
        (\<exists>i < length metas. i < length disks \<and> sd ! j = disks ! i \<and>
           j < length sm \<and> sm ! j = metas ! i \<and>
           er_Distribution (fi_Erasure fi) ! i = int j + 1))"

lemma placed_empty [simp]: "placed fi disks metas (replicate n None) sm"
  by (simp add: placed_def)

lemma placed_update:
  assumes "placed fi disks metas sd sm" and "go_set sd (b - 1) disk = Some sd'"
    and "go_set sm (b - 1) meta = Some sm'" and "i < length metas" and "i < length disks"
    and "disks ! i = disk" and "metas ! i = meta" and "er_Distribution (fi_Erasure fi) ! i = b"
  shows "placed fi disks metas sd' sm'"
  unfolding placed_def
proof (intro allI impI)
  fix j
  assume j: "j < length sd'" "sd' ! j \<noteq> None"
  note sd = go_set_SomeD [OF assms(2)] and sm = go_set_SomeD [OF assms(3)]
  show "\<exists>i < length metas. i < length disks \<and> sd' ! j = disks ! i \<and> j < length sm' \<and>
      sm' ! j = metas ! i \<and> er_Distribution (fi_Erasure fi) ! i = int j + 1"
  proof (cases "j = nat (b - 1)")
    case True
    then show ?thesis using sd sm assms(4-8) by (intro exI [of _ i]) auto
  next
    case False
    then show ?thesis using assms(1) j sd sm unfolding placed_def by fastforce
  qed
qed

lemma drop_Cons_nth: "drop i xs = y # ys \<Longrightarrow> i < length xs \<and> xs ! i = y \<and> ys = drop (Suc i) xs"
  by (metis Cons_nth_drop_Suc drop_eq_Nil leI list.inject list.simps(3))

lemma shuffle_both_placed:
  assumes "shuffle_both init fi disks i ms (sd, sm) = Some (sd', sm')" and "ms = drop i metas"
    and "placed fi disks metas sd sm"
  shows "placed fi disks metas sd' sm'"
  using assms
proof (induction ms arbitrary: i sd sm)
  case (Cons m ms)
  have i: "i < length metas" "metas ! i = m" "ms = drop (Suc i) metas"
    using drop_Cons_nth [OF Cons.prems(2) [symmetric]] by auto
  from Cons.prems(1) obtain disk where d: "i < length disks" "disks ! i = disk"
    by (auto simp: bind_eq_Some_conv split: if_splits)
  show ?case
  proof (cases "shuffle_both init fi disks (Suc i) ms (sd, sm) = Some (sd', sm')")
    case True
    then show ?thesis using Cons.IH i(3) Cons.prems(3) by blast
  next
    case False
    with Cons.prems(1) d obtain sd1 sm1 where
      "go_set sm (er_Distribution (fi_Erasure fi) ! i - 1) m = Some sm1"
      "go_set sd (er_Distribution (fi_Erasure fi) ! i - 1) disk = Some sd1"
      "shuffle_both init fi disks (Suc i) ms (sd1, sm1) = Some (sd', sm')"
      by (auto simp: bind_eq_Some_conv split: if_splits)
    then show ?thesis
      using Cons.IH [OF _ i(3)] placed_update [OF Cons.prems(3) _ _ i(1) d(1) d(2) i(2) refl]
      by blast
  qed
qed simp

lemma shuffle_by_index_placed:
  assumes "shuffle_by_index fi disks i ms (k, sd, sm) = Some (k', sd', sm')" and "ms = drop i metas"
    and "placed fi disks metas sd sm"
  shows "placed fi disks metas sd' sm'"
  using assms
proof (induction ms arbitrary: i k sd sm)
  case (Cons m ms)
  have i: "i < length metas" "metas ! i = m" "ms = drop (Suc i) metas"
    using drop_Cons_nth [OF Cons.prems(2) [symmetric]] by auto
  from Cons.prems(1) obtain disk where d: "i < length disks" "disks ! i = disk"
    by (auto simp: bind_eq_Some_conv split: if_splits)
  show ?case
  proof (cases "shuffle_by_index fi disks (Suc i) ms (k + 1, sd, sm) = Some (k', sd', sm')")
    case True
    then show ?thesis using Cons.IH i(3) Cons.prems(3) by blast
  next
    case False
    with Cons.prems(1) d obtain sd1 sm1 where
      e: "er_Distribution (fi_Erasure fi) ! i = er_Index (fi_Erasure m)" and
      "go_set sd (er_Index (fi_Erasure m) - 1) disk = Some sd1"
      "go_set sm (er_Index (fi_Erasure m) - 1) m = Some sm1"
      "shuffle_by_index fi disks (Suc i) ms (k, sd1, sm1) = Some (k', sd', sm')"
      by (auto simp: bind_eq_Some_conv split: if_splits)
    then show ?thesis
      using Cons.IH [OF _ i(3)] placed_update [OF Cons.prems(3) _ _ i(1) d(1) d(2) i(2) e]
      by blast
  qed
qed simp

text \<open>Neither loop panics when the distribution is a permutation of the slots.\<close>

lemma go_set_slot:
  assumes "distribution_of n d" and "i < n" and "length ys = n"
  shows "\<exists>zs. go_set ys (d ! i - 1) v = Some zs \<and> length zs = n"
  using distribution_nth [OF assms(1,2)] assms(3) by (simp add: go_set_def)

lemma shuffle_both_total:
  assumes "distribution_of (length disks) (er_Distribution (fi_Erasure fi))"
    and "i + length ms \<le> length disks" and "length sd = length disks" and "length sm = length disks"
  shows "\<exists>sd' sm'. shuffle_both init fi disks i ms (sd, sm) = Some (sd', sm') \<and>
    length sd' = length disks"
  using assms(2-)
proof (induction ms arbitrary: i sd sm)
  case (Cons m ms)
  let ?d = "er_Distribution (fi_Erasure fi)"
  have i: "i < length disks" "length ?d = length disks"
    using Cons.prems(1) assms(1) by (auto simp: distribution_of_def)
  obtain sd1 sm1 where "go_set sd (?d ! i - 1) (disks ! i) = Some sd1" "length sd1 = length disks"
    "go_set sm (?d ! i - 1) m = Some sm1" "length sm1 = length disks"
    using go_set_slot [OF assms(1) i(1)] Cons.prems(2,3) by metis
  then show ?case
    using Cons.IH [of "Suc i" sd sm] Cons.IH [of "Suc i" sd1 sm1] Cons.prems i
    by (cases init) auto
qed simp

lemma shuffle_by_index_total:
  assumes "distribution_of (length disks) (er_Distribution (fi_Erasure fi))"
    and "i + length ms \<le> length disks" and "length sd = length disks" and "length sm = length disks"
  shows "\<exists>k' sd' sm'. shuffle_by_index fi disks i ms (k, sd, sm) = Some (k', sd', sm') \<and>
    length sd' = length disks"
  using assms(2-)
proof (induction ms arbitrary: i k sd sm)
  case (Cons m ms)
  let ?d = "er_Distribution (fi_Erasure fi)"
  have i: "i < length disks" "length ?d = length disks"
    using Cons.prems(1) assms(1) by (auto simp: distribution_of_def)
  obtain sd1 sm1 where "go_set sd (?d ! i - 1) (disks ! i) = Some sd1" "length sd1 = length disks"
    "go_set sm (?d ! i - 1) m = Some sm1" "length sm1 = length disks"
    using go_set_slot [OF assms(1) i(1)] Cons.prems(2,3) by metis
  then show ?case
    using Cons.IH [of "Suc i" sd sm "k + 1"] Cons.IH [of "Suc i" sd1 sm1 k] Cons.prems i by auto
qed simp

lemma shuffleByIndex_total:
  assumes "distribution_of (length disks) (er_Distribution (fi_Erasure fi))"
    and "length metaArr = length disks"
  shows "\<exists>sd sm. shuffleDisksAndPartsMetadataByIndex disks metaArr fi = Some (sd, sm) \<and>
    length sd = length disks"
proof -
  obtain k sd sm where r: "shuffle_by_index fi disks 0 metaArr
      (0, replicate (length disks) None, replicate (length disks) empty_FileInfo) = Some (k, sd, sm)"
    "length sd = length disks"
    using shuffle_by_index_total [OF assms(1), of 0 metaArr "replicate (length disks) None"
        "replicate (length disks) empty_FileInfo" 0] assms(2) by auto
  obtain sd' sm' where "shuffleDisksAndPartsMetadata disks metaArr fi = Some (sd', sm')"
    "length sd' = length disks"
    using shuffle_both_total [OF assms(1), of 0 metaArr "replicate (length disks) None"
        "replicate (length disks) empty_FileInfo" "fi_ModTime fi = zero_time"] assms(2)
    unfolding shuffleDisksAndPartsMetadata_def by auto
  with r show ?thesis by (simp add: shuffleDisksAndPartsMetadataByIndex_def)
qed

lemma shuffleByIndex_placed:
  assumes "shuffleDisksAndPartsMetadataByIndex disks metaArr fi = Some (sd, sm)"
  shows "placed fi disks metaArr sd sm"
  using assms
  by (auto simp: shuffleDisksAndPartsMetadataByIndex_def shuffleDisksAndPartsMetadata_def
      bind_eq_Some_conv split: if_splits
      intro: shuffle_both_placed [where i = 0] shuffle_by_index_placed [where i = 0])


definition sample_FileInfo :: "int \<Rightarrow> FileInfo" where
  "sample_FileInfo i = empty_FileInfo\<lparr>fi_ModTime := 7, fi_DataDir := ''d'',
     fi_Erasure := empty_ErasureInfo\<lparr>er_DataBlocks := 2, er_ParityBlocks := 2, er_Index := i,
       er_Distribution := [2, 3, 4, 1]\<rparr>\<rparr>"

lemma sample_distribution: "distribution_of 4 (er_Distribution (fi_Erasure (sample_FileInfo i)))"
proof -
  have "{1..int 4} = {1, 2, 3, 4}" by auto
  then show ?thesis by (auto simp: sample_FileInfo_def distribution_of_def)
qed


end
