(* ===== verification/Quorum_Systems.thy ===== *)
theory Quorum_Systems
  imports Obstor_Prelude
begin

text \<open>
  The interface between the components that choose quorums (erasure coding, block replication,
  distributed locks) and what their users rely on: two quorums meet in a node. A configuration
  \<open>c\<close> has \<open>nodes c\<close> nodes; an operation that reaches \<open>readq c\<close> of them is a read, one that
  reaches \<open>writeq c\<close> is a write.
\<close>

lemma quorums_meet:
  assumes "finite U" and "R \<subseteq> U" and "W \<subseteq> U" and "card U < card R + card W"
  shows "R \<inter> W \<noteq> {}"
proof
  assume "R \<inter> W = {}"
  then have "card (R \<union> W) = card R + card W"
    using assms by (meson card_Un_disjoint finite_subset)
  moreover have "card (R \<union> W) \<le> card U"
    using assms by (intro card_mono) auto
  ultimately show False using assms(4) by simp
qed

locale quorum_system =
  fixes nodes :: "'c \<Rightarrow> nat" and readq :: "'c \<Rightarrow> nat" and writeq :: "'c \<Rightarrow> nat"
    and wf :: "'c \<Rightarrow> bool"
  assumes read_write: "wf c \<Longrightarrow> nodes c < readq c + writeq c"
    and write_write: "wf c \<Longrightarrow> nodes c < 2 * writeq c"
begin

lemma read_meets_write:
  assumes "wf c" and "finite U" and "card U = nodes c" and "R \<subseteq> U" and "W \<subseteq> U"
    and "readq c \<le> card R" and "writeq c \<le> card W"
  shows "R \<inter> W \<noteq> {}"
  using assms read_write [OF assms(1)] by (intro quorums_meet [of U]) auto

lemma write_meets_write:
  assumes "wf c" and "finite U" and "card U = nodes c" and "V \<subseteq> U" and "W \<subseteq> U"
    and "writeq c \<le> card V" and "writeq c \<le> card W"
  shows "V \<inter> W \<noteq> {}"
  using assms write_write [OF assms(1)] by (intro quorums_meet [of U]) auto

text \<open>
  Values written to a write quorum are seen by every read quorum: a register whose replicas in
  \<open>W\<close> all hold \<open>v\<close> gives \<open>v\<close> at some node of any read quorum.
\<close>

lemma read_sees_write:
  assumes "wf c" and "finite U" and "card U = nodes c" and "R \<subseteq> U" and "W \<subseteq> U"
    and "readq c \<le> card R" and "writeq c \<le> card W" and "\<forall>x \<in> W. store x = v"
  shows "\<exists>x \<in> R. store x = v"
  using read_meets_write [OF assms(1-7)] assms(8) by blast

end

end
