(* ===== verification/Storage_Class.thy ===== *)
theory Storage_Class
  imports Go_Strings Quorum_Systems "HOL-Library.Signed_Division"
begin

text \<open>
  The configuration that decides quorums: storage classes with their parity
  (\<^verbatim>\<open>cmd/config/storageclass/storage-class.go\<close>) and block replication
  (\<^verbatim>\<open>cmd/config/replication/config.go\<close>). Environment variables and the key-value store are read
  by the callers; the functions here take the strings found there.
\<close>

subsection \<open>Storage classes\<close>

record StorageClass =
  sc_Parity :: int

record StorageClassConfig =
  scc_Standard :: StorageClass
  scc_RRS :: StorageClass
  scc_DMA :: string

datatype sc_error =
    ErrTooManySections | ErrTooFewSections | ErrScheme string | ErrNotANumber
  | ErrSSParityLow | ErrRRSParityLow | ErrSSParityHigh | ErrRRSParityHigh | ErrSSBelowRRS | ErrDMA

definition RRS :: string where
  "RRS = ''REDUCED_REDUNDANCY''"

definition minParityDisks :: int where
  "minParityDisks = 2"

definition defaultRRSParity :: int where
  "defaultRRSParity = minParityDisks"

definition parseStorageClass :: "string \<Rightarrow> sc_error + StorageClass" where
  "parseStorageClass storageClassEnv =
     (case split_on CHR '':'' storageClassEnv of
        [scheme, parity] \<Rightarrow>
          if scheme \<noteq> ''EC'' then Inl (ErrScheme scheme)
          else (case Atoi parity of
                  None \<Rightarrow> Inl ErrNotANumber
                | Some p \<Rightarrow> Inr \<lparr>sc_Parity = p\<rparr>)
      | s \<Rightarrow> if length s > 2 then Inl ErrTooManySections else Inl ErrTooFewSections)"

definition StorageClass_String :: "StorageClass \<Rightarrow> string" where
  "StorageClass_String sc = (if sc_Parity sc \<noteq> 0 then ''EC:'' @ itoa (sc_Parity sc) else [])"

definition StorageClass_UnmarshalText :: "StorageClass \<Rightarrow> string \<Rightarrow> sc_error + StorageClass" where
  "StorageClass_UnmarshalText sc b =
     (if b = [] then Inr sc
      else case parseStorageClass b of
             Inl err \<Rightarrow> Inl err
           | Inr s \<Rightarrow> Inr (sc\<lparr>sc_Parity := sc_Parity s\<rparr>))"

definition ValidateParity :: "int \<Rightarrow> int \<Rightarrow> sc_error option" where
  "ValidateParity ssParity setDriveCount =
     (if ssParity > 0 \<and> ssParity < minParityDisks then Some ErrSSParityLow
      else if ssParity > setDriveCount sdiv 2 then Some ErrSSParityHigh
      else None)"

definition validateParity :: "int \<Rightarrow> int \<Rightarrow> int \<Rightarrow> sc_error option" where
  "validateParity ssParity rrsParity setDriveCount =
     (if ssParity > 0 \<and> ssParity < minParityDisks then Some ErrSSParityLow
      else if rrsParity > 0 \<and> rrsParity < minParityDisks then Some ErrRRSParityLow
      else if ssParity > setDriveCount sdiv 2 then Some ErrSSParityHigh
      else if rrsParity > setDriveCount sdiv 2 then Some ErrRRSParityHigh
      else if ssParity > 0 \<and> rrsParity > 0 \<and> ssParity < rrsParity then Some ErrSSBelowRRS
      else None)"

definition GetParityForSC :: "StorageClassConfig \<Rightarrow> string \<Rightarrow> int" where
  "GetParityForSC sCfg sc =
     (if TrimSpace_runes sc = runes RRS
      then (if sc_Parity (scc_RRS sCfg) = 0 then defaultRRSParity else sc_Parity (scc_RRS sCfg))
      else sc_Parity (scc_Standard sCfg))"

text \<open>
  \<open>LookupConfig\<close> after the three settings have been looked up: \<open>ssc\<close>, \<open>rrsc\<close> and \<open>dma\<close>.
\<close>

definition parse_optional :: "string \<Rightarrow> sc_error + StorageClass" where
  "parse_optional s = (if s \<noteq> [] then parseStorageClass s else Inr \<lparr>sc_Parity = 0\<rparr>)"

definition StorageClass_LookupConfig ::
  "string \<Rightarrow> string \<Rightarrow> string \<Rightarrow> int \<Rightarrow> sc_error + StorageClassConfig" where
  "StorageClass_LookupConfig ssc rrsc dma setDriveCount =
     (case parse_optional ssc of Inl err \<Rightarrow> Inl err | Inr standard \<Rightarrow>
      case parse_optional rrsc of Inl err \<Rightarrow> Inl err | Inr rrs0 \<Rightarrow>
        let rrs = (if sc_Parity rrs0 = 0 then rrs0\<lparr>sc_Parity := defaultRRSParity\<rparr> else rrs0);
            dma' = (if dma = [] then ''read+write'' else dma)
        in if dma' \<noteq> ''read+write'' \<and> dma' \<noteq> ''write'' then Inl ErrDMA
           else case validateParity (sc_Parity standard) (sc_Parity rrs) setDriveCount of
                  Some err \<Rightarrow> Inl err
                | None \<Rightarrow> Inr \<lparr>scc_Standard = standard, scc_RRS = rrs, scc_DMA = dma'\<rparr>)"

text \<open>
  The text form of a storage class reads back as the same class: printing a class and
  parsing the result gives the class, for every parity that fits the machine integer.
\<close>

theorem StorageClass_roundtrip:
  assumes "min_int64 \<le> sc_Parity sc" and "sc_Parity sc \<le> max_int64" and "sc_Parity sc0 = 0"
  shows "StorageClass_UnmarshalText sc0 (StorageClass_String sc) = Inr sc"
proof (cases "sc_Parity sc = 0")
  case True
  then show ?thesis
    using assms(3) by (simp add: StorageClass_String_def StorageClass_UnmarshalText_def)
next
  case False
  have "split_on CHR '':'' (''EC'' @ CHR '':'' # itoa (sc_Parity sc)) = [''EC'', itoa (sc_Parity sc)]"
    by (simp add: split_on_append split_on_no_sep digits_no_colon del: split_on.simps append.simps)
  then have "parseStorageClass (''EC:'' @ itoa (sc_Parity sc)) = Inr \<lparr>sc_Parity = sc_Parity sc\<rparr>"
    using assms by (simp add: parseStorageClass_def Atoi_itoa del: split_on.simps)
  then show ?thesis
    using False by (simp add: StorageClass_String_def StorageClass_UnmarshalText_def)
qed

theorem StorageClass_roundtrip_witness:
  "StorageClass_UnmarshalText \<lparr>sc_Parity = 0\<rparr> (StorageClass_String \<lparr>sc_Parity = 4\<rparr>) =
     Inr \<lparr>sc_Parity = 4\<rparr>"
  using StorageClass_roundtrip [of "\<lparr>sc_Parity = 4\<rparr>" "\<lparr>sc_Parity = 0\<rparr>"]
  by (simp add: min_int64_def max_int64_def)

lemma LookupConfig_parity:
  assumes "StorageClass_LookupConfig ssc rrsc dma n = Inr cfg"
  shows "2 * sc_Parity (scc_Standard cfg) \<le> n \<or> sc_Parity (scc_Standard cfg) \<le> 0"
    and "2 * sc_Parity (scc_RRS cfg) \<le> n \<or> sc_Parity (scc_RRS cfg) \<le> 0"
    and "sc_Parity (scc_RRS cfg) \<noteq> 0"
proof -
  have half: "p \<le> n sdiv 2 \<Longrightarrow> 2 * p \<le> n \<or> p \<le> 0" for p
    by (cases "0 \<le> n") (auto simp: signed_divide_int_def sgn_if split: if_splits)
  obtain standard rrs where c: "scc_Standard cfg = standard" "scc_RRS cfg = rrs"
    and v: "validateParity (sc_Parity standard) (sc_Parity rrs) n = None"
    and z: "sc_Parity rrs \<noteq> 0"
    using assms
    by (auto simp: StorageClass_LookupConfig_def Let_def defaultRRSParity_def minParityDisks_def
        split: sum.splits option.splits if_splits)
  then show "2 * sc_Parity (scc_Standard cfg) \<le> n \<or> sc_Parity (scc_Standard cfg) \<le> 0"
    and "2 * sc_Parity (scc_RRS cfg) \<le> n \<or> sc_Parity (scc_RRS cfg) \<le> 0"
    and "sc_Parity (scc_RRS cfg) \<noteq> 0"
    using half [of "sc_Parity standard"] half [of "sc_Parity rrs"]
    by (auto simp: validateParity_def split: if_splits)
qed

subsection \<open>Quorums of an erasure-coded object\<close>

text \<open>The computation that \<open>objectQuorumFromMeta\<close> and \<open>putObject\<close> share.\<close>

definition erasureQuorums :: "int \<Rightarrow> int \<Rightarrow> int \<times> int" where
  "erasureQuorums dataBlocks parityBlocks =
     (dataBlocks, if dataBlocks = parityBlocks then dataBlocks + 1 else dataBlocks)"

interpretation erasure_quorum: quorum_system
  "\<lambda>(d, p). nat (d + p)" "\<lambda>(d, p). nat (fst (erasureQuorums d p))"
  "\<lambda>(d, p). nat (snd (erasureQuorums d p))" "\<lambda>(d, p). 0 < d \<and> 0 \<le> p \<and> p \<le> d"
  by unfold_locales (auto simp: erasureQuorums_def)

subsection \<open>Block replication\<close>

record ReplicationConfig =
  rc_ReplicationFactor :: int
  rc_Consistency :: string
  rc_BlockSize :: int
  rc_Zone :: string
  rc_NodeCapacity :: int
  rc_SyncQueueSize :: int
  rc_SyncWorkers :: int
  rc_MaxSyncRetries :: int

definition WriteQuorum :: "ReplicationConfig \<Rightarrow> int" where
  "WriteQuorum c =
     (if rc_Consistency c = ''dangerous'' then 1
      else if rc_ReplicationFactor c \<le> 1 then 1
      else if rc_ReplicationFactor c = 2 then 2
      else rc_ReplicationFactor c sdiv 2 + 1)"

definition ReadQuorum :: "ReplicationConfig \<Rightarrow> int" where
  "ReadQuorum c =
     (if rc_Consistency c = ''dangerous'' \<or> rc_Consistency c = ''degraded'' then 1
      else if rc_ReplicationFactor c \<le> 2 then 1
      else rc_ReplicationFactor c sdiv 2 + 1)"

definition replication_consistent :: "ReplicationConfig \<Rightarrow> bool" where
  "replication_consistent c \<longleftrightarrow> 1 \<le> rc_ReplicationFactor c \<and> rc_Consistency c = ''consistent''"

interpretation replication_quorum: quorum_system
  "\<lambda>c. nat (rc_ReplicationFactor c)" "\<lambda>c. nat (ReadQuorum c)" "\<lambda>c. nat (WriteQuorum c)"
  replication_consistent
  by unfold_locales
    (auto simp: replication_consistent_def ReadQuorum_def WriteQuorum_def signed_divide_int_def)

text \<open>
  \<open>LookupConfig\<close> on the settings found in the key-value store or the environment. \<open>ParseBytes\<close> is
  the parser of \<^verbatim>\<open>github.com/dustin/go-humanize\<close>, a 64-bit unsigned number or an error; the
  conversion to \<open>int64\<close> wraps.
\<close>

record ReplicationSettings =
  rs_factor :: string
  rs_consistency :: string
  rs_block_size :: string
  rs_zone :: string
  rs_capacity :: string
  rs_queue :: string
  rs_workers :: string
  rs_retries :: string

datatype rc_error =
    ErrFactorInvalid | ErrFactorLow | ErrConsistency string | ErrBlockSizeInvalid | ErrBlockSizeLow
  | ErrBlockSizeHigh | ErrCapacity | ErrQueue | ErrWorkers | ErrRetries

definition or_default :: "string \<Rightarrow> string \<Rightarrow> string" where
  "or_default s d = (if s = [] then d else s)"

definition block_bytes :: "(string \<Rightarrow> nat option) \<Rightarrow> string \<Rightarrow> int option" where
  "block_bytes ParseBytes s =
     (case ParseBytes s of
        Some b \<Rightarrow> Some (to_int64 (int b))
      | None \<Rightarrow> (case Atoi s of None \<Rightarrow> None | Some bs \<Rightarrow> Some bs))"

definition check_number :: "string \<Rightarrow> int \<Rightarrow> rc_error \<Rightarrow> rc_error + int" where
  "check_number s least err =
     (case Atoi s of None \<Rightarrow> Inl err | Some n \<Rightarrow> if n < least then Inl err else Inr n)"

definition Replication_LookupConfig ::
  "(string \<Rightarrow> nat option) \<Rightarrow> ReplicationSettings \<Rightarrow> rc_error + ReplicationConfig" where
  "Replication_LookupConfig ParseBytes kvs =
     (case Atoi (or_default (rs_factor kvs) ''3'') of None \<Rightarrow> Inl ErrFactorInvalid | Some rf \<Rightarrow>
      if rf < 1 then Inl ErrFactorLow else
      let mode = or_default (rs_consistency kvs) ''consistent'' in
      if mode \<notin> {''consistent'', ''degraded'', ''dangerous''} then Inl (ErrConsistency mode) else
      case block_bytes ParseBytes (or_default (rs_block_size kvs) ''1048576'') of
        None \<Rightarrow> Inl ErrBlockSizeInvalid | Some bs \<Rightarrow>
      if bs < 64 * 1024 then Inl ErrBlockSizeLow else
      if bs > 64 * 1024 * 1024 then Inl ErrBlockSizeHigh else
      case (if rs_capacity kvs = [] then Some 0
            else map_option (\<lambda>b. to_int64 (int b)) (ParseBytes (rs_capacity kvs))) of
        None \<Rightarrow> Inl ErrCapacity | Some cap \<Rightarrow>
      case check_number (or_default (rs_queue kvs) ''100000'') 1 ErrQueue of
        Inl e \<Rightarrow> Inl e | Inr queue \<Rightarrow>
      case check_number (or_default (rs_workers kvs) ''4'') 1 ErrWorkers of
        Inl e \<Rightarrow> Inl e | Inr workers \<Rightarrow>
      case check_number (or_default (rs_retries kvs) ''10'') 0 ErrRetries of
        Inl e \<Rightarrow> Inl e | Inr retries \<Rightarrow>
      Inr \<lparr>rc_ReplicationFactor = rf, rc_Consistency = mode, rc_BlockSize = bs,
           rc_Zone = rs_zone kvs, rc_NodeCapacity = cap, rc_SyncQueueSize = queue,
           rc_SyncWorkers = workers, rc_MaxSyncRetries = retries\<rparr>)"

lemma Replication_LookupConfig_valid:
  assumes "Replication_LookupConfig ParseBytes kvs = Inr c"
  shows "1 \<le> rc_ReplicationFactor c"
    and "rc_Consistency c \<in> {''consistent'', ''degraded'', ''dangerous''}"
    and "65536 \<le> rc_BlockSize c" and "rc_BlockSize c \<le> 67108864"
  using assms
  by (auto simp: Replication_LookupConfig_def Let_def split: option.splits sum.splits if_splits)


definition default_settings :: ReplicationSettings where
  "default_settings = \<lparr>rs_factor = [], rs_consistency = [], rs_block_size = [], rs_zone = [],
     rs_capacity = [], rs_queue = [], rs_workers = [], rs_retries = []\<rparr>"

lemma default_config:
  "Replication_LookupConfig (\<lambda>s. None) default_settings =
     Inr \<lparr>rc_ReplicationFactor = 3, rc_Consistency = ''consistent'', rc_BlockSize = 1048576,
          rc_Zone = [], rc_NodeCapacity = 0, rc_SyncQueueSize = 100000, rc_SyncWorkers = 4,
          rc_MaxSyncRetries = 10\<rparr>"
  by (simp add: Replication_LookupConfig_def default_settings_def or_default_def block_bytes_def
      check_number_def Atoi_def is_digit_def byte_of_def min_int64_def max_int64_def Let_def)


end
