(* ===== verification/Object_Quorum.thy ===== *)
theory Object_Quorum
  imports Drive_Quorum Storage_Class
begin

text \<open>
  Agreement on the latest metadata of an object: the commonly seen modification time and data
  directory, the online drives and the latest \<open>FileInfo\<close> of \<^verbatim>\<open>cmd/erasure-healing-common.go\<close>, and
  \<open>findFileInfoInQuorum\<close>, \<open>writeUniqueFileInfo\<close> and \<open>objectQuorumFromMeta\<close> of
  \<^verbatim>\<open>cmd/erasure-metadata.go\<close>.

  The functions take the metadata and the errors read from the drives, one entry per drive. An
  error slice shorter than the metadata is a run-time panic (\<open>None\<close>).
\<close>

subsection \<open>The commonly seen modification time\<close>

definition timeSentinel :: gotime where
  "timeSentinel = 0"

text \<open>\<open>Time.UnixNano\<close>: the 64-bit count of nanoseconds, which wraps.\<close>

definition UnixNano :: "gotime \<Rightarrow> int" where
  "UnixNano t = to_int64 t"

fun common_nano :: "(int \<Rightarrow> nat) \<Rightarrow> int list \<Rightarrow> nat \<times> gotime \<Rightarrow> nat \<times> gotime" where
  "common_nano counts [] acc = acc"
| "common_nano counts (nano # nanos) (maxima, modTime) =
     common_nano counts nanos
       (if counts nano > maxima \<or> (counts nano = maxima \<and> nano > modTime)
        then (counts nano, nano) else (maxima, modTime))"

text \<open>The scan for a key of largest count that the code uses for directories and for hashes.\<close>

fun max_count :: "('k \<Rightarrow> nat) \<Rightarrow> 'k list \<Rightarrow> nat \<times> 'k \<Rightarrow> nat \<times> 'k" where
  "max_count counts [] acc = acc"
| "max_count counts (k # ks) (mx, key) =
     max_count counts ks (if counts k > mx then (counts k, k) else (mx, key))"

definition commonTime ::
  "(int list \<Rightarrow> int list) \<Rightarrow> (string list \<Rightarrow> string list) \<Rightarrow> gotime list \<Rightarrow> string list \<Rightarrow>
     gotime \<times> string" where
  "commonTime ordT ordD modTimes dataDirs =
     (let nanos = map UnixNano (filter (\<lambda>t. t \<noteq> timeSentinel) modTimes);
          dirs = filter (\<lambda>d. d \<noteq> []) dataDirs
      in (snd (common_nano (count_list nanos) (ordT (remdups nanos)) (0, zero_time)),
          snd (max_count (count_list dirs) (ordD (remdups dirs)) (0, []))))"

definition listObjectModtimes :: "FileInfo list \<Rightarrow> goerr option list \<Rightarrow> gotime list option" where
  "listObjectModtimes partsMetadata errs =
     (if length errs < length partsMetadata then None
      else Some (map (\<lambda>(metadata, err). if err \<noteq> None then timeSentinel else fi_ModTime metadata)
                   (zip partsMetadata errs)))"

definition list_data_dirs :: "FileInfo list \<Rightarrow> goerr option list \<Rightarrow> string list" where
  "list_data_dirs partsMetadata errs =
     map (\<lambda>(fi, err). if err \<noteq> None then [] else fi_DataDir fi) (zip partsMetadata errs)"

text \<open>The test both loops apply to entry \<open>index\<close>.\<close>

definition is_latest :: "gotime \<Rightarrow> string \<Rightarrow> FileInfo \<times> gotime \<Rightarrow> bool" where
  "is_latest modTime dataDir = (\<lambda>(fi, t). FileInfo_IsValid fi \<and> t = modTime \<and> fi_DataDir fi = dataDir)"

definition listOnlineDisks ::
  "(int list \<Rightarrow> int list) \<Rightarrow> (string list \<Rightarrow> string list) \<Rightarrow> 'd option list \<Rightarrow> FileInfo list \<Rightarrow>
     goerr option list \<Rightarrow> ('d option list \<times> gotime \<times> string) option" where
  "listOnlineDisks ordT ordD disks partsMetadata errs = do {
     modTimes \<leftarrow> listObjectModtimes partsMetadata errs;
     let (modTime, dataDir) = commonTime ordT ordD modTimes (list_data_dirs partsMetadata errs);
     if length disks < length partsMetadata then None
     else Some (map (\<lambda>(disk, m). if is_latest modTime dataDir m then disk else None)
                  (zip disks (zip partsMetadata modTimes))
                  @ replicate (length disks - length partsMetadata) None, modTime, dataDir)
   }"

definition getLatestFileInfo ::
  "(goerr option list \<Rightarrow> goerr option list) \<Rightarrow> (int list \<Rightarrow> int list) \<Rightarrow> (string list \<Rightarrow> string list) \<Rightarrow>
     FileInfo list \<Rightarrow> goerr option list \<Rightarrow> (goerr + FileInfo) option" where
  "getLatestFileInfo ordE ordT ordD partsMetadata errs =
     (case reduceReadQuorumErrs ordE errs objectOpIgnoredErrs (length partsMetadata div 2) of
        Some reducedErr \<Rightarrow> Some (Inl reducedErr)
      | None \<Rightarrow> do {
          modTimes \<leftarrow> listObjectModtimes partsMetadata errs;
          let (modTime, dataDir) = commonTime ordT ordD modTimes (list_data_dirs partsMetadata errs);
          let latest = filter (is_latest modTime dataDir) (zip partsMetadata modTimes);
          if length latest < length partsMetadata div 2 then Some (Inl errErasureReadQuorum)
          else Some (Inr (if latest = [] then empty_FileInfo else fst (last latest)))
        })"

subsection \<open>Metadata in quorum\<close>

text \<open>\<open>%v\<close> of a slice of integers.\<close>

definition print_ints :: "int list \<Rightarrow> string" where
  "print_ints xs = ''['' @ Join (map itoa xs) '' '' @ '']''"

definition meta_text :: "FileInfo \<Rightarrow> string" where
  "meta_text meta =
     concat (map (\<lambda>part. ''part.'' @ itoa (pt_Number part)) (fi_Parts meta)) @
     (if fi_Blocks meta \<noteq> [] then concat (map (\<lambda>blk. ''block.'' @ bl_Hash blk) (fi_Blocks meta))
      else print_ints (er_Distribution (fi_Erasure meta))) @
     itoa (int (length (fi_Data meta)))"

definition meta_hash :: "gotime \<Rightarrow> string \<Rightarrow> FileInfo \<Rightarrow> string" where
  "meta_hash modTime dataDir meta =
     (if FileInfo_IsValid meta \<and> fi_ModTime meta = modTime \<and> fi_DataDir meta = dataDir
      then hex_EncodeToString (sha256_Sum256 (map byte_of (meta_text meta))) else [])"

definition findFileInfoInQuorum ::
  "(string list \<Rightarrow> string list) \<Rightarrow> FileInfo list \<Rightarrow> gotime \<Rightarrow> string \<Rightarrow> int \<Rightarrow> goerr + FileInfo" where
  "findFileInfoInQuorum ord metaArr modTime dataDir quorum =
     (let metaHashes = map (meta_hash modTime dataDir) metaArr;
          hashes = filter (\<lambda>h. h \<noteq> []) metaHashes;
          (maxCount, maxHash) = max_count (count_list hashes) (ord (remdups hashes)) (0, [])
      in if int maxCount < quorum then Inl errErasureReadQuorum
         else case find (\<lambda>meta. meta_hash modTime dataDir meta = maxHash) metaArr of
                Some meta \<Rightarrow> Inr meta
              | None \<Rightarrow> Inl errErasureReadQuorum)"

subsection \<open>Quorums of an object\<close>

record ServerGlobals =
  globalIsReplicated :: bool
  globalReplicationConfig :: ReplicationConfig
  globalStorageClass :: StorageClassConfig

definition metadata_get :: "FileInfo \<Rightarrow> string \<Rightarrow> string" where
  "metadata_get fi k = (case fi_Metadata fi k of None \<Rightarrow> [] | Some v \<Rightarrow> v)"

definition quorums_of :: "ServerGlobals \<Rightarrow> FileInfo \<Rightarrow> int \<Rightarrow> int \<times> int" where
  "quorums_of g fi defaultParityCount =
     (if fi_Blocks fi \<noteq> [] \<or> globalIsReplicated g
      then (ReadQuorum (globalReplicationConfig g), WriteQuorum (globalReplicationConfig g))
      else
        let parity = GetParityForSC (globalStorageClass g) (metadata_get fi ''x-amz-storage-class'')
        in erasureQuorums (er_DataBlocks (fi_Erasure fi))
             (if parity \<le> 0 then defaultParityCount else parity))"

definition objectQuorumFromMeta ::
  "(goerr option list \<Rightarrow> goerr option list) \<Rightarrow> (int list \<Rightarrow> int list) \<Rightarrow> (string list \<Rightarrow> string list) \<Rightarrow>
     ServerGlobals \<Rightarrow> FileInfo list \<Rightarrow> goerr option list \<Rightarrow> int \<Rightarrow> (goerr + int \<times> int) option" where
  "objectQuorumFromMeta ordE ordT ordD g partsMetaData errs defaultParityCount =
     map_option (\<lambda>r. case r of Inl err \<Rightarrow> Inl err | Inr fi \<Rightarrow> Inr (quorums_of g fi defaultParityCount))
       (getLatestFileInfo ordE ordT ordD partsMetaData errs)"

text \<open>
  \<open>writeUniqueFileInfo\<close>: \<open>WriteMetadata\<close> is the drive's own operation. The result has the
  metadata offered to each drive, the drives still online and the reduced error.
\<close>

definition unique_FileInfo :: "nat \<Rightarrow> FileInfo \<Rightarrow> FileInfo" where
  "unique_FileInfo index fi =
     (if fi_Blocks fi = [] then fi\<lparr>fi_Erasure := (fi_Erasure fi)\<lparr>er_Index := int index + 1\<rparr>\<rparr> else fi)"

definition write_one ::
  "('d \<Rightarrow> FileInfo \<Rightarrow> goerr option) \<Rightarrow> 'd option list \<Rightarrow> FileInfo list \<Rightarrow> nat \<Rightarrow> goerr option" where
  "write_one WriteMetadata disks files index =
     (case disks ! index of
        None \<Rightarrow> Some errDiskNotFound
      | Some d \<Rightarrow>
          let fi = unique_FileInfo index (files ! index)
          in if FileInfo_IsValid fi then WriteMetadata d fi else Some errCorruptedFormat)"

definition writeUniqueFileInfo ::
  "(goerr option list \<Rightarrow> goerr option list) \<Rightarrow> ('d \<Rightarrow> FileInfo \<Rightarrow> goerr option) \<Rightarrow> 'd option list \<Rightarrow>
     FileInfo list \<Rightarrow> nat \<Rightarrow> ('d option list \<times> goerr option) option" where
  "writeUniqueFileInfo ord WriteMetadata disks files quorum =
     (if list_ex (\<lambda>d. d \<noteq> None) (drop (length files) disks) then None
      else
        let mErrs = map (write_one WriteMetadata disks files) [0..<length disks]
        in Some (evalDisks disks mErrs, reduceWriteQuorumErrs ord mErrs objectOpIgnoredErrs quorum))"

subsection \<open>Scans for the most frequent value\<close>

lemma max_count_spec:
  assumes "max_count counts ks (m0, k0) = (m, k)"
  shows "m0 \<le> m \<and> (\<forall>x \<in> set ks. counts x \<le> m) \<and>
    ((m = m0 \<and> k = k0) \<or> (m0 < m \<and> k \<in> set ks \<and> counts k = m))"
  using assms
proof (induction ks arbitrary: m0 k0)
  case (Cons x ks)
  show ?case
  proof (cases "counts x > m0")
    case True
    then show ?thesis using Cons.prems Cons.IH [of "counts x" x] by auto
  next
    case False
    then show ?thesis using Cons.prems Cons.IH [of m0 k0] by auto
  qed
qed simp

lemma common_nano_spec:
  assumes "common_nano counts ks (m0, t0) = (m, t)"
  shows "m0 \<le> m \<and> (\<forall>x \<in> set ks. counts x < m \<or> (counts x = m \<and> x \<le> t)) \<and>
    ((m = m0 \<and> t = t0) \<or> (t \<in> set ks \<and> counts t = m)) \<and> (m = m0 \<longrightarrow> t0 \<le> t)"
  using assms
proof (induction ks arbitrary: m0 t0)
  case (Cons x ks)
  show ?case
  proof (cases "counts x > m0 \<or> (counts x = m0 \<and> x > t0)")
    case True
    then have "common_nano counts ks (counts x, x) = (m, t)" using Cons.prems by simp
    from Cons.IH [OF this] True show ?thesis by (auto simp: le_less)
  next
    case False
    then have "common_nano counts ks (m0, t0) = (m, t)"
      using Cons.prems by (auto split: if_splits)
    from Cons.IH [OF this] False show ?thesis by (auto simp: le_less not_less)
  qed
qed simp

text \<open>A value held by more than half of a list is the only one of largest count.\<close>

lemma majority_unique:
  assumes "length xs < 2 * count_list ys x" and "length ys \<le> length xs"
    and "count_list ys x \<le> count_list ys y"
  shows "y = x"
proof (rule ccontr)
  assume "y \<noteq> x"
  then have "count_list ys y + count_list ys x \<le> length ys" by (rule count_list_two)
  with assms show False by simp
qed

lemma max_count_majority:
  assumes "map_order ord" and "length xs < 2 * count_list ys x" and "length ys \<le> length xs"
  shows "snd (max_count (count_list ys) (ord (remdups ys)) (0, k0)) = x"
proof -
  obtain m k where r: "max_count (count_list ys) (ord (remdups ys)) (0, k0) = (m, k)"
    by (cases "max_count (count_list ys) (ord (remdups ys)) (0, k0)")
  have "0 < count_list ys x" using assms(2) by simp
  then have x: "x \<in> set (ord (remdups ys))" using assms(1) by (simp add: count_list_pos_iff)
  have "count_list ys x \<le> m" using max_count_spec [OF r] x by blast
  moreover from this have "count_list ys k = m" using max_count_spec [OF r] assms(2) by auto
  ultimately show ?thesis using majority_unique [OF assms(2,3)] r by simp
qed

lemma common_nano_majority:
  assumes "map_order ord" and "length xs < 2 * count_list ys x" and "length ys \<le> length xs"
  shows "snd (common_nano (count_list ys) (ord (remdups ys)) (0, t0)) = x"
proof -
  obtain m k where r: "common_nano (count_list ys) (ord (remdups ys)) (0, t0) = (m, k)"
    by (cases "common_nano (count_list ys) (ord (remdups ys)) (0, t0)")
  have "0 < count_list ys x" using assms(2) by simp
  then have x: "x \<in> set (ord (remdups ys))" using assms(1) by (simp add: count_list_pos_iff)
  have "count_list ys x \<le> m" using common_nano_spec [OF r] x by auto
  moreover from this have "count_list ys k = m" using common_nano_spec [OF r] assms(2) by auto
  ultimately show ?thesis using majority_unique [OF assms(2,3)] r by simp
qed

text \<open>
  The common modification time is the latest of the most frequent ones: it was read from a
  drive, no time was read from more drives, and every time read from as many drives is not later.
  It does not depend on the order in which Go visits the map of counts.
\<close>

theorem commonTime_latest:
  assumes "map_order ordT" and "\<exists>t \<in> set modTimes. t \<noteq> timeSentinel"
  shows "let nanos = map UnixNano (filter (\<lambda>t. t \<noteq> timeSentinel) modTimes);
             modTime = fst (commonTime ordT ordD modTimes dataDirs)
         in modTime \<in> set nanos \<and>
            (\<forall>t. count_list nanos t \<le> count_list nanos modTime) \<and>
            (\<forall>t. count_list nanos t = count_list nanos modTime \<longrightarrow> t \<le> modTime)"
proof -
  define nanos where "nanos = map UnixNano (filter (\<lambda>t. t \<noteq> timeSentinel) modTimes)"
  obtain m k where r: "common_nano (count_list nanos) (ordT (remdups nanos)) (0, zero_time) = (m, k)"
    by (cases "common_nano (count_list nanos) (ordT (remdups nanos)) (0, zero_time)")
  have s: "set (ordT (remdups nanos)) = set nanos" using assms(1) by simp
  note spec = common_nano_spec [OF r, unfolded s]
  from assms(2) obtain x where "x \<in> set nanos" by (auto simp: nanos_def)
  then have "0 < count_list nanos x" by (simp add: count_list_pos_iff)
  with spec \<open>x \<in> set nanos\<close> have m: "0 < m" by force
  with spec have k: "k \<in> set nanos" "count_list nanos k = m" by auto
  have "count_list nanos t < m \<or> (count_list nanos t = m \<and> t \<le> k)" for t
    using spec m by (cases "t \<in> set nanos") (auto simp: count_list_0_iff)
  then have "\<forall>t. count_list nanos t \<le> m" and "\<forall>t. count_list nanos t = m \<longrightarrow> t \<le> k"
    by (metis less_or_eq_imp_le, metis less_irrefl)
  with k show ?thesis
    by (simp add: commonTime_def Let_def r nanos_def [symmetric])
qed

theorem commonTime_latest_witness:
  "fst (commonTime rev (\<lambda>ks. ks) [5, 7, 0, 5, 7] []) = 7"
proof -
  have "\<exists>t \<in> set [5, 7, 0, 5, 7]. t \<noteq> timeSentinel" by (simp add: timeSentinel_def)
  from commonTime_latest [OF map_order_rev this, of "\<lambda>ks. ks" "[]"] show ?thesis
    by (auto simp: Let_def timeSentinel_def UnixNano_def to_int64_def split: if_splits)
qed


subsection \<open>The latest metadata\<close>

lemma length_filter_mono:
  "(\<And>x. x \<in> set xs \<Longrightarrow> P x \<Longrightarrow> Q x) \<Longrightarrow> length (filter P xs) \<le> length (filter Q xs)"
  by (induction xs) (auto intro: le_SucI)

lemma count_list_map: "count_list (map f xs) y = length (filter (\<lambda>x. f x = y) xs)"
  by (induction xs) auto

text \<open>A strict majority of successes reduces to success.\<close>

lemma reduce_majority_nil:
  assumes "map_order ord" and "n < 2 * count_list errs None" and "length errs = n"
  shows "reduceReadQuorumErrs ord errs ign (n div 2) = None"
proof -
  obtain m e where r: "reduceErrs ord errs ign = (m, e)" by (cases "reduceErrs ord errs ign")
  note spec = reduceErrs_spec [OF assms(1) r]
  have m: "count_list errs None \<le> m" using spec(1) counted_errs_nil [of errs ign] by metis
  then have "m \<le> count_list errs e"
    using spec(2) assms(2) count_list_filter_le by (metis counted_errs_def gr0I less_nat_zero_code
        mult_0_right le_zero_eq)
  with m have "e = None" using majority_unique [of errs errs None e] assms by simp
  moreover have "n div 2 \<le> m" using m assms(2) by simp
  ultimately show ?thesis by (simp add: reduceReadQuorumErrs_def reduceQuorumErrs_def r)
qed

text \<open>The entries of the drives that agree on an object version.\<close>

definition agreeing :: "gotime \<Rightarrow> string \<Rightarrow> FileInfo \<times> goerr option \<Rightarrow> bool" where
  "agreeing t d = (\<lambda>(fi, err). err = None \<and> FileInfo_IsValid fi \<and> fi_ModTime fi = t \<and> fi_DataDir fi = d)"

lemma listObjectModtimes_eq:
  "length errs = length metas \<Longrightarrow>
     listObjectModtimes metas errs =
       Some (map (\<lambda>(fi, err). if err \<noteq> None then timeSentinel else fi_ModTime fi) (zip metas errs))"
  by (simp add: listObjectModtimes_def)

lemma count_filter_map:
  assumes "\<And>x. x \<in> set xs \<Longrightarrow> P x \<Longrightarrow> Q (f x) \<and> g (f x) = y"
  shows "length (filter P xs) \<le> count_list (map g (filter Q (map f xs))) y"
  using assms by (induction xs) (auto intro: le_SucI)

lemma commonTime_majority:
  assumes "map_order ordT" and "map_order ordD" and "length errs = length metas"
    and "length metas < 2 * length (filter (agreeing t d) (zip metas errs))"
    and "t \<noteq> timeSentinel" and "min_int64 \<le> t" and "t \<le> max_int64" and "d \<noteq> []"
    and "listObjectModtimes metas errs = Some modTimes"
  shows "commonTime ordT ordD modTimes (list_data_dirs metas errs) = (t, d)"
proof -
  let ?z = "zip metas errs"
  have mt: "modTimes = map (\<lambda>(fi, err). if err \<noteq> None then timeSentinel else fi_ModTime fi) ?z"
    using assms(9) listObjectModtimes_eq [OF assms(3)] by simp
  define nanos where "nanos = map UnixNano (filter (\<lambda>t. t \<noteq> timeSentinel) modTimes)"
  define dirs where "dirs = filter (\<lambda>d. d \<noteq> []) (list_data_dirs metas errs)"
  have "length (filter (agreeing t d) ?z) \<le> count_list nanos t"
    unfolding nanos_def mt
    by (rule count_filter_map)
      (use assms(5-7) in \<open>auto simp: agreeing_def UnixNano_def to_int64_id\<close>)
  then have nt: "length metas < 2 * count_list nanos t" using assms(4) by simp
  have ln: "length nanos \<le> length metas"
    using length_filter_le [of "\<lambda>t. t \<noteq> timeSentinel" modTimes] assms(3) by (simp add: nanos_def mt)
  have "length (filter (agreeing t d) ?z) \<le> count_list (map (\<lambda>x. x) dirs) d"
    unfolding dirs_def list_data_dirs_def
    by (rule count_filter_map) (use assms(8) in \<open>auto simp: agreeing_def\<close>)
  then have nd: "length metas < 2 * count_list dirs d" using assms(4) by simp
  have ld: "length dirs \<le> length metas"
    using length_filter_le [of "\<lambda>d. d \<noteq> []" "list_data_dirs metas errs"] assms(3)
    by (simp add: dirs_def list_data_dirs_def)
  show ?thesis
    using common_nano_majority [OF assms(1) nt ln, of zero_time]
      max_count_majority [OF assms(2) nd ld, of "[]"]
    by (simp add: commonTime_def Let_def nanos_def [symmetric] dirs_def [symmetric])
qed

lemma agreeing_latest:
  assumes "length errs = length metas" and "listObjectModtimes metas errs = Some modTimes"
  shows "length (filter (agreeing t d) (zip metas errs)) \<le>
    length (filter (is_latest t d) (zip metas modTimes))"
proof -
  have "modTimes = map (\<lambda>(fi, err). if err \<noteq> None then timeSentinel else fi_ModTime fi) (zip metas errs)"
    using assms(2) listObjectModtimes_eq [OF assms(1)] by simp
  with assms(1) show ?thesis
    by (induction metas errs arbitrary: modTimes rule: list_induct2')
      (auto simp: agreeing_def is_latest_def intro: le_SucI)
qed

lemma modtime_read:
  assumes "length errs = length metas" and "listObjectModtimes metas errs = Some modTimes"
    and "(fi, t) \<in> set (zip metas modTimes)" and "t \<noteq> timeSentinel"
  shows "fi_ModTime fi = t"
proof -
  have "modTimes = map (\<lambda>(fi, err). if err \<noteq> None then timeSentinel else fi_ModTime fi) (zip metas errs)"
    using assms(2) listObjectModtimes_eq [OF assms(1)] by simp
  with assms(1,3,4) show ?thesis
    by (induction metas errs arbitrary: modTimes rule: list_induct2') (auto split: if_splits)
qed


lemma sample_valid [simp]: "1 \<le> i \<Longrightarrow> i \<le> 4 \<Longrightarrow> FileInfo_IsValid (sample_FileInfo i)"
  by (simp add: sample_FileInfo_def FileInfo_IsValid_def empty_FileInfo_def empty_ErasureInfo_def)

lemma sample_fields [simp]:
  "fi_ModTime (sample_FileInfo i) = 7" "fi_DataDir (sample_FileInfo i) = ''d''"
  by (simp_all add: sample_FileInfo_def)


definition sample_marker :: FileInfo where
  "sample_marker = empty_FileInfo\<lparr>fi_ModTime := 9, fi_Deleted := True\<rparr>"



subsection \<open>Metadata picked in quorum\<close>

lemma meta_hash_nonempty:
  "meta_hash t d fi \<noteq> [] \<longleftrightarrow> FileInfo_IsValid fi \<and> fi_ModTime fi = t \<and> fi_DataDir fi = d"
proof -
  have "hex_EncodeToString (sha256_Sum256 bs) \<noteq> []" for bs
    by (metis hex_EncodeToString_length sha256_length length_0_conv zero_neq_numeral mult_eq_0_iff)
  then show ?thesis by (simp add: meta_hash_def)
qed

lemma count_nonempty_hashes:
  "h \<noteq> [] \<Longrightarrow> count_list (filter (\<lambda>h. h \<noteq> []) (map f xs)) h = length (filter (\<lambda>x. f x = h) xs)"
  by (induction xs) auto

text \<open>
  For a positive quorum, picking the metadata of a version fails exactly when no group of
  drives as large as the quorum holds valid metadata of that version with one digest, and the
  metadata picked is of that version and belongs to such a group.
\<close>

theorem findFileInfoInQuorum_correct:
  assumes "map_order ord" and "0 < quorum"
  shows "case findFileInfoInQuorum ord metaArr t d quorum of
      Inl err \<Rightarrow> err = errErasureReadQuorum \<and>
        (\<forall>h. h \<noteq> [] \<longrightarrow> int (length (filter (\<lambda>m. meta_hash t d m = h) metaArr)) < quorum)
    | Inr fi \<Rightarrow> fi \<in> set metaArr \<and> FileInfo_IsValid fi \<and> fi_ModTime fi = t \<and> fi_DataDir fi = d \<and>
        quorum \<le> int (length (filter (\<lambda>m. meta_hash t d m = meta_hash t d fi) metaArr))"
proof -
  define hs where "hs = filter (\<lambda>h. h \<noteq> []) (map (meta_hash t d) metaArr)"
  obtain m k where r: "max_count (count_list hs) (ord (remdups hs)) (0, []) = (m, k)"
    by (cases "max_count (count_list hs) (ord (remdups hs)) (0, [])")
  have s: "set (ord (remdups hs)) = set hs" using assms(1) by simp
  note spec = max_count_spec [OF r, unfolded s]
  have le: "count_list hs h \<le> m" for h
    using spec by (cases "h \<in> set hs") (auto simp: count_list_0_iff)
  have f: "findFileInfoInQuorum ord metaArr t d quorum =
      (if int m < quorum then Inl errErasureReadQuorum
       else case find (\<lambda>meta. meta_hash t d meta = k) metaArr of
              Some meta \<Rightarrow> Inr meta | None \<Rightarrow> Inl errErasureReadQuorum)"
    by (simp add: findFileInfoInQuorum_def Let_def hs_def [symmetric] r)
  show ?thesis
  proof (cases "int m < quorum")
    case True
    have "int (length (filter (\<lambda>m. meta_hash t d m = h) metaArr)) < quorum" if "h \<noteq> []" for h
      using True le [of h] count_nonempty_hashes [OF that, of "meta_hash t d" metaArr]
      by (simp add: hs_def)
    with True f show ?thesis by simp
  next
    case False
    with assms(2) spec have k: "k \<in> set hs" "count_list hs k = m" by auto
    then have ne: "k \<noteq> []" by (simp add: hs_def)
    from k(1) obtain fi where fi: "find (\<lambda>meta. meta_hash t d meta = k) metaArr = Some fi"
      by (cases "find (\<lambda>meta. meta_hash t d meta = k) metaArr") (auto simp: hs_def find_None_iff)
    then have "meta_hash t d fi = k" "fi \<in> set metaArr" by (auto dest: find_SomeD)
    then show ?thesis
      using False f fi ne k(2) meta_hash_nonempty [of t d fi]
        count_nonempty_hashes [OF ne, of "meta_hash t d" metaArr]
      by (simp add: hs_def)
  qed
qed

lemma meta_hash_sample:
  "meta_hash 7 ''d'' (sample_FileInfo 1) = meta_hash 7 ''d'' (sample_FileInfo 2)"
  by (simp add: meta_hash_def meta_text_def) (simp add: sample_FileInfo_def)

theorem findFileInfoInQuorum_correct_witness:
  "\<exists>fi. findFileInfoInQuorum rev [sample_FileInfo 1, sample_FileInfo 2, empty_FileInfo] 7 ''d'' 2 = Inr fi \<and>
     FileInfo_IsValid fi \<and> fi_DataDir fi = ''d''"
  using findFileInfoInQuorum_correct [where ord = rev and quorum = 2 and t = 7 and d = "''d''"
      and metaArr = "[sample_FileInfo 1, sample_FileInfo 2, empty_FileInfo]"]
    meta_hash_sample meta_hash_nonempty [of 7 "''d''" "sample_FileInfo 2"]
  by (auto split: sum.splits dest!: spec [of _ "meta_hash 7 ''d'' (sample_FileInfo 2)"])

subsection \<open>Writing metadata\<close>

lemma unique_FileInfo_index:
  "fi_Blocks fi = [] \<Longrightarrow> er_Index (fi_Erasure (unique_FileInfo i fi)) = int i + 1"
  by (simp add: unique_FileInfo_def)

text \<open>
  Writing the metadata of an object to its drives with a quorum of at least half of them
  succeeds exactly when a quorum of the drives accepted it, and after a success at least a quorum
  of drives stay online, each of which was given valid metadata carrying its own shard index.
\<close>

theorem writeUniqueFileInfo_quorum:
  assumes "map_order ord" and "0 < quorum" and "length disks \<le> 2 * quorum"
    and "length files = length disks"
    and "writeUniqueFileInfo ord WriteMetadata disks files quorum = Some (online, err)"
  shows "(err = None \<longleftrightarrow>
      quorum \<le> length (filter (\<lambda>i. write_one WriteMetadata disks files i = None) [0..<length disks])) \<and>
    (err = None \<longrightarrow> quorum \<le> diskCount online) \<and>
    (\<forall>i < length online. online ! i \<noteq> None \<longrightarrow>
       FileInfo_IsValid (unique_FileInfo i (files ! i)) \<and>
       (\<exists>dk. disks ! i = Some dk \<and> WriteMetadata dk (unique_FileInfo i (files ! i)) = None))"
proof -
  let ?w = "write_one WriteMetadata disks files"
  define errs where "errs = map ?w [0..<length disks]"
  have on: "online = evalDisks disks errs"
    and er: "err = reduceQuorumErrs ord errs objectOpIgnoredErrs quorum (Some errErasureWriteQuorum)"
    using assms(5)
    by (auto simp: writeUniqueFileInfo_def reduceWriteQuorumErrs_def Let_def errs_def split: if_splits)
  have l: "length errs = length disks" by (simp add: errs_def)
  have c: "count_list errs None = length (filter (\<lambda>i. ?w i = None) [0..<length disks])"
    by (simp add: errs_def count_list_map)
  have iff: "err = None \<longleftrightarrow> quorum \<le> count_list errs None"
    unfolding er by (rule reduceQuorumErrs_nil) (use assms l in auto)
  have nth: "online ! i = (if ?w i = None then disks ! i else None)" if "i < length disks" for i
    using that l by (simp add: on evalDisks_def errs_def)
  have lo: "length online = length disks" using l by (simp add: on evalDisks_def)
  have ok: "?w i = None \<Longrightarrow> \<exists>dk. disks ! i = Some dk \<and>
      FileInfo_IsValid (unique_FileInfo i (files ! i)) \<and>
      WriteMetadata dk (unique_FileInfo i (files ! i)) = None" for i
    by (auto simp: write_one_def Let_def split: option.splits if_splits)
  have on_iff: "online ! i \<noteq> None \<longleftrightarrow> ?w i = None" if "i < length disks" for i
    using nth [OF that] ok [of i] by (auto split: if_splits)
  have "diskCount online = length (filter (\<lambda>i. online ! i \<noteq> None) [0..<length online])"
    unfolding diskCount_def by (rule length_filter_nth)
  also have "\<dots> = length (filter (\<lambda>i. ?w i = None) [0..<length disks])"
  proof -
    have "filter (\<lambda>i. online ! i \<noteq> None) [0..<length online] = filter (\<lambda>i. ?w i = None) [0..<length disks]"
      unfolding lo by (rule filter_cong) (use on_iff in auto)
    then show ?thesis by simp
  qed
  finally have dc: "diskCount online = count_list errs None" using c by simp
  have "FileInfo_IsValid (unique_FileInfo i (files ! i)) \<and>
      (\<exists>dk. disks ! i = Some dk \<and> WriteMetadata dk (unique_FileInfo i (files ! i)) = None)"
    if "i < length online" "online ! i \<noteq> None" for i
    using ok [of i] on_iff [of i] that lo by auto
  moreover have "err = None \<longleftrightarrow> quorum \<le> length (filter (\<lambda>i. ?w i = None) [0..<length disks])"
    using iff c by simp
  moreover have "err = None \<longrightarrow> quorum \<le> diskCount online" using iff dc by simp
  ultimately show ?thesis by blast
qed

theorem writeUniqueFileInfo_quorum_witness:
  "writeUniqueFileInfo rev (\<lambda>d fi. if d = (3::nat) then Some errFaultyDisk else None)
     [Some 1, Some 2, Some 3, None] (map sample_FileInfo [1, 1, 1, 1]) 2 =
   Some ([Some 1, Some 2, None, None], None) \<and> 2 \<le> diskCount [Some (1::nat), Some 2, None, None]"
proof -
  have w: "writeUniqueFileInfo rev (\<lambda>d fi. if d = (3::nat) then Some errFaultyDisk else None)
     [Some 1, Some 2, Some 3, None] (map sample_FileInfo [1, 1, 1, 1]) 2 =
     Some ([Some 1, Some 2, None, None], None)"
    by (simp add: writeUniqueFileInfo_def write_one_def unique_FileInfo_def sample_FileInfo_def
        empty_FileInfo_def empty_ErasureInfo_def FileInfo_IsValid_def evalDisks_def
        reduceWriteQuorumErrs_def reduceQuorumErrs_def reduceErrs_def counted_errs_def
        IsErrIgnored_def IsErr_def objectOpIgnoredErrs_def errDiskNotFound_def errFaultyDisk_def
        errFaultyRemoteDisk_def upt_rec)
  show ?thesis
    using w writeUniqueFileInfo_quorum [OF map_order_rev _ _ _ w] by simp
qed


subsection \<open>Read and write quorums of an object\<close>

text \<open>The parity with which an object of this storage class is written under \<open>g\<close>.\<close>

definition configured_parity :: "ServerGlobals \<Rightarrow> FileInfo \<Rightarrow> int \<Rightarrow> int" where
  "configured_parity g fi defaultParityCount =
     (let parity = GetParityForSC (globalStorageClass g) (metadata_get fi ''x-amz-storage-class'')
      in if parity \<le> 0 then defaultParityCount else parity)"

lemma quorums_of_erasure:
  "fi_Blocks fi = [] \<Longrightarrow> \<not> globalIsReplicated g \<Longrightarrow>
     quorums_of g fi dflt = erasureQuorums (er_DataBlocks (fi_Erasure fi)) (configured_parity g fi dflt)"
  by (simp add: quorums_of_def configured_parity_def Let_def)

text \<open>
  For an erasure-coded object whose parity is the one its storage class is configured with,
  the quorums computed from the metadata are sound: any set of drives as large as the read quorum
  meets any set as large as the write quorum, and two write quorums meet.
\<close>

theorem objectQuorum_intersection:
  assumes "objectQuorumFromMeta ordE ordT ordD g metas errs dflt = Some (Inr (rq, wq))"
    and "getLatestFileInfo ordE ordT ordD metas errs = Some (Inr fi)"
    and "fi_Blocks fi = []" and "\<not> fi_Deleted fi" and "FileInfo_IsValid fi"
    and "\<not> globalIsReplicated g"
    and "er_ParityBlocks (fi_Erasure fi) = configured_parity g fi dflt"
    and "0 \<le> er_ParityBlocks (fi_Erasure fi)"
    and "finite U" and "int (card U) = er_DataBlocks (fi_Erasure fi) + er_ParityBlocks (fi_Erasure fi)"
    and "R \<subseteq> U" and "W \<subseteq> U" and "V \<subseteq> U"
    and "rq \<le> int (card R)" and "wq \<le> int (card W)" and "wq \<le> int (card V)"
  shows "R \<inter> W \<noteq> {} \<and> V \<inter> W \<noteq> {}"
proof -
  let ?d = "er_DataBlocks (fi_Erasure fi)" and ?p = "er_ParityBlocks (fi_Erasure fi)"
  have wf: "0 < ?d \<and> 0 \<le> ?p \<and> ?p \<le> ?d"
    using assms(3-5,8) by (auto simp: FileInfo_IsValid_def Let_def)
  have q: "erasureQuorums ?d ?p = (rq, wq)"
    using assms(1-3,6,7) by (simp add: objectQuorumFromMeta_def quorums_of_erasure)
  have card: "card U = nat (?d + ?p)" using assms(10) by simp
  have "R \<inter> W \<noteq> {}"
    using erasure_quorum.read_meets_write [of "(?d, ?p)" U R W] wf card assms(9,11-15) q by simp
  moreover have "V \<inter> W \<noteq> {}"
    using erasure_quorum.write_meets_write [of "(?d, ?p)" U V W] wf card assms(9,11-16) q by simp
  ultimately show ?thesis by blast
qed


definition sample_globals :: "int \<Rightarrow> ServerGlobals" where
  "sample_globals p = \<lparr>globalIsReplicated = False,
     globalReplicationConfig = \<lparr>rc_ReplicationFactor = 3, rc_Consistency = ''consistent'',
       rc_BlockSize = 1048576, rc_Zone = [], rc_NodeCapacity = 0, rc_SyncQueueSize = 100000,
       rc_SyncWorkers = 4, rc_MaxSyncRetries = 10\<rparr>,
     globalStorageClass = \<lparr>scc_Standard = \<lparr>sc_Parity = p\<rparr>, scc_RRS = \<lparr>sc_Parity = 2\<rparr>,
       scc_DMA = ''write''\<rparr>\<rparr>"

lemma sample_parity: "configured_parity (sample_globals 2) (sample_FileInfo i) dflt = 2"
  by (simp add: configured_parity_def sample_globals_def GetParityForSC_def TrimSpace_runes_def
      metadata_get_def sample_FileInfo_def empty_FileInfo_def RRS_def)

lemma sample_latest:
  "getLatestFileInfo rev rev rev (map sample_FileInfo [1, 2, 3, 4]) [None, None, None, None] =
     Some (Inr (sample_FileInfo 4))"
  by (simp add: getLatestFileInfo_def reduceReadQuorumErrs_def reduceQuorumErrs_def reduceErrs_def
      counted_errs_def IsErrIgnored_def IsErr_def listObjectModtimes_def list_data_dirs_def
      commonTime_def UnixNano_def to_int64_def timeSentinel_def is_latest_def zero_time_def)

theorem objectQuorum_intersection_witness:
  "objectQuorumFromMeta rev rev rev (sample_globals 2) (map sample_FileInfo [1, 2, 3, 4])
     [None, None, None, None] 2 = Some (Inr (2, 3)) \<and>
   {1, 2} \<inter> {2, 3, 4 :: nat} \<noteq> {} \<and> {1, 2, 3} \<inter> {2, 3, 4 :: nat} \<noteq> {}"
proof -
  have fi: "fi_Blocks (sample_FileInfo 4) = []" "\<not> fi_Deleted (sample_FileInfo 4)"
    "\<not> globalIsReplicated (sample_globals 2)" "er_ParityBlocks (fi_Erasure (sample_FileInfo 4)) = 2"
    "er_DataBlocks (fi_Erasure (sample_FileInfo 4)) = 2"
    by (simp_all add: sample_FileInfo_def empty_FileInfo_def sample_globals_def)
  have q: "objectQuorumFromMeta rev rev rev (sample_globals 2) (map sample_FileInfo [1, 2, 3, 4])
     [None, None, None, None] 2 = Some (Inr (2, 3))"
    using fi sample_latest
    by (simp add: objectQuorumFromMeta_def quorums_of_erasure sample_parity erasureQuorums_def)
  show ?thesis
    using q objectQuorum_intersection [OF q sample_latest, of "{1, 2, 3, 4}" "{1, 2}" "{2, 3, 4}" "{1, 2, 3}"]
      fi sample_parity by simp
qed

definition sample_6_FileInfo :: FileInfo where
  "sample_6_FileInfo = empty_FileInfo\<lparr>fi_ModTime := 7, fi_DataDir := ''d'',
     fi_Erasure := empty_ErasureInfo\<lparr>er_DataBlocks := 3, er_ParityBlocks := 3, er_Index := 1,
       er_Distribution := [1, 2, 3, 4, 5, 6]\<rparr>\<rparr>"

lemma sample_6_fields [simp]:
  "FileInfo_IsValid sample_6_FileInfo" "fi_ModTime sample_6_FileInfo = 7"
  "fi_DataDir sample_6_FileInfo = ''d''" "fi_Blocks sample_6_FileInfo = []"
  "er_DataBlocks (fi_Erasure sample_6_FileInfo) = 3"
  "metadata_get sample_6_FileInfo k = []"
  by (simp_all add: sample_6_FileInfo_def empty_FileInfo_def empty_ErasureInfo_def
      FileInfo_IsValid_def metadata_get_def)

lemma replicate_6: "replicate 6 x = [x, x, x, x, x, x]"
  by (simp add: numeral_eq_Suc)

lemma sample_6_latest:
  "getLatestFileInfo (\<lambda>ks. ks) (\<lambda>ks. ks) (\<lambda>ks. ks) (replicate 6 sample_6_FileInfo) (replicate 6 None) =
     Some (Inr sample_6_FileInfo)"
  by (simp add: replicate_6 getLatestFileInfo_def reduceReadQuorumErrs_def reduceQuorumErrs_def
      reduceErrs_def counted_errs_def IsErrIgnored_def IsErr_def listObjectModtimes_def
      list_data_dirs_def commonTime_def UnixNano_def to_int64_def timeSentinel_def is_latest_def
      zero_time_def)

text \<open>
  The parity is taken from the present configuration, not from the object. An object written
  on six drives with parity 3, looked up after the standard class was reconfigured to parity 2, has
  read quorum 3 and write quorum 3: disjoint halves of the set satisfy both.
\<close>

theorem objectQuorum_after_reconfiguration:
  "objectQuorumFromMeta (\<lambda>ks. ks) (\<lambda>ks. ks) (\<lambda>ks. ks) (sample_globals 2)
     (replicate 6 sample_6_FileInfo) (replicate 6 None) 3 = Some (Inr (3, 3))"
proof -
  have "runes RRS \<noteq> []" by (simp add: RRS_def)
  then have "TrimSpace_runes [] \<noteq> runes RRS" by (metis TrimSpace_runes_Nil)
  then have "quorums_of (sample_globals 2) sample_6_FileInfo 3 = (3, 3)"
    by (simp add: quorums_of_def sample_globals_def GetParityForSC_def erasureQuorums_def)
  then show ?thesis by (simp add: objectQuorumFromMeta_def sample_6_latest)
qed

end
