(* ===== verification/XL_Meta.thy ===== *)
theory XL_Meta
  imports XL_Inline Object_Quorum "HOL-Library.Word"
begin

text \<open>
  The version journal of an object: \<^verbatim>\<open>xlMetaV2\<close> of \<^verbatim>\<open>cmd/xl-storage-format-v2.go\<close> with the entry
  types, validity, \<open>AddVersion\<close>, \<open>AddLegacy\<close>, \<open>UpdateObjectVersion\<close>, \<open>DeleteVersion\<close>,
  \<open>SharedDataDirCount\<close>, \<open>ListVersions\<close> and \<open>ToFileInfo\<close>, and the legacy entry
  \<^verbatim>\<open>xlMetaV1Object\<close> of \<^verbatim>\<open>cmd/xl-storage-format-v1.go\<close>.

  A \<open>nil\<close> pointer and a \<open>nil\<close> map are \<open>None\<close>; a write into a \<open>nil\<close> map and a read through a
  \<open>nil\<close> pointer panic, and so do the operations of the model (\<open>None\<close>). The UUID and MessagePack
  packages and the JSON form of the block references are parameters, the fields of \<open>xl_lib\<close>; so is
  the order that \<open>sort.Sort\<close> gives to equal elements.
\<close>

subsection \<open>Data\<close>

type_synonym uuid = "128 word"
type_synonym meta_map = "string \<rightharpoonup> string"

datatype VersionType = ObjectType | DeleteType | LegacyType | OtherVersionType nat

datatype ErasureAlgo = ReedSolomon | BlockReplication | OtherErasureAlgo nat

datatype ChecksumAlgo = HighwayHash | OtherChecksumAlgo nat

definition uuid_Nil :: uuid where
  "uuid_Nil = 0"

definition nullVersionID :: string where
  "nullVersionID = ''null''"

definition legacyDataDir :: string where
  "legacyDataDir = ''legacy''"

definition ReservedMetadataPrefixLower :: string where
  "ReservedMetadataPrefixLower = ''x-obstor-internal-''"

definition VersionPurgeStatusKey :: string where
  "VersionPurgeStatusKey = ''purgestatus''"

definition errMethodNotAllowed :: goerr where
  "errMethodNotAllowed = ErrorsNew ''errMethodNotAllowed''"

definition errInvalidEntry :: goerr where
  "errInvalidEntry = ErrorsNew ''internal error: invalid version entry generated''"

definition ErasureAlgo_valid :: "ErasureAlgo \<Rightarrow> bool" where
  "ErasureAlgo_valid e = (case e of OtherErasureAlgo _ \<Rightarrow> False | _ \<Rightarrow> True)"

definition ErasureAlgo_String :: "ErasureAlgo \<Rightarrow> string" where
  "ErasureAlgo_String e =
     (case e of ReedSolomon \<Rightarrow> ''reedsolomon'' | BlockReplication \<Rightarrow> ''block-replication'' | _ \<Rightarrow> '''')"

definition erasureAlgoFromString :: "string \<Rightarrow> ErasureAlgo" where
  "erasureAlgoFromString s =
     (if s = ErasureAlgo_String BlockReplication then BlockReplication else ReedSolomon)"

definition ChecksumAlgo_valid :: "ChecksumAlgo \<Rightarrow> bool" where
  "ChecksumAlgo_valid e = (case e of HighwayHash \<Rightarrow> True | _ \<Rightarrow> False)"

record xlMetaV1Object =
  v1_Version :: string
  v1_Format :: string
  v1_StatSize :: int
  v1_StatModTime :: gotime
  v1_Erasure :: ErasureInfo
  v1_Release :: string
  v1_Meta :: "meta_map option"
  v1_Parts :: "ObjectPartInfo list"
  v1_VersionID :: string
  v1_DataDir :: string

record xlMetaV2DeleteMarker =
  dm_VersionID :: uuid
  dm_ModTime :: int
  dm_MetaSys :: "meta_map option"

record xlMetaV2Object =
  o2_VersionID :: uuid
  o2_DataDir :: uuid
  o2_ErasureAlgorithm :: ErasureAlgo
  o2_ErasureM :: int
  o2_ErasureN :: int
  o2_ErasureBlockSize :: int
  o2_ErasureIndex :: int
  o2_ErasureDist :: "int list"
  o2_BitrotChecksumAlgo :: ChecksumAlgo
  o2_PartNumbers :: "int list"
  o2_PartETags :: "string list"
  o2_PartSizes :: "int list"
  o2_PartActualSizes :: "int list"
  o2_Size :: int
  o2_ModTime :: int
  o2_MetaSys :: "meta_map option"
  o2_MetaUser :: "meta_map option"

record xlMetaV2Version =
  vt_Type :: VersionType
  vt_ObjectV1 :: "xlMetaV1Object option"
  vt_ObjectV2 :: "xlMetaV2Object option"
  vt_DeleteMarker :: "xlMetaV2DeleteMarker option"

record xlMetaV2 =
  xm_Versions :: "xlMetaV2Version list"
  xm_data :: "nat list"

record xl_lib =
  xl_msgp :: msgp
  uuid_Parse :: "string \<Rightarrow> goerr + uuid"
  uuid_String :: "uuid \<Rightarrow> string"
  marshal_blocks :: "BlockRef list \<Rightarrow> string option"
  unmarshal_blocks :: "string \<Rightarrow> BlockRef list option"

definition zero_Version :: xlMetaV2Version where
  "zero_Version = \<lparr>vt_Type = OtherVersionType 0, vt_ObjectV1 = None, vt_ObjectV2 = None, vt_DeleteMarker = None\<rparr>"

subsection \<open>Validity\<close>

definition isXLMetaFormatValid :: "string \<Rightarrow> string \<Rightarrow> bool" where
  "isXLMetaFormatValid version format \<longleftrightarrow> (version = ''1.0.1'' \<or> version = ''1.0.0'') \<and> format = ''xl''"

definition isXLMetaErasureInfoValid :: "int \<Rightarrow> int \<Rightarrow> bool" where
  "isXLMetaErasureInfoValid data parity \<longleftrightarrow> data \<ge> parity \<and> data \<noteq> 0"

definition v1_valid :: "xlMetaV1Object \<Rightarrow> bool" where
  "v1_valid m \<longleftrightarrow> isXLMetaFormatValid (v1_Version m) (v1_Format m) \<and>
     isXLMetaErasureInfoValid (er_DataBlocks (v1_Erasure m)) (er_ParityBlocks (v1_Erasure m))"

definition Version_Valid :: "xlMetaV2Version \<Rightarrow> bool" where
  "Version_Valid j =
     (case vt_Type j of
        LegacyType \<Rightarrow> (case vt_ObjectV1 j of None \<Rightarrow> False | Some o1 \<Rightarrow> v1_valid o1)
      | ObjectType \<Rightarrow>
          (case vt_ObjectV2 j of
             None \<Rightarrow> False
           | Some o2 \<Rightarrow> ErasureAlgo_valid (o2_ErasureAlgorithm o2) \<and>
               ChecksumAlgo_valid (o2_BitrotChecksumAlgo o2) \<and>
               isXLMetaErasureInfoValid (o2_ErasureM o2) (o2_ErasureN o2) \<and> o2_ModTime o2 > 0)
      | DeleteType \<Rightarrow>
          (case vt_DeleteMarker j of None \<Rightarrow> False | Some dm \<Rightarrow> dm_ModTime dm > 0)
      | OtherVersionType _ \<Rightarrow> False)"

subsection \<open>Entries as file information\<close>

text \<open>
  The order in which the code ranges over a metadata map is the parameter \<open>keys\<close>; it matters only when
  two keys that differ in case alone match the same name.
\<close>

definition range_order :: "(meta_map \<Rightarrow> string list) \<Rightarrow> bool" where
  "range_order keys \<longleftrightarrow> (\<forall>m. finite (dom m) \<longrightarrow> distinct (keys m) \<and> set (keys m) = dom m)"

definition last_match :: "(meta_map \<Rightarrow> string list) \<Rightarrow> (string \<Rightarrow> bool) \<Rightarrow> meta_map option \<Rightarrow> string" where
  "last_match keys P m =
     (case m of
        None \<Rightarrow> []
      | Some m \<Rightarrow> fold (\<lambda>k s. if P k then (case m k of None \<Rightarrow> s | Some v \<Rightarrow> v) else s) (keys m) [])"

definition nil_map :: "meta_map option \<Rightarrow> meta_map" where
  "nil_map m = (case m of None \<Rightarrow> Map.empty | Some m \<Rightarrow> m)"

definition is_transition_key :: "string \<Rightarrow> bool" where
  "is_transition_key k = EqualFold k (ReservedMetadataPrefixLower @ ''transition-status'')"

definition is_purge_key :: "string \<Rightarrow> bool" where
  "is_purge_key k = EqualFold k VersionPurgeStatusKey"

definition reserved_key :: "string \<Rightarrow> bool" where
  "reserved_key k = HasPrefix (ToLower k) ReservedMetadataPrefixLower"

definition unencrypted_key :: "string \<Rightarrow> bool" where
  "unencrypted_key k \<longleftrightarrow> EqualFold k ''X-Amz-Meta-X-Amz-Unencrypted-Content-Length'' \<or>
     EqualFold k ''X-Amz-Meta-X-Amz-Unencrypted-Content-Md5''"

definition meta_part :: "(string \<Rightarrow> bool) \<Rightarrow> meta_map \<Rightarrow> meta_map" where
  "meta_part P m = (\<lambda>k. if P k then m k else None)"

definition uuid_name :: "xl_lib \<Rightarrow> uuid \<Rightarrow> string" where
  "uuid_name L u = (if u \<noteq> uuid_Nil then uuid_String L u else [])"

definition marker_ToFileInfo ::
  "xl_lib \<Rightarrow> (meta_map \<Rightarrow> string list) \<Rightarrow> string \<Rightarrow> string \<Rightarrow> xlMetaV2DeleteMarker \<Rightarrow> FileInfo" where
  "marker_ToFileInfo L keys volume path j =
     empty_FileInfo\<lparr>fi_Volume := volume, fi_Name := path, fi_ModTime := dm_ModTime j,
       fi_VersionID := uuid_name L (dm_VersionID j), fi_Deleted := True,
       fi_DeleteMarkerReplicationStatus :=
         last_match keys (\<lambda>k. EqualFold k AmzBucketReplicationStatus) (dm_MetaSys j),
       fi_VersionPurgeStatus := last_match keys is_purge_key (dm_MetaSys j)\<rparr>"

definition object_parts :: "xlMetaV2Object \<Rightarrow> ObjectPartInfo list option" where
  "object_parts j =
     (let n = length (o2_PartNumbers j)
      in if length (o2_PartSizes j) < n \<or> length (o2_PartETags j) < n \<or> length (o2_PartActualSizes j) < n
         then None
         else Some (map (\<lambda>i. \<lparr>pt_ETag = o2_PartETags j ! i, pt_Number = o2_PartNumbers j ! i,
                pt_Size = o2_PartSizes j ! i, pt_ActualSize = o2_PartActualSizes j ! i\<rparr>) [0..<n]))"

definition object_blocks :: "xl_lib \<Rightarrow> meta_map option \<Rightarrow> BlockRef list" where
  "object_blocks L metaSys =
     (case nil_map metaSys ''x-obstor-blocks'' of
        None \<Rightarrow> []
      | Some blocksJSON \<Rightarrow>
          if blocksJSON = [] then []
          else (case unmarshal_blocks L blocksJSON of None \<Rightarrow> [] | Some blocks \<Rightarrow> blocks))"

definition object_ToFileInfo ::
  "xl_lib \<Rightarrow> (meta_map \<Rightarrow> string list) \<Rightarrow> string \<Rightarrow> string \<Rightarrow> xlMetaV2Object \<Rightarrow> (goerr + FileInfo) option" where
  "object_ToFileInfo L keys volume path j = do {
     parts \<leftarrow> object_parts j;
     (if parts \<noteq> [] \<and> o2_BitrotChecksumAlgo j \<noteq> HighwayHash
      then Some (Inl (ErrorsNew ''unknown BitrotChecksumAlgo''))
      else Some (Inr (empty_FileInfo\<lparr>
        fi_Volume := volume, fi_Name := path, fi_Size := o2_Size j, fi_ModTime := o2_ModTime j,
        fi_VersionID := uuid_name L (o2_VersionID j), fi_Parts := parts,
        fi_Metadata := meta_part (\<lambda>k. \<not> unencrypted_key k) (nil_map (o2_MetaUser j)) ++
          meta_part (\<lambda>k. reserved_key k \<and> \<not> is_transition_key k \<and> \<not> is_purge_key k) (nil_map (o2_MetaSys j)),
        fi_TransitionStatus := last_match keys is_transition_key (o2_MetaSys j),
        fi_VersionPurgeStatus :=
          last_match keys (\<lambda>k. is_purge_key k \<and> \<not> is_transition_key k) (o2_MetaSys j),
        fi_Erasure := \<lparr>er_Algorithm = ErasureAlgo_String (o2_ErasureAlgorithm j),
          er_DataBlocks = o2_ErasureM j, er_ParityBlocks = o2_ErasureN j,
          er_BlockSize = o2_ErasureBlockSize j, er_Index = o2_ErasureIndex j,
          er_Distribution = o2_ErasureDist j,
          er_Checksums = map (\<lambda>i. if i < length parts
             then \<lparr>ck_PartNumber = pt_Number (parts ! i), ck_Algorithm = 3, ck_Hash = []\<rparr>
             else empty_ChecksumInfo) [0..<length (o2_PartSizes j)]\<rparr>,
        fi_DataDir := uuid_String L (o2_DataDir j),
        fi_Blocks := object_blocks L (o2_MetaSys j)\<rparr>)))
   }"

definition v1_ToFileInfo :: "string \<Rightarrow> string \<Rightarrow> xlMetaV1Object \<Rightarrow> goerr + FileInfo" where
  "v1_ToFileInfo volume path m =
     (if \<not> v1_valid m then Inl errFileCorrupt
      else Inr (empty_FileInfo\<lparr>fi_Volume := volume, fi_Name := path, fi_ModTime := v1_StatModTime m,
        fi_Size := v1_StatSize m, fi_Metadata := nil_map (v1_Meta m), fi_Parts := v1_Parts m,
        fi_Erasure := v1_Erasure m, fi_VersionID := v1_VersionID m, fi_DataDir := v1_DataDir m,
        fi_TransitionStatus :=
          (case nil_map (v1_Meta m) (ReservedMetadataPrefixLower @ ''transition-status'') of
             None \<Rightarrow> [] | Some st \<Rightarrow> st)\<rparr>))"

definition version_ToFileInfo ::
  "xl_lib \<Rightarrow> (meta_map \<Rightarrow> string list) \<Rightarrow> string \<Rightarrow> string \<Rightarrow> xlMetaV2Version \<Rightarrow> (goerr + FileInfo) option" where
  "version_ToFileInfo L keys volume path v =
     (case vt_Type v of
        ObjectType \<Rightarrow> do { o2 \<leftarrow> vt_ObjectV2 v; object_ToFileInfo L keys volume path o2 }
      | DeleteType \<Rightarrow> do { dm \<leftarrow> vt_DeleteMarker v; Some (Inr (marker_ToFileInfo L keys volume path dm)) }
      | LegacyType \<Rightarrow> do { o1 \<leftarrow> vt_ObjectV1 v; Some (v1_ToFileInfo volume path o1) }
      | OtherVersionType _ \<Rightarrow> Some (Inr empty_FileInfo))"

definition getModTimeFromVersion :: "xlMetaV2Version \<Rightarrow> gotime option" where
  "getModTimeFromVersion v =
     (case vt_Type v of
        ObjectType \<Rightarrow> map_option o2_ModTime (vt_ObjectV2 v)
      | DeleteType \<Rightarrow> map_option dm_ModTime (vt_DeleteMarker v)
      | LegacyType \<Rightarrow> map_option v1_StatModTime (vt_ObjectV1 v)
      | OtherVersionType _ \<Rightarrow> Some zero_time)"

subsection \<open>Adding a version\<close>

text \<open>The UUID of a version or directory name: the empty name and, for versions, \<open>null\<close> are zero.\<close>

definition version_uuid :: "xl_lib \<Rightarrow> string \<Rightarrow> goerr + uuid" where
  "version_uuid L s = (if s \<noteq> [] \<and> s \<noteq> nullVersionID then uuid_Parse L s else Inr uuid_Nil)"

definition object_entry :: "xl_lib \<Rightarrow> FileInfo \<Rightarrow> uuid \<Rightarrow> uuid \<Rightarrow> xlMetaV2Object" where
  "object_entry L fi uv dd =
     (let metaSys = meta_part reserved_key (fi_Metadata fi);
          metaSys' = (if fi_Blocks fi \<noteq> []
             then (case marshal_blocks L (fi_Blocks fi) of
                     Some blocksJSON \<Rightarrow> metaSys(''x-obstor-blocks'' \<mapsto> blocksJSON)
                   | None \<Rightarrow> metaSys)
             else metaSys)
      in \<lparr>o2_VersionID = uv, o2_DataDir = dd,
          o2_ErasureAlgorithm = erasureAlgoFromString (er_Algorithm (fi_Erasure fi)),
          o2_ErasureM = er_DataBlocks (fi_Erasure fi), o2_ErasureN = er_ParityBlocks (fi_Erasure fi),
          o2_ErasureBlockSize = er_BlockSize (fi_Erasure fi), o2_ErasureIndex = er_Index (fi_Erasure fi),
          o2_ErasureDist = map (\<lambda>d. d mod 256) (er_Distribution (fi_Erasure fi)),
          o2_BitrotChecksumAlgo = HighwayHash,
          o2_PartNumbers = map pt_Number (fi_Parts fi), o2_PartETags = map pt_ETag (fi_Parts fi),
          o2_PartSizes = map pt_Size (fi_Parts fi), o2_PartActualSizes = map pt_ActualSize (fi_Parts fi),
          o2_Size = fi_Size fi, o2_ModTime = UnixNano (fi_ModTime fi),
          o2_MetaSys = Some metaSys',
          o2_MetaUser = Some (meta_part (\<lambda>k. \<not> reserved_key k) (fi_Metadata fi))\<rparr>)"

definition marker_entry :: "FileInfo \<Rightarrow> uuid \<Rightarrow> xlMetaV2DeleteMarker" where
  "marker_entry fi uv = \<lparr>dm_VersionID = uv, dm_ModTime = UnixNano (fi_ModTime fi), dm_MetaSys = Some Map.empty\<rparr>"

definition new_version :: "xl_lib \<Rightarrow> FileInfo \<Rightarrow> uuid \<Rightarrow> uuid \<Rightarrow> xlMetaV2Version" where
  "new_version L fi uv dd =
     (if fi_Deleted fi
      then zero_Version\<lparr>vt_Type := DeleteType, vt_DeleteMarker := Some (marker_entry fi uv)\<rparr>
      else zero_Version\<lparr>vt_Type := ObjectType, vt_ObjectV2 := Some (object_entry L fi uv dd)\<rparr>)"

definition same_version :: "string \<Rightarrow> uuid \<Rightarrow> xlMetaV2Version \<Rightarrow> bool" where
  "same_version vid uv v =
     (case vt_Type v of
        LegacyType \<Rightarrow> (case vt_ObjectV1 v of None \<Rightarrow> False | Some o1 \<Rightarrow> v1_VersionID o1 = vid)
      | ObjectType \<Rightarrow> (case vt_ObjectV2 v of None \<Rightarrow> False | Some o2 \<Rightarrow> o2_VersionID o2 = uv)
      | DeleteType \<Rightarrow> (case vt_DeleteMarker v of None \<Rightarrow> False | Some dm \<Rightarrow> dm_VersionID dm = uv)
      | OtherVersionType _ \<Rightarrow> False)"

fun add_loop :: "string \<Rightarrow> uuid \<Rightarrow> xlMetaV2Version \<Rightarrow> xlMetaV2Version list \<Rightarrow> goerr + xlMetaV2Version list" where
  "add_loop vid uv ventry [] = Inr [ventry]"
| "add_loop vid uv ventry (v # vs) =
     (if \<not> Version_Valid v then Inl errFileCorrupt
      else if same_version vid uv v then Inr (ventry # vs)
      else case add_loop vid uv ventry vs of Inl e \<Rightarrow> Inl e | Inr vs' \<Rightarrow> Inr (v # vs'))"

definition AddVersion :: "xl_lib \<Rightarrow> xlMetaV2 \<Rightarrow> FileInfo \<Rightarrow> (xlMetaV2 \<times> goerr option) option" where
  "AddVersion L z fi =
     (let vid = (if fi_VersionID fi = [] then nullVersionID else fi_VersionID fi)
      in case version_uuid L vid of
           Inl err \<Rightarrow> Some (z, Some err)
         | Inr uv \<Rightarrow>
             (case (if fi_DataDir fi \<noteq> [] then uuid_Parse L (fi_DataDir fi) else Inr uuid_Nil) of
                Inl err \<Rightarrow> Some (z, Some err)
              | Inr dd \<Rightarrow>
                  let ventry = new_version L fi uv dd
                  in case (if \<not> fi_Deleted fi \<and> (fi_Data fi \<noteq> [] \<or> fi_Size fi = 0)
                           then inline_replace (xl_msgp L) (xm_data z) (map byte_of vid) (fi_Data fi)
                           else Some (xm_data z)) of
                       None \<Rightarrow> None
                     | Some data' \<Rightarrow>
                         if \<not> Version_Valid ventry then Some (z\<lparr>xm_data := data'\<rparr>, Some errInvalidEntry)
                         else case add_loop vid uv ventry (xm_Versions z) of
                                Inl err \<Rightarrow> Some (z\<lparr>xm_data := data'\<rparr>, Some err)
                              | Inr vs \<Rightarrow> Some (\<lparr>xm_Versions = vs, xm_data = data'\<rparr>, None)))"

definition newXLMetaV2 :: "xl_lib \<Rightarrow> FileInfo \<Rightarrow> (xlMetaV2 \<times> goerr option) option" where
  "newXLMetaV2 L fi = AddVersion L \<lparr>xm_Versions = [], xm_data = []\<rparr> fi"

definition AddLegacy :: "xlMetaV2 \<Rightarrow> xlMetaV1Object \<Rightarrow> xlMetaV2 \<times> goerr option" where
  "AddLegacy z m =
     (if \<not> v1_valid m then (z, Some errFileCorrupt)
      else (z\<lparr>xm_Versions := [zero_Version\<lparr>vt_Type := LegacyType,
              vt_ObjectV1 := Some (m\<lparr>v1_VersionID := nullVersionID, v1_DataDir := legacyDataDir\<rparr>)\<rparr>]\<rparr>, None))"

subsection \<open>Updating a version\<close>

text \<open>The writes of the metadata into a map that may be \<open>nil\<close>.\<close>

definition write_meta :: "meta_map \<Rightarrow> meta_map option \<Rightarrow> meta_map option option" where
  "write_meta new old =
     (case old of
        Some m \<Rightarrow> Some (Some (m ++ new))
      | None \<Rightarrow> if new = Map.empty then Some None else None)"

definition update_object :: "FileInfo \<Rightarrow> xlMetaV2Object \<Rightarrow> xlMetaV2Object option" where
  "update_object fi o2 = do {
     metaSys \<leftarrow> write_meta (meta_part reserved_key (fi_Metadata fi)) (o2_MetaSys o2);
     metaUser \<leftarrow> write_meta (meta_part (\<lambda>k. \<not> reserved_key k) (fi_Metadata fi)) (o2_MetaUser o2);
     Some (o2\<lparr>o2_MetaSys := metaSys, o2_MetaUser := metaUser,
       o2_ModTime := (if fi_ModTime fi \<noteq> zero_time then UnixNano (fi_ModTime fi) else o2_ModTime o2)\<rparr>)
   }"

fun update_loop ::
  "FileInfo \<Rightarrow> string \<Rightarrow> uuid \<Rightarrow> xlMetaV2Version list \<Rightarrow> (xlMetaV2Version list \<times> goerr option) option" where
  "update_loop fi vid uv [] = Some ([], Some errFileVersionNotFound)"
| "update_loop fi vid uv (v # vs) =
     (if \<not> Version_Valid v then Some (v # vs, Some errFileCorrupt)
      else if vt_Type v = DeleteType then Some (v # vs, Some errMethodNotAllowed)
      else if same_version vid uv v then
        (if vt_Type v = LegacyType then Some (v # vs, Some errMethodNotAllowed)
         else do {
           o2 \<leftarrow> vt_ObjectV2 v;
           o2' \<leftarrow> update_object fi o2;
           Some (v\<lparr>vt_ObjectV2 := Some o2'\<rparr> # vs, None)
         })
      else map_option (\<lambda>(vs', err). (v # vs', err)) (update_loop fi vid uv vs))"

definition UpdateObjectVersion :: "xl_lib \<Rightarrow> xlMetaV2 \<Rightarrow> FileInfo \<Rightarrow> (xlMetaV2 \<times> goerr option) option" where
  "UpdateObjectVersion L z fi =
     (let vid = (if fi_VersionID fi = [] then nullVersionID else fi_VersionID fi)
      in case version_uuid L vid of
           Inl err \<Rightarrow> Some (z, Some err)
         | Inr uv \<Rightarrow>
             map_option (\<lambda>(vs, err). (z\<lparr>xm_Versions := vs\<rparr>, err)) (update_loop fi vid uv (xm_Versions z)))"

subsection \<open>Deleting a version\<close>

fun shared_count :: "uuid \<Rightarrow> uuid \<Rightarrow> xlMetaV2Version list \<Rightarrow> nat option" where
  "shared_count vid dd [] = Some 0"
| "shared_count vid dd (v # vs) =
     (if vt_Type v = ObjectType then do {
        o2 \<leftarrow> vt_ObjectV2 v;
        n \<leftarrow> shared_count vid dd vs;
        Some (if o2_VersionID o2 \<noteq> vid \<and> o2_DataDir o2 = dd then n + 1 else n)
      }
      else shared_count vid dd vs)"

definition SharedDataDirCount :: "xl_lib \<Rightarrow> xlMetaV2Version list \<Rightarrow> nat list \<Rightarrow> uuid \<Rightarrow> uuid \<Rightarrow> nat option" where
  "SharedDataDirCount L versions data vid dd =
     (if inline_find (xl_msgp L) data (map byte_of (uuid_String L vid)) \<noteq> None then Some 0
      else shared_count vid dd versions)"

definition SharedDataDirCountStr :: "xl_lib \<Rightarrow> xlMetaV2 \<Rightarrow> string \<Rightarrow> string \<Rightarrow> nat option" where
  "SharedDataDirCountStr L z versionID dataDir =
     (case version_uuid L versionID of
        Inl err \<Rightarrow> Some 0
      | Inr uv \<Rightarrow>
          (case uuid_Parse L dataDir of
             Inl err \<Rightarrow> Some 0
           | Inr ddir \<Rightarrow> SharedDataDirCount L (xm_Versions z) (xm_data z) uv ddir))"

definition purge_Complete :: string where
  "purge_Complete = ''COMPLETE''"

definition delete_updates :: "FileInfo \<Rightarrow> bool" where
  "delete_updates fi =
     (let purge = fi_VersionPurgeStatus fi; repl = fi_DeleteMarkerReplicationStatus fi
      in if purge = [] \<and> (repl = ''REPLICA'' \<or> repl = []) then fi_MarkDeleted fi
         else (fi_Deleted fi \<and> purge \<noteq> purge_Complete \<and> (purge \<noteq> [] \<or> repl \<noteq> [])) \<or>
              (purge \<noteq> [] \<and> purge \<noteq> purge_Complete))"

definition set_status :: "FileInfo \<Rightarrow> meta_map \<Rightarrow> meta_map" where
  "set_status fi m =
     (let m1 = (if fi_DeleteMarkerReplicationStatus fi \<noteq> []
                then m(AmzBucketReplicationStatus \<mapsto> fi_DeleteMarkerReplicationStatus fi) else m)
      in if fi_VersionPurgeStatus fi \<noteq> [] then m1(VersionPurgeStatusKey \<mapsto> fi_VersionPurgeStatus fi) else m1)"

definition delete_entry :: "FileInfo \<Rightarrow> uuid \<Rightarrow> xlMetaV2Version" where
  "delete_entry fi uv =
     (if fi_Deleted fi
      then zero_Version\<lparr>vt_Type := DeleteType,
             vt_DeleteMarker := Some ((marker_entry fi uv)\<lparr>dm_MetaSys := Some (set_status fi Map.empty)\<rparr>)\<rparr>
      else zero_Version)"

text \<open>What a delete returns: the journal, the data directory to remove, whether it was the last one.\<close>

type_synonym delete_result = "xlMetaV2Version list \<times> string \<times> bool \<times> goerr option"

definition deleted :: "xlMetaV2Version list \<Rightarrow> string \<Rightarrow> delete_result" where
  "deleted vs dir = (vs, dir, vs = [], None)"

definition delete_legacy ::
  "xl_lib \<Rightarrow> FileInfo \<Rightarrow> xlMetaV2Version \<Rightarrow> xlMetaV2Version list \<Rightarrow> xlMetaV2Version \<Rightarrow> xlMetaV1Object \<Rightarrow>
     xlMetaV2Version list \<Rightarrow> delete_result option" where
  "delete_legacy L fi ventry pre v o1 vs =
     (if fi_TransitionStatus fi \<noteq> [] then do {
        m \<leftarrow> v1_Meta o1;
        o2 \<leftarrow> vt_ObjectV2 v;
        let o1' = o1\<lparr>v1_Meta := Some (m(ReservedMetadataPrefixLower @ ''transition-status'' \<mapsto> fi_TransitionStatus fi))\<rparr>;
        Some (deleted (pre @ v\<lparr>vt_ObjectV1 := Some o1'\<rparr> # vs) (uuid_String L (o2_DataDir o2)))
      }
      else Some (deleted (if fi_Deleted fi then pre @ vs @ [ventry] else pre @ vs) (v1_DataDir o1)))"

definition delete_marker ::
  "FileInfo \<Rightarrow> bool \<Rightarrow> xlMetaV2Version \<Rightarrow> xlMetaV2Version list \<Rightarrow> xlMetaV2Version \<Rightarrow> xlMetaV2DeleteMarker \<Rightarrow>
     xlMetaV2Version list \<Rightarrow> delete_result" where
  "delete_marker fi updateVersion ventry pre v dm vs =
     (if updateVersion then
        let m = (case dm_MetaSys dm of None \<Rightarrow> Map.empty | Some m \<Rightarrow> m);
            m' = set_status fi (m(AmzBucketReplicationStatus := None, VersionPurgeStatusKey := None))
        in deleted (pre @ v\<lparr>vt_DeleteMarker := Some (dm\<lparr>dm_MetaSys := Some m'\<rparr>)\<rparr> # vs) []
      else if fi_MarkDeleted fi \<and> (fi_VersionPurgeStatus fi = [] \<or> fi_VersionPurgeStatus fi \<noteq> purge_Complete)
      then deleted (pre @ vs @ [ventry]) []
      else deleted (pre @ vs) [])"

text \<open>The first loop; \<open>Some None\<close> when it ends without a decision.\<close>

fun delete_loop1 ::
  "xl_lib \<Rightarrow> FileInfo \<Rightarrow> string \<Rightarrow> uuid \<Rightarrow> bool \<Rightarrow> xlMetaV2Version \<Rightarrow> xlMetaV2Version list \<Rightarrow>
     xlMetaV2Version list \<Rightarrow> delete_result option option" where
  "delete_loop1 L fi vid uv upd ventry pre [] = Some None"
| "delete_loop1 L fi vid uv upd ventry pre (v # vs) =
     (if \<not> Version_Valid v then Some (Some (pre @ v # vs, [], False, Some errFileCorrupt))
      else if \<not> same_version vid uv v then delete_loop1 L fi vid uv upd ventry (pre @ [v]) vs
      else case vt_Type v of
        LegacyType \<Rightarrow> do {
          o1 \<leftarrow> vt_ObjectV1 v;
          map_option Some (delete_legacy L fi ventry pre v o1 vs)
        }
      | DeleteType \<Rightarrow> do {
          dm \<leftarrow> vt_DeleteMarker v;
          Some (Some (delete_marker fi upd ventry pre v dm vs))
        }
      | ObjectType \<Rightarrow>
          if upd then do {
            o2 \<leftarrow> vt_ObjectV2 v;
            m \<leftarrow> o2_MetaSys o2;
            let o2' = o2\<lparr>o2_MetaSys := Some (m(VersionPurgeStatusKey \<mapsto> fi_VersionPurgeStatus fi))\<rparr>;
            Some (Some (deleted (pre @ v\<lparr>vt_ObjectV2 := Some o2'\<rparr> # vs) []))
          }
          else delete_loop1 L fi vid uv upd ventry (pre @ [v]) vs
      | OtherVersionType _ \<Rightarrow> delete_loop1 L fi vid uv upd ventry (pre @ [v]) vs)"

definition delete_object ::
  "xl_lib \<Rightarrow> FileInfo \<Rightarrow> nat list \<Rightarrow> xlMetaV2Version \<Rightarrow> xlMetaV2Version list \<Rightarrow> xlMetaV2Version \<Rightarrow> xlMetaV2Object \<Rightarrow>
     xlMetaV2Version list \<Rightarrow> delete_result option" where
  "delete_object L fi data ventry pre v o2 vs =
     (if fi_TransitionStatus fi \<noteq> [] then do {
        m \<leftarrow> o2_MetaSys o2;
        let o2' = o2\<lparr>o2_MetaSys := Some (m(ReservedMetadataPrefixLower @ ''transition-status'' \<mapsto> fi_TransitionStatus fi))\<rparr>;
        Some (deleted (pre @ v\<lparr>vt_ObjectV2 := Some o2'\<rparr> # vs) (uuid_String L (o2_DataDir o2)))
      }
      else do {
        n \<leftarrow> SharedDataDirCount L (pre @ vs) data (o2_VersionID o2) (o2_DataDir o2);
        let rest = (if fi_Deleted fi then pre @ vs @ [ventry] else pre @ vs);
        Some (deleted rest (if n > 0 then [] else uuid_String L (o2_DataDir o2)))
      })"

fun delete_loop2 ::
  "xl_lib \<Rightarrow> FileInfo \<Rightarrow> uuid \<Rightarrow> nat list \<Rightarrow> xlMetaV2Version \<Rightarrow> xlMetaV2Version list \<Rightarrow>
     xlMetaV2Version list \<Rightarrow> delete_result option option" where
  "delete_loop2 L fi uv data ventry pre [] = Some None"
| "delete_loop2 L fi uv data ventry pre (v # vs) =
     (if \<not> Version_Valid v then Some (Some (pre @ v # vs, [], False, Some errFileCorrupt))
      else if vt_Type v = ObjectType then do {
        o2 \<leftarrow> vt_ObjectV2 v;
        (if o2_VersionID o2 = uv then map_option Some (delete_object L fi data ventry pre v o2 vs)
         else delete_loop2 L fi uv data ventry (pre @ [v]) vs)
      }
      else delete_loop2 L fi uv data ventry (pre @ [v]) vs)"

definition DeleteVersion :: "xl_lib \<Rightarrow> xlMetaV2 \<Rightarrow> FileInfo \<Rightarrow> (xlMetaV2 \<times> string \<times> bool \<times> goerr option) option" where
  "DeleteVersion L z fi =
     (let vid = (if fi_VersionID fi = nullVersionID then [] else fi_VersionID fi)
      in case (if vid \<noteq> [] then uuid_Parse L vid else Inr uuid_Nil) of
           Inl err \<Rightarrow> Some (z, [], False, Some errFileVersionNotFound)
         | Inr uv \<Rightarrow>
             let ventry = delete_entry fi uv; vs = xm_Versions z; upd = delete_updates fi
             in if fi_Deleted fi \<and> \<not> Version_Valid ventry then Some (z, [], False, Some errInvalidEntry)
                else do {
                  r1 \<leftarrow> delete_loop1 L fi vid uv upd ventry [] vs;
                  r2 \<leftarrow> (case r1 of Some r \<Rightarrow> Some (Some r) | None \<Rightarrow> delete_loop2 L fi uv (xm_data z) ventry [] vs);
                  (case r2 of
                     Some (vs', dir, lastOne, err) \<Rightarrow> Some (z\<lparr>xm_Versions := vs'\<rparr>, dir, lastOne, err)
                   | None \<Rightarrow>
                       if fi_Deleted fi then Some (z\<lparr>xm_Versions := vs @ [ventry]\<rparr>, [], False, None)
                       else Some (z, [], False, Some errFileVersionNotFound))
                })"

subsection \<open>Reading the journal\<close>

text \<open>
  \<open>sort.Sort\<close> and \<open>sort.Slice\<close> are the parameter \<open>srt\<close>: a permutation in which no later element is
  less than an earlier one, for comparisons that order by a key. The order of equal elements is
  left open, as in the library.
\<close>

definition sort_law :: "(('a \<Rightarrow> 'a \<Rightarrow> bool) \<Rightarrow> 'a list \<Rightarrow> 'a list) \<Rightarrow> bool" where
  "sort_law srt \<longleftrightarrow> (\<forall>less xs. (\<exists>key :: 'a \<Rightarrow> int. \<forall>a \<in> set xs. \<forall>b \<in> set xs. less a b = (key a < key b)) \<longrightarrow>
     mset (srt less xs) = mset xs \<and> sorted_wrt (\<lambda>a b. \<not> less b a) (srt less xs))"

definition versionsSorter_Less :: "FileInfo \<Rightarrow> FileInfo \<Rightarrow> bool" where
  "versionsSorter_Less a b = (if fi_IsLatest a then True else if fi_IsLatest b then False
     else fi_ModTime a > fi_ModTime b)"

fun list_loop_versions ::
  "xl_lib \<Rightarrow> (meta_map \<Rightarrow> string list) \<Rightarrow> string \<Rightarrow> string \<Rightarrow> xlMetaV2Version list \<Rightarrow> (goerr + FileInfo list) option" where
  "list_loop_versions L keys volume path [] = Some (Inr [])"
| "list_loop_versions L keys volume path (v # vs) =
     (if \<not> Version_Valid v then Some (Inl errFileCorrupt)
      else do {
        r \<leftarrow> version_ToFileInfo L keys volume path v;
        (case r of
           Inl err \<Rightarrow> Some (Inl err)
         | Inr fi \<Rightarrow> do {
             rs \<leftarrow> list_loop_versions L keys volume path vs;
             Some (case rs of Inl err \<Rightarrow> Inl err | Inr fis \<Rightarrow> Inr (fi # fis))
           })
      })"

definition number_versions :: "FileInfo list \<Rightarrow> FileInfo list" where
  "number_versions vs =
     map (\<lambda>i. (vs ! i)\<lparr>fi_NumVersions := length vs,
        fi_SuccessorModTime := (if i > 0 then fi_ModTime (vs ! (i - 1)) else fi_SuccessorModTime (vs ! i)),
        fi_IsLatest := (if i = 0 then True else fi_IsLatest (vs ! i))\<rparr>) [0..<length vs]"

definition ListVersions ::
  "xl_lib \<Rightarrow> (meta_map \<Rightarrow> string list) \<Rightarrow> ((FileInfo \<Rightarrow> FileInfo \<Rightarrow> bool) \<Rightarrow> FileInfo list \<Rightarrow> FileInfo list) \<Rightarrow>
     xlMetaV2 \<Rightarrow> string \<Rightarrow> string \<Rightarrow> (goerr + FileInfo list \<times> gotime) option" where
  "ListVersions L keys srt z volume path = do {
     r \<leftarrow> list_loop_versions L keys volume path (xm_Versions z);
     (case r of
        Inl err \<Rightarrow> Some (Inl err)
      | Inr versions \<Rightarrow>
          (case number_versions (srt versionsSorter_Less versions) of
             [] \<Rightarrow> None
           | fi # fis \<Rightarrow> Some (Inr (fi # fis, fi_ModTime fi))))
   }"

definition mtime_after :: "xlMetaV2Version \<Rightarrow> xlMetaV2Version \<Rightarrow> bool" where
  "mtime_after a b = (case (getModTimeFromVersion a, getModTimeFromVersion b) of
     (Some s, Some t) \<Rightarrow> s > t | _ \<Rightarrow> False)"

fun index_of :: "('a \<Rightarrow> bool) \<Rightarrow> nat \<Rightarrow> 'a list \<Rightarrow> (nat \<times> 'a) option" where
  "index_of P i [] = None"
| "index_of P i (x # xs) = (if P x then Some (i, x) else index_of P (Suc i) xs)"

definition xlMetaV2_ToFileInfo ::
  "xl_lib \<Rightarrow> (meta_map \<Rightarrow> string list) \<Rightarrow>
     ((xlMetaV2Version \<Rightarrow> xlMetaV2Version \<Rightarrow> bool) \<Rightarrow> xlMetaV2Version list \<Rightarrow> xlMetaV2Version list) \<Rightarrow>
     xlMetaV2 \<Rightarrow> string \<Rightarrow> string \<Rightarrow> string \<Rightarrow> (goerr + FileInfo) option" where
  "xlMetaV2_ToFileInfo L keys srt z volume path versionID =
     (case version_uuid L versionID of
        Inl err \<Rightarrow> Some (Inl errFileVersionNotFound)
      | Inr uv \<Rightarrow>
          if \<not> list_all Version_Valid (xm_Versions z)
          then Some (Inl (if versionID = [] then errFileNotFound else errFileVersionNotFound))
          else
            let ordered = srt mtime_after (xm_Versions z)
            in if versionID = [] then
                 (case ordered of
                    [] \<Rightarrow> Some (Inl errFileNotFound)
                  | v # _ \<Rightarrow> do {
                      r \<leftarrow> version_ToFileInfo L keys volume path v;
                      Some (case r of Inl err \<Rightarrow> Inl err
                            | Inr fi \<Rightarrow> Inr (fi\<lparr>fi_IsLatest := True, fi_NumVersions := length ordered\<rparr>))
                    })
               else (case index_of (same_version versionID uv) 0 ordered of
                    None \<Rightarrow> Some (Inl errFileVersionNotFound)
                  | Some (i, v) \<Rightarrow> do {
                      r \<leftarrow> version_ToFileInfo L keys volume path v;
                      (case r of
                         Inl err \<Rightarrow> Some (Inl err)
                       | Inr fi \<Rightarrow>
                           let fi' = fi\<lparr>fi_IsLatest := (i = 0), fi_NumVersions := length (xm_Versions z)\<rparr>
                           in if i > 0 then do {
                                t \<leftarrow> getModTimeFromVersion (ordered ! (i - 1));
                                Some (Inr (fi'\<lparr>fi_SuccessorModTime := t\<rparr>))
                              }
                              else Some (Inr fi'))
                    }))"

definition TotalSize :: "xlMetaV2 \<Rightarrow> int option" where
  "TotalSize z = foldr (\<lambda>v acc. do {
     t \<leftarrow> acc;
     (case vt_Type v of
        ObjectType \<Rightarrow> map_option (\<lambda>o2. t + o2_Size o2) (vt_ObjectV2 v)
      | LegacyType \<Rightarrow> map_option (\<lambda>o1. t + v1_StatSize o1) (vt_ObjectV1 v)
      | _ \<Rightarrow> Some t)
   }) (xm_Versions z) (Some 0)"

end
