(* ===== verification/XL_Journal.thy ===== *)
theory XL_Journal
  imports XL_Meta
begin

text \<open>
  What the version journal promises: every operation keeps the entries valid and their identifiers
  distinct, and acts on the journal as on a map from version identifiers to entries; what was added
  is read back; a delete never hands out a data directory that another version still uses; and the
  listing is ordered by time.
\<close>

subsection \<open>The journal as a map\<close>

definition entry_id :: "xlMetaV2Version \<Rightarrow> uuid" where
  "entry_id v =
     (case vt_Type v of
        ObjectType \<Rightarrow> (case vt_ObjectV2 v of None \<Rightarrow> uuid_Nil | Some o2 \<Rightarrow> o2_VersionID o2)
      | DeleteType \<Rightarrow> (case vt_DeleteMarker v of None \<Rightarrow> uuid_Nil | Some dm \<Rightarrow> dm_VersionID dm)
      | _ \<Rightarrow> uuid_Nil)"

definition legacy_null :: "xlMetaV2Version \<Rightarrow> bool" where
  "legacy_null v \<longleftrightarrow> (case vt_Type v of
     LegacyType \<Rightarrow> (case vt_ObjectV1 v of None \<Rightarrow> True | Some o1 \<Rightarrow> v1_VersionID o1 = nullVersionID) | _ \<Rightarrow> True)"

definition entries_ok :: "xlMetaV2Version list \<Rightarrow> bool" where
  "entries_ok vs \<longleftrightarrow> list_all Version_Valid vs \<and> list_all legacy_null vs \<and> distinct (map entry_id vs)"

definition journal_ok :: "xlMetaV2 \<Rightarrow> bool" where
  "journal_ok z = entries_ok (xm_Versions z)"

definition entry_map :: "xlMetaV2Version list \<Rightarrow> uuid \<rightharpoonup> xlMetaV2Version" where
  "entry_map vs = map_of (map (\<lambda>v. (entry_id v, v)) vs)"

text \<open>An identifier as the operations that add and update see it: only \<open>null\<close> is the zero UUID.\<close>

definition proper_id :: "xl_lib \<Rightarrow> string \<Rightarrow> uuid \<Rightarrow> bool" where
  "proper_id L vid uv \<longleftrightarrow> version_uuid L vid = Inr uv \<and> (uv = uuid_Nil \<longleftrightarrow> vid = nullVersionID)"

lemma entry_map_Nil [simp]: "entry_map [] = Map.empty"
  and entry_map_Cons [simp]: "entry_map (v # vs) = (entry_map vs)(entry_id v \<mapsto> v)"
  by (simp_all add: entry_map_def)

lemma entries_ok_Nil [simp]: "entries_ok []"
  and entries_ok_Cons [simp]: "entries_ok (v # vs) \<longleftrightarrow>
    Version_Valid v \<and> legacy_null v \<and> entry_id v \<notin> entry_id ` set vs \<and> entries_ok vs"
  by (auto simp: entries_ok_def)

lemma entries_ok_append:
  "entries_ok (xs @ ys) \<longleftrightarrow> entries_ok xs \<and> entries_ok ys \<and> entry_id ` set xs \<inter> entry_id ` set ys = {}"
  by (induction xs) auto

lemma dom_entry_map: "dom (entry_map vs) = entry_id ` set vs"
  by (simp add: entry_map_def dom_map_of_conv_image_fst image_image)

lemma entry_map_append: "entry_map (xs @ ys) = entry_map ys ++ entry_map xs"
  by (simp add: entry_map_def)

lemma entry_map_in: "entries_ok vs \<Longrightarrow> entry_map vs u = Some v \<longleftrightarrow> v \<in> set vs \<and> entry_id v = u"
  by (induction vs) (auto simp: image_iff)

lemma same_version_id:
  assumes "Version_Valid v" and "legacy_null v" and "proper_id L vid uv"
  shows "same_version vid uv v \<longleftrightarrow> entry_id v = uv"
  using assms
  by (auto simp: Version_Valid_def legacy_null_def same_version_def entry_id_def proper_id_def
      split: VersionType.splits option.splits)

lemma add_loop_ok:
  assumes "proper_id L vid uv" and "Version_Valid e" and "legacy_null e" and "entry_id e = uv"
  shows "entries_ok vs \<Longrightarrow> \<exists>vs'. add_loop vid uv e vs = Inr vs' \<and> entries_ok vs' \<and>
    (\<forall>u. entry_map vs' u = (if u = uv then Some e else entry_map vs u)) \<and>
    entry_id ` set vs' = insert uv (entry_id ` set vs)"
proof (induction vs)
  case (Cons v vs)
  then obtain vs' where IH: "add_loop vid uv e vs = Inr vs'" "entries_ok vs'"
    "\<forall>u. entry_map vs' u = (if u = uv then Some e else entry_map vs u)" "entry_id ` set vs' = insert uv (entry_id ` set vs)"
    by auto
  have s: "same_version vid uv v \<longleftrightarrow> entry_id v = uv"
    using same_version_id [OF _ _ assms(1)] Cons.prems by simp
  show ?case
  proof (cases "entry_id v = uv")
    case True
    then show ?thesis using Cons.prems s assms by auto
  next
    case False
    then show ?thesis using Cons.prems s IH by auto
  qed
qed (use assms in auto)

subsection \<open>Adding and updating\<close>

lemma replace_loop_lengths:
  "replace_loop M key val sz buf ks vs b = (ks', vs', b') \<Longrightarrow> length ks = length vs \<Longrightarrow> length ks' = length vs'"
proof (induction sz arbitrary: buf ks vs b)
  case (Suc sz)
  then show ?case by (fastforce split: prod.splits option.splits if_splits)
qed simp

lemma inline_replace_total: "\<exists>x'. inline_replace M x key val = Some x'"
proof -
  obtain sz buf e where h: "ReadMapHeaderBytes M (afterVersion x) = (sz, buf, e)"
    by (cases "ReadMapHeaderBytes M (afterVersion x)")
  obtain ks vs b where l: "replace_loop M key val sz buf [] [] False = (ks, vs, b)"
    by (cases "replace_loop M key val sz buf [] [] False")
  show ?thesis
    using replace_loop_lengths [OF l] by (simp add: inline_replace_def h l serialize_def)
qed

lemma new_version_id [simp]: "entry_id (new_version L fi uv dd) = uv"
  and new_version_legacy [simp]: "legacy_null (new_version L fi uv dd)"
  by (simp_all add: entry_id_def legacy_null_def new_version_def object_entry_def marker_entry_def Let_def)

lemma new_version_valid:
  "Version_Valid (new_version L fi uv dd) \<longleftrightarrow> UnixNano (fi_ModTime fi) > 0 \<and>
     (fi_Deleted fi \<or> isXLMetaErasureInfoValid (er_DataBlocks (fi_Erasure fi)) (er_ParityBlocks (fi_Erasure fi)))"
  by (auto simp: Version_Valid_def new_version_def object_entry_def marker_entry_def Let_def
      ErasureAlgo_valid_def ChecksumAlgo_valid_def erasureAlgoFromString_def)

lemma AddVersion_ok:
  assumes "journal_ok z" and "proper_id L vid uv" and "vid = (if fi_VersionID fi = [] then nullVersionID else fi_VersionID fi)"
    and "(if fi_DataDir fi \<noteq> [] then uuid_Parse L (fi_DataDir fi) else Inr uuid_Nil) = Inr dd"
    and "Version_Valid (new_version L fi uv dd)"
  shows "\<exists>z'. AddVersion L z fi = Some (z', None) \<and> journal_ok z' \<and>
    (\<forall>u. entry_map (xm_Versions z') u =
       (if u = uv then Some (new_version L fi uv dd) else entry_map (xm_Versions z) u))"
proof -
  let ?e = "new_version L fi uv dd"
  obtain vs' where vs': "add_loop vid uv ?e (xm_Versions z) = Inr vs'" "entries_ok vs'"
    "\<forall>u. entry_map vs' u = (if u = uv then Some ?e else entry_map (xm_Versions z) u)"
    using add_loop_ok [OF assms(2,5), of "xm_Versions z"] assms(1) by (auto simp: journal_ok_def)
  obtain d where d: "(if \<not> fi_Deleted fi \<and> (fi_Data fi \<noteq> [] \<or> fi_Size fi = 0)
      then inline_replace (xl_msgp L) (xm_data z) (map byte_of vid) (fi_Data fi) else Some (xm_data z)) = Some d"
    using inline_replace_total [of "xl_msgp L" "xm_data z" "map byte_of vid" "fi_Data fi"]
    by (cases "\<not> fi_Deleted fi \<and> (fi_Data fi \<noteq> [] \<or> fi_Size fi = 0)") auto
  have u: "version_uuid L vid = Inr uv" using assms(2) by (simp add: proper_id_def)
  have "AddVersion L z fi = Some (\<lparr>xm_Versions = vs', xm_data = d\<rparr>, None)"
    unfolding AddVersion_def Let_def assms(3) [symmetric] u assms(4) sum.case d option.case
    using assms(5) vs'(1) by simp
  then show ?thesis using vs'(2,3) by (auto simp: journal_ok_def)
qed

text \<open>
  (C26) Adding a version to a well-formed journal succeeds, keeps it well formed, and changes exactly
  the entry of that version: the new entry replaces an older one with its identifier.
\<close>

theorem AddVersion_journal:
  assumes "journal_ok z" and "proper_id L vid uv" and "vid = (if fi_VersionID fi = [] then nullVersionID else fi_VersionID fi)"
    and "(if fi_DataDir fi \<noteq> [] then uuid_Parse L (fi_DataDir fi) else Inr uuid_Nil) = Inr dd"
    and "0 < UnixNano (fi_ModTime fi)"
    and "fi_Deleted fi \<or> isXLMetaErasureInfoValid (er_DataBlocks (fi_Erasure fi)) (er_ParityBlocks (fi_Erasure fi))"
  shows "\<exists>z'. AddVersion L z fi = Some (z', None) \<and> journal_ok z' \<and>
    entry_map (xm_Versions z') = (entry_map (xm_Versions z))(uv \<mapsto> new_version L fi uv dd)"
proof -
  have "Version_Valid (new_version L fi uv dd)" unfolding new_version_valid using assms(5,6) by blast
  from AddVersion_ok [OF assms(1-4) this] obtain z' where z': "AddVersion L z fi = Some (z', None)" "journal_ok z'"
    "\<And>u. entry_map (xm_Versions z') u = (if u = uv then Some (new_version L fi uv dd) else entry_map (xm_Versions z) u)"
    by blast
  have "entry_map (xm_Versions z') = (entry_map (xm_Versions z))(uv \<mapsto> new_version L fi uv dd)"
    by (rule ext) (simp add: z'(3))
  then show ?thesis using z' by blast
qed

text \<open>Errors of \<open>AddVersion\<close> leave the entries alone.\<close>

lemma AddVersion_cases:
  assumes "AddVersion L z fi = Some (z', err)"
    and "vid = (if fi_VersionID fi = [] then nullVersionID else fi_VersionID fi)"
    and "ddr = (if fi_DataDir fi \<noteq> [] then uuid_Parse L (fi_DataDir fi) else Inr uuid_Nil)"
  shows "(err \<noteq> None \<and> xm_Versions z' = xm_Versions z) \<or>
    (\<exists>uv dd. version_uuid L vid = Inr uv \<and> ddr = Inr dd \<and> Version_Valid (new_version L fi uv dd))"
proof -
  let ?d = "if \<not> fi_Deleted fi \<and> (fi_Data fi \<noteq> [] \<or> fi_Size fi = 0)
      then inline_replace (xl_msgp L) (xm_data z) (map byte_of vid) (fi_Data fi) else Some (xm_data z)"
  note a = assms(1) [unfolded AddVersion_def Let_def, folded assms(2) assms(3)]
  show ?thesis
  proof (cases "version_uuid L vid")
    case (Inl e)
    then show ?thesis using a by auto
  next
    case u: (Inr uv)
    show ?thesis
    proof (cases ddr)
      case (Inl e)
      then show ?thesis using a u by auto
    next
      case (Inr dd)
      then show ?thesis
        using a u by (cases ?d; cases "Version_Valid (new_version L fi uv dd)") auto
    qed
  qed
qed

lemma AddVersion_entries:
  assumes "AddVersion L z fi = Some (z', err)" and "journal_ok z"
    and "fi_VersionID fi \<noteq> [] \<Longrightarrow> version_uuid L (fi_VersionID fi) = Inr uuid_Nil \<Longrightarrow> fi_VersionID fi = nullVersionID"
  shows "journal_ok z'"
proof -
  let ?vid = "if fi_VersionID fi = [] then nullVersionID else fi_VersionID fi"
  let ?ddr = "if fi_DataDir fi \<noteq> [] then uuid_Parse L (fi_DataDir fi) else Inr uuid_Nil"
  from AddVersion_cases [OF assms(1) refl refl] consider
    "xm_Versions z' = xm_Versions z" | uv dd where "version_uuid L ?vid = Inr uv" "?ddr = Inr dd"
      "Version_Valid (new_version L fi uv dd)"
    by blast
  then show ?thesis
  proof cases
    case 1
    then show ?thesis using assms(2) by (simp add: journal_ok_def)
  next
    case 2
    have "version_uuid L nullVersionID = Inr uuid_Nil" by (simp add: version_uuid_def)
    then have "proper_id L ?vid uv"
      using 2(1) assms(3) by (cases "fi_VersionID fi = []"; cases "uv = uuid_Nil") (auto simp: proper_id_def)
    from AddVersion_ok [OF assms(2) this refl 2(2,3)] obtain z2
      where "AddVersion L z fi = Some (z2, None)" "journal_ok z2" by blast
    then show ?thesis using assms(1) by simp
  qed
qed

lemma update_object_fields:
  "update_object fi o2 = Some o2' \<Longrightarrow> o2_VersionID o2' = o2_VersionID o2 \<and> o2_DataDir o2' = o2_DataDir o2 \<and>
     o2_ErasureAlgorithm o2' = o2_ErasureAlgorithm o2 \<and> o2_BitrotChecksumAlgo o2' = o2_BitrotChecksumAlgo o2 \<and>
     o2_ErasureM o2' = o2_ErasureM o2 \<and> o2_ErasureN o2' = o2_ErasureN o2 \<and>
     o2_ModTime o2' = (if fi_ModTime fi \<noteq> zero_time then UnixNano (fi_ModTime fi) else o2_ModTime o2)"
  by (auto simp: update_object_def Option.bind_eq_Some_conv)

lemma update_loop_ok:
  assumes "fi_ModTime fi = zero_time \<or> 0 < UnixNano (fi_ModTime fi)"
  shows "update_loop fi vid uv vs = Some (vs', err) \<Longrightarrow> entries_ok vs \<Longrightarrow>
    entries_ok vs' \<and> map entry_id vs' = map entry_id vs"
proof (induction vs arbitrary: vs')
  case (Cons v vs)
  show ?case
  proof (cases "Version_Valid v \<and> vt_Type v \<noteq> DeleteType")
    case False
    then show ?thesis using Cons.prems by auto
  next
    case a: True
    show ?thesis
    proof (cases "same_version vid uv v")
      case False
      then obtain vs1 where r: "update_loop fi vid uv vs = Some (vs1, err)" "vs' = v # vs1"
        using a Cons.prems(1) by auto
      with Cons.IH [OF r(1)] Cons.prems(2) have IH: "entries_ok vs1" "map entry_id vs1 = map entry_id vs" by auto
      then have "entry_id ` set vs1 = entry_id ` set vs" by (metis set_map)
      then show ?thesis using IH r(2) Cons.prems(2) by simp
    next
      case True
      show ?thesis
      proof (cases "vt_Type v = LegacyType")
        case True
        then show ?thesis using a \<open>same_version vid uv v\<close> Cons.prems by simp
      next
        case False
        then have t: "vt_Type v = ObjectType" using a by (auto simp: Version_Valid_def split: VersionType.splits)
        obtain o2 o2' where o: "vt_ObjectV2 v = Some o2" "update_object fi o2 = Some o2'"
          "vs' = v\<lparr>vt_ObjectV2 := Some o2'\<rparr> # vs"
          using a True t Cons.prems(1) by (auto simp: Option.bind_eq_Some_conv)
        let ?v = "v\<lparr>vt_ObjectV2 := Some o2'\<rparr>"
        have "Version_Valid ?v" "legacy_null ?v" "entry_id ?v = entry_id v"
          using a t o assms update_object_fields [OF o(2)]
          by (auto simp: Version_Valid_def legacy_null_def entry_id_def)
        then show ?thesis using o(3) Cons.prems(2) by simp
      qed
    qed
  qed
qed simp

lemma UpdateObjectVersion_ok:
  assumes "UpdateObjectVersion L z fi = Some (z', err)" and "journal_ok z"
    and "fi_ModTime fi = zero_time \<or> 0 < UnixNano (fi_ModTime fi)"
  shows "journal_ok z' \<and> map entry_id (xm_Versions z') = map entry_id (xm_Versions z)"
proof -
  let ?vid = "if fi_VersionID fi = [] then nullVersionID else fi_VersionID fi"
  show ?thesis
  proof (cases "version_uuid L ?vid")
    case (Inl e)
    then show ?thesis using assms by (auto simp: UpdateObjectVersion_def Let_def)
  next
    case (Inr uv)
    then obtain vs' where "update_loop fi ?vid uv (xm_Versions z) = Some (vs', err)" "z' = z\<lparr>xm_Versions := vs'\<rparr>"
      using assms(1) by (auto simp: UpdateObjectVersion_def Let_def)
    then show ?thesis
      using update_loop_ok [OF assms(3)] assms(2) by (simp add: journal_ok_def)
  qed
qed

subsection \<open>Deleting\<close>

text \<open>The delete code asks for \<open>null\<close> by the empty name, which no legacy entry carries.\<close>

lemma same_version_delete:
  assumes "Version_Valid v" and "legacy_null v" and "vid \<noteq> nullVersionID"
  shows "same_version vid uv v \<longleftrightarrow> vt_Type v \<noteq> LegacyType \<and> entry_id v = uv"
  using assms
  by (auto simp: Version_Valid_def legacy_null_def same_version_def entry_id_def
      split: VersionType.splits option.splits)

lemma entries_ok_replace:
  assumes "entries_ok (pre @ v # vs)" and "Version_Valid v'" and "legacy_null v'" and "entry_id v' = entry_id v"
  shows "entries_ok (pre @ v' # vs)"
  using assms by (simp add: entries_ok_append)

lemma entries_ok_remove: "entries_ok (pre @ v # vs) \<Longrightarrow> entries_ok (pre @ vs)"
  by (auto simp: entries_ok_append)

lemma entries_ok_requeue:
  assumes "entries_ok (pre @ v # vs)" and "Version_Valid e" and "legacy_null e" and "entry_id e = entry_id v"
  shows "entries_ok (pre @ vs @ [e])"
  using assms by (auto simp: entries_ok_append)

lemma delete_entry_simps:
  "fi_Deleted fi \<Longrightarrow> entry_id (delete_entry fi uv) = uv"
  "legacy_null (delete_entry fi uv)"
  by (auto simp: delete_entry_def entry_id_def legacy_null_def marker_entry_def zero_Version_def)

text \<open>What the callers respect: a version is marked deleted only together with the delete flag.\<close>

definition delete_request :: "FileInfo \<Rightarrow> uuid \<Rightarrow> bool" where
  "delete_request fi uv \<longleftrightarrow> (fi_MarkDeleted fi \<longrightarrow> fi_Deleted fi) \<and>
     (fi_Deleted fi \<longrightarrow> Version_Valid (delete_entry fi uv))"

lemma delete_marker_ok:
  assumes "delete_request fi uv" and "entries_ok (pre @ v # vs)" and "vt_Type v = DeleteType"
    and "vt_DeleteMarker v = Some dm" and "entry_id v = uv"
    and "delete_marker fi upd (delete_entry fi uv) pre v dm vs = (vs', dir, lst, err)"
  shows "entries_ok vs' \<and> err = None \<and> dir = []"
proof (cases upd)
  case True
  define v' where "v' = v\<lparr>vt_DeleteMarker := Some (dm\<lparr>dm_MetaSys := Some (set_status fi
     ((case dm_MetaSys dm of None \<Rightarrow> Map.empty | Some m \<Rightarrow> m)(AmzBucketReplicationStatus := None, VersionPurgeStatusKey := None)))\<rparr>)\<rparr>"
  have "Version_Valid v'" "legacy_null v'" "entry_id v' = entry_id v"
    using assms(2-4) by (auto simp: v'_def entries_ok_append Version_Valid_def legacy_null_def entry_id_def)
  from entries_ok_replace [OF assms(2) this] show ?thesis
    using True assms(6) by (simp add: delete_marker_def Let_def deleted_def v'_def)
next
  case False
  have "entries_ok (pre @ vs @ [delete_entry fi uv])" if "fi_MarkDeleted fi"
  proof (rule entries_ok_requeue [OF assms(2)])
    show "Version_Valid (delete_entry fi uv)" using assms(1) that by (simp add: delete_request_def)
    show "entry_id (delete_entry fi uv) = entry_id v"
      using assms(1,5) that delete_entry_simps(1) by (simp add: delete_request_def)
  qed (rule delete_entry_simps)
  then show ?thesis
    using False assms(6) entries_ok_remove [OF assms(2)]
    by (simp add: delete_marker_def deleted_def split: if_splits)
qed

lemma valid_types:
  assumes "Version_Valid v"
  shows "vt_Type v = ObjectType \<Longrightarrow> \<exists>o2. vt_ObjectV2 v = Some o2 \<and> entry_id v = o2_VersionID o2"
    and "vt_Type v = DeleteType \<Longrightarrow> \<exists>dm. vt_DeleteMarker v = Some dm"
    and "vt_Type v \<noteq> OtherVersionType n"
  using assms by (auto simp: Version_Valid_def entry_id_def split: option.splits)

lemma object_replace_ok:
  assumes "entries_ok (pre @ v # vs)" and "vt_Type v = ObjectType" and "vt_ObjectV2 v = Some o2"
    and "o2' = o2\<lparr>o2_MetaSys := m\<rparr>"
  shows "entries_ok (pre @ v\<lparr>vt_ObjectV2 := Some o2'\<rparr> # vs)"
  using assms by (intro entries_ok_replace [OF assms(1)])
    (auto simp: entries_ok_append Version_Valid_def legacy_null_def entry_id_def)

lemma delete_loop1_ok:
  assumes "delete_request fi uv" and "vid \<noteq> nullVersionID"
  shows "delete_loop1 L fi vid uv upd (delete_entry fi uv) pre vs = Some r \<Longrightarrow> entries_ok (pre @ vs) \<Longrightarrow>
    (case r of
       None \<Rightarrow> \<forall>v \<in> set vs. entry_id v = uv \<longrightarrow> vt_Type v = LegacyType \<or> (vt_Type v = ObjectType \<and> \<not> upd)
     | Some (vs', dir, lst, err) \<Rightarrow> entries_ok vs' \<and> err = None \<and> dir = [])"
proof (induction vs arbitrary: pre)
  case (Cons v vs)
  have ok: "Version_Valid v" "legacy_null v" using Cons.prems(2) by (auto simp: entries_ok_append)
  have pre: "entries_ok ((pre @ [v]) @ vs)" using Cons.prems(2) by simp
  note sv = same_version_delete [OF ok assms(2), of uv]
  consider (skip) "\<not> same_version vid uv v" | (del) "same_version vid uv v" "vt_Type v = DeleteType"
    | (obj) "same_version vid uv v" "vt_Type v = ObjectType"
    using sv valid_types(3) [OF ok(1)] by (cases "vt_Type v") auto
  then show ?case
  proof cases
    case skip
    then have "delete_loop1 L fi vid uv upd (delete_entry fi uv) (pre @ [v]) vs = Some r"
      using Cons.prems(1) ok by simp
    from Cons.IH [OF this pre] show ?thesis using skip sv by (cases r) auto
  next
    case del
    then obtain dm where dm: "vt_DeleteMarker v = Some dm" using valid_types(2) [OF ok(1)] by blast
    obtain vs' dir lst err where m: "delete_marker fi upd (delete_entry fi uv) pre v dm vs = (vs', dir, lst, err)"
      by (cases "delete_marker fi upd (delete_entry fi uv) pre v dm vs")
    have "r = Some (vs', dir, lst, err)" using Cons.prems(1) ok del dm m by simp
    then show ?thesis
      using delete_marker_ok [OF assms(1) Cons.prems(2) del(2) dm _ m] sv del by simp
  next
    case obj
    then obtain o2 where o2: "vt_ObjectV2 v = Some o2" using valid_types(1) [OF ok(1)] by blast
    show ?thesis
    proof (cases upd)
      case False
      then have "delete_loop1 L fi vid uv upd (delete_entry fi uv) (pre @ [v]) vs = Some r"
        using Cons.prems(1) ok obj by simp
      from Cons.IH [OF this pre] show ?thesis using obj False by (cases r) auto
    next
      case True
      then obtain m where "o2_MetaSys o2 = Some m"
        using Cons.prems(1) ok obj o2 by (cases "o2_MetaSys o2") auto
      then have "r = Some (deleted (pre @ v\<lparr>vt_ObjectV2 := Some (o2\<lparr>o2_MetaSys :=
          Some (m(VersionPurgeStatusKey \<mapsto> fi_VersionPurgeStatus fi))\<rparr>)\<rparr> # vs) [])"
        using Cons.prems(1) ok obj True o2 by simp
      then show ?thesis using object_replace_ok [OF Cons.prems(2) obj(2) o2 refl] by (simp add: deleted_def)
    qed
  qed
qed simp

text \<open>The entries that use a data directory.\<close>

definition uses_dir :: "uuid \<Rightarrow> xlMetaV2Version \<Rightarrow> bool" where
  "uses_dir dd v \<longleftrightarrow> vt_Type v = ObjectType \<and>
     (case vt_ObjectV2 v of None \<Rightarrow> False | Some o2 \<Rightarrow> o2_DataDir o2 = dd)"

lemma shared_count_eq:
  "list_all Version_Valid vs \<Longrightarrow> uv \<notin> entry_id ` set vs \<Longrightarrow>
     shared_count uv dd vs = Some (length (filter (uses_dir dd) vs))"
proof (induction vs)
  case (Cons v vs)
  then have IH: "shared_count uv dd vs = Some (length (filter (uses_dir dd) vs))" by simp
  show ?case
  proof (cases "vt_Type v = ObjectType")
    case True
    then obtain o2 where "vt_ObjectV2 v = Some o2" "entry_id v = o2_VersionID o2"
      using valid_types(1) Cons.prems(1) by auto
    moreover have "uses_dir dd v \<longleftrightarrow> o2_DataDir o2 = dd" using True calculation by (simp add: uses_dir_def)
    ultimately show ?thesis using IH True Cons.prems(2) by auto
  next
    case False
    then have "\<not> uses_dir dd v" by (simp add: uses_dir_def)
    then show ?thesis using IH False by simp
  qed
qed simp

lemma delete_entry_unused [simp]: "\<not> uses_dir dd (delete_entry fi uv)"
  by (simp add: uses_dir_def delete_entry_def zero_Version_def)

definition free_dir :: "xl_lib \<Rightarrow> string \<Rightarrow> xlMetaV2Version list \<Rightarrow> bool" where
  "free_dir L dir vs \<longleftrightarrow> (\<exists>dd. dir = uuid_String L dd \<and> list_all (\<lambda>v. \<not> uses_dir dd v) vs)"

lemma delete_object_ok:
  assumes "delete_request fi uv" and "entries_ok (pre @ v # vs)" and "vt_Type v = ObjectType"
    and "vt_ObjectV2 v = Some o2" and "o2_VersionID o2 = uv"
    and "delete_object L fi data (delete_entry fi uv) pre v o2 vs = Some (vs', dir, lst, err)"
  shows "entries_ok vs' \<and> err = None \<and>
    (fi_TransitionStatus fi = [] \<longrightarrow> inline_find (xl_msgp L) data (map byte_of (uuid_String L uv)) = None \<longrightarrow>
       dir = [] \<or> free_dir L dir vs')"
proof (cases "fi_TransitionStatus fi = []")
  case False
  then obtain m where "vs' = pre @ v\<lparr>vt_ObjectV2 := Some (o2\<lparr>o2_MetaSys :=
      Some (m(ReservedMetadataPrefixLower @ ''transition-status'' \<mapsto> fi_TransitionStatus fi))\<rparr>)\<rparr> # vs" "err = None"
    using assms(6) by (auto simp: delete_object_def deleted_def Option.bind_eq_Some_conv Let_def)
  then show ?thesis using object_replace_ok [OF assms(2-4) refl] False by simp
next
  case True
  define rest where "rest = (if fi_Deleted fi then pre @ vs @ [delete_entry fi uv] else pre @ vs)"
  have id: "entry_id v = uv" using assms(3-5) by (simp add: entry_id_def)
  obtain n where n: "SharedDataDirCount L (pre @ vs) data uv (o2_DataDir o2) = Some n"
    and r: "vs' = rest" "err = None" "dir = (if n > 0 then [] else uuid_String L (o2_DataDir o2))"
    using assms(5,6) True by (auto simp: delete_object_def deleted_def Option.bind_eq_Some_conv Let_def rest_def)
  have ok: "entries_ok (pre @ vs)" by (rule entries_ok_remove [OF assms(2)])
  have "entries_ok rest"
    using ok entries_ok_requeue [OF assms(2), of "delete_entry fi uv"] assms(1) id
    by (simp add: rest_def delete_request_def delete_entry_simps)
  moreover have "free_dir L dir vs'"
    if "inline_find (xl_msgp L) data (map byte_of (uuid_String L uv)) = None" "dir \<noteq> []"
  proof -
    have "uv \<notin> entry_id ` set (pre @ vs)" using assms(2) id by (auto simp: entries_ok_append)
    moreover have "list_all Version_Valid (pre @ vs)" using ok by (simp add: entries_ok_def)
    ultimately have "n = length (filter (uses_dir (o2_DataDir o2)) (pre @ vs))"
      using n that(1) shared_count_eq by (simp add: SharedDataDirCount_def)
    then have "list_all (\<lambda>v. \<not> uses_dir (o2_DataDir o2) v) (pre @ vs)"
      using that(2) r(3) by (auto simp: list_all_iff filter_empty_conv split: if_splits)
    then have "list_all (\<lambda>v. \<not> uses_dir (o2_DataDir o2) v) vs'" unfolding r(1) rest_def by simp
    then show ?thesis using that(2) r(3) unfolding free_dir_def by (auto split: if_splits)
  qed
  ultimately show ?thesis using r by blast
qed

lemma delete_loop2_ok:
  assumes "delete_request fi uv"
  shows "delete_loop2 L fi uv data (delete_entry fi uv) pre vs = Some r \<Longrightarrow> entries_ok (pre @ vs) \<Longrightarrow>
    (case r of
       None \<Rightarrow> \<forall>v \<in> set vs. vt_Type v = ObjectType \<longrightarrow> entry_id v \<noteq> uv
     | Some (vs', dir, lst, err) \<Rightarrow> entries_ok vs' \<and> err = None \<and>
        (fi_TransitionStatus fi = [] \<longrightarrow> inline_find (xl_msgp L) data (map byte_of (uuid_String L uv)) = None \<longrightarrow>
           dir = [] \<or> free_dir L dir vs'))"
proof (induction vs arbitrary: pre)
  case (Cons v vs)
  have ok: "Version_Valid v" using Cons.prems(2) by (auto simp: entries_ok_append)
  have pre: "entries_ok ((pre @ [v]) @ vs)" using Cons.prems(2) by simp
  show ?case
  proof (cases "vt_Type v = ObjectType \<and> entry_id v = uv")
    case False
    then have "delete_loop2 L fi uv data (delete_entry fi uv) (pre @ [v]) vs = Some r"
      using Cons.prems(1) ok valid_types(1) [OF ok] by (auto split: if_splits)
    from Cons.IH [OF this pre] show ?thesis using False by (cases r) auto
  next
    case True
    then obtain o2 where o2: "vt_ObjectV2 v = Some o2" "o2_VersionID o2 = uv" using valid_types(1) [OF ok] by auto
    then obtain res where "delete_object L fi data (delete_entry fi uv) pre v o2 vs = Some res" "r = Some res"
      using Cons.prems(1) ok True by auto
    then show ?thesis using delete_object_ok [OF assms Cons.prems(2) _ o2] True by (cases res) auto
  qed
qed simp

definition delete_id :: "xl_lib \<Rightarrow> FileInfo \<Rightarrow> goerr + uuid" where
  "delete_id L fi =
     (if fi_VersionID fi \<noteq> [] \<and> fi_VersionID fi \<noteq> nullVersionID then uuid_Parse L (fi_VersionID fi) else Inr uuid_Nil)"

lemma DeleteVersion_unfold:
  assumes "vid = (if fi_VersionID fi = nullVersionID then [] else fi_VersionID fi)" and "delete_id L fi = Inr uv"
  shows "DeleteVersion L z fi =
    (if fi_Deleted fi \<and> \<not> Version_Valid (delete_entry fi uv) then Some (z, [], False, Some errInvalidEntry)
     else do {
       r1 \<leftarrow> delete_loop1 L fi vid uv (delete_updates fi) (delete_entry fi uv) [] (xm_Versions z);
       r2 \<leftarrow> (case r1 of Some r \<Rightarrow> Some (Some r)
              | None \<Rightarrow> delete_loop2 L fi uv (xm_data z) (delete_entry fi uv) [] (xm_Versions z));
       (case r2 of
          Some (vs', dir, lastOne, err) \<Rightarrow> Some (z\<lparr>xm_Versions := vs'\<rparr>, dir, lastOne, err)
        | None \<Rightarrow>
            if fi_Deleted fi then Some (z\<lparr>xm_Versions := xm_Versions z @ [delete_entry fi uv]\<rparr>, [], False, None)
            else Some (z, [], False, Some errFileVersionNotFound))
     })"
proof -
  have "(if vid \<noteq> [] then uuid_Parse L vid else Inr uuid_Nil) = Inr uv"
    using assms by (auto simp: delete_id_def split: if_splits)
  then show ?thesis by (simp add: DeleteVersion_def Let_def assms(1) [symmetric])
qed

lemma DeleteVersion_ok:
  assumes "DeleteVersion L z fi = Some (z', dir, lst, err)" and "journal_ok z"
    and "fi_MarkDeleted fi \<Longrightarrow> fi_Deleted fi"
    and "fi_Deleted fi \<Longrightarrow> delete_id L fi = Inr uuid_Nil \<Longrightarrow> list_all (\<lambda>v. vt_Type v \<noteq> LegacyType) (xm_Versions z)"
  shows "journal_ok z' \<and>
    (\<forall>uv. delete_id L fi = Inr uv \<longrightarrow> fi_TransitionStatus fi = [] \<longrightarrow>
      inline_find (xl_msgp L) (xm_data z) (map byte_of (uuid_String L uv)) = None \<longrightarrow>
      dir = [] \<or> free_dir L dir (xm_Versions z'))"
proof (cases "delete_id L fi")
  case (Inl e)
  then have "z' = z" using assms(1) by (auto simp: DeleteVersion_def delete_id_def Let_def split: if_splits)
  then show ?thesis using Inl assms(2) by simp
next
  case (Inr uv)
  define vid where "vid = (if fi_VersionID fi = nullVersionID then [] else fi_VersionID fi)"
  note dv = assms(1) [unfolded DeleteVersion_unfold [OF vid_def Inr]]
  have vs: "entries_ok ([] @ xm_Versions z)" using assms(2) by (simp add: journal_ok_def)
  show ?thesis
  proof (cases "fi_Deleted fi \<and> \<not> Version_Valid (delete_entry fi uv)")
    case True
    then show ?thesis using dv assms(2) by simp
  next
    case False
    then have req: "delete_request fi uv" using assms(3) by (auto simp: delete_request_def)
    have "vid \<noteq> nullVersionID" by (simp add: vid_def nullVersionID_def)
    obtain r1 where r1: "delete_loop1 L fi vid uv (delete_updates fi) (delete_entry fi uv) [] (xm_Versions z) = Some r1"
      using dv False by (auto simp: Option.bind_eq_Some_conv)
    note l1 = delete_loop1_ok [OF req \<open>vid \<noteq> nullVersionID\<close> r1 vs]
    show ?thesis
    proof (cases r1)
      case (Some res)
      then show ?thesis using dv False r1 l1 by (cases res) (auto simp: journal_ok_def)
    next
      case None
      then obtain r2 where r2: "delete_loop2 L fi uv (xm_data z) (delete_entry fi uv) [] (xm_Versions z) = Some r2"
        using dv False r1 by (auto simp: Option.bind_eq_Some_conv)
      note l2 = delete_loop2_ok [OF req r2 vs]
      show ?thesis
      proof (cases r2)
        case (Some res)
        then show ?thesis using dv False r1 None r2 l2 Inr by (cases res) (auto simp: journal_ok_def)
      next
        case r2n: None
        have "uv \<notin> entry_id ` set (xm_Versions z)" if "fi_Deleted fi"
        proof
          assume "uv \<in> entry_id ` set (xm_Versions z)"
          then obtain v where v: "v \<in> set (xm_Versions z)" "entry_id v = uv" by auto
          then have t: "vt_Type v = LegacyType" using l1 l2 None r2n by auto
          then have "uv = uuid_Nil" using v(2) by (simp add: entry_id_def)
          then show False using assms(4) [OF that] Inr v(1) t by (auto simp: list_all_iff)
        qed
        then have "entries_ok (xm_Versions z @ [delete_entry fi uv])" if "fi_Deleted fi"
          using that vs False delete_entry_simps by (auto simp: entries_ok_append)
        then show ?thesis
          using dv False r1 None r2 r2n assms(2) by (auto simp: journal_ok_def split: if_splits)
      qed
    qed
  qed
qed


subsection \<open>Reachable journals\<close>

text \<open>
  The journals the operations build from an empty one, or from a legacy entry: versions carry
  identifiers whose UUID is zero only for \<open>null\<close>, updates carry a time that fits, and a delete
  marker for \<open>null\<close> is not requested while a legacy entry is there.
\<close>

inductive journal_reach :: "xl_lib \<Rightarrow> xlMetaV2 \<Rightarrow> bool" for L where
  empty: "journal_reach L \<lparr>xm_Versions = [], xm_data = []\<rparr>"
| legacy: "AddLegacy \<lparr>xm_Versions = [], xm_data = []\<rparr> m = (z, None) \<Longrightarrow> journal_reach L z"
| add: "journal_reach L z \<Longrightarrow> AddVersion L z fi = Some (z', err) \<Longrightarrow>
    (fi_VersionID fi \<noteq> [] \<and> version_uuid L (fi_VersionID fi) = Inr uuid_Nil \<longrightarrow> fi_VersionID fi = nullVersionID) \<Longrightarrow>
    journal_reach L z'"
| update: "journal_reach L z \<Longrightarrow> UpdateObjectVersion L z fi = Some (z', err) \<Longrightarrow>
    fi_ModTime fi = zero_time \<or> 0 < UnixNano (fi_ModTime fi) \<Longrightarrow> journal_reach L z'"
| delete: "journal_reach L z \<Longrightarrow> DeleteVersion L z fi = Some (z', dir, lst, err) \<Longrightarrow>
    (fi_MarkDeleted fi \<longrightarrow> fi_Deleted fi) \<Longrightarrow>
    (fi_Deleted fi \<and> delete_id L fi = Inr uuid_Nil \<longrightarrow> list_all (\<lambda>v. vt_Type v \<noteq> LegacyType) (xm_Versions z)) \<Longrightarrow>
    journal_reach L z'"

lemma AddLegacy_ok: "AddLegacy z m = (z', None) \<Longrightarrow> journal_ok z'"
  by (auto simp: AddLegacy_def journal_ok_def Version_Valid_def v1_valid_def legacy_null_def zero_Version_def
      split: if_splits)


subsection \<open>A plain delete\<close>

definition plain_delete :: "FileInfo \<Rightarrow> bool" where
  "plain_delete fi \<longleftrightarrow> \<not> fi_Deleted fi \<and> \<not> fi_MarkDeleted fi \<and> fi_VersionPurgeStatus fi = [] \<and>
     fi_DeleteMarkerReplicationStatus fi \<in> {[], ''REPLICA''} \<and> fi_TransitionStatus fi = []"

lemma without_id:
  assumes "entries_ok (pre @ v # vs)" and "entry_id v = uv"
  shows "filter (\<lambda>w. entry_id w \<noteq> uv) (pre @ v # vs) = pre @ vs"
proof -
  have "uv \<notin> entry_id ` set (pre @ vs)" using assms by (auto simp: entries_ok_append)
  then have "\<forall>w \<in> set (pre @ vs). entry_id w \<noteq> uv" by blast
  then show ?thesis using assms(2) by (simp add: filter_id_conv)
qed

lemma entry_map_without:
  "entry_map (filter (\<lambda>w. entry_id w \<noteq> uv) vs) u = (if u = uv then None else entry_map vs u)"
  by (induction vs) auto

lemma delete_loop1_plain:
  assumes "plain_delete fi" and "vid \<noteq> nullVersionID"
  shows "entries_ok (pre @ vs) \<Longrightarrow> delete_loop1 L fi vid uv False e pre vs = Some
    (if \<exists>v \<in> set vs. entry_id v = uv \<and> vt_Type v = DeleteType
     then Some (deleted (filter (\<lambda>w. entry_id w \<noteq> uv) (pre @ vs)) []) else None)"
proof (induction vs arbitrary: pre)
  case (Cons v vs)
  have ok: "Version_Valid v" "legacy_null v" using Cons.prems by (auto simp: entries_ok_append)
  have pre: "entries_ok ((pre @ [v]) @ vs)" using Cons.prems by simp
  note sv = same_version_delete [OF ok assms(2), of uv]
  show ?case
  proof (cases "entry_id v = uv \<and> vt_Type v = DeleteType")
    case True
    then obtain dm where "vt_DeleteMarker v = Some dm" using valid_types(2) [OF ok(1)] by blast
    then show ?thesis
      using True ok sv assms(1) without_id [OF Cons.prems] by (simp add: delete_marker_def plain_delete_def)
  next
    case False
    then have "delete_loop1 L fi vid uv False e pre (v # vs) = delete_loop1 L fi vid uv False e (pre @ [v]) vs"
      using ok sv valid_types(3) [OF ok(1)] by (auto split: VersionType.splits)
    then show ?thesis using Cons.IH [OF pre] False by auto
  qed
qed simp

lemma delete_loop2_plain:
  assumes "plain_delete fi"
  shows "entries_ok (pre @ vs) \<Longrightarrow>
    (if \<exists>v \<in> set vs. entry_id v = uv \<and> vt_Type v = ObjectType
     then \<exists>dir. delete_loop2 L fi uv data e pre vs = Some (Some (deleted (filter (\<lambda>w. entry_id w \<noteq> uv) (pre @ vs)) dir))
     else delete_loop2 L fi uv data e pre vs = Some None)"
proof (induction vs arbitrary: pre)
  case (Cons v vs)
  have ok: "Version_Valid v" using Cons.prems by (auto simp: entries_ok_append)
  have pre: "entries_ok ((pre @ [v]) @ vs)" using Cons.prems by simp
  show ?case
  proof (cases "entry_id v = uv \<and> vt_Type v = ObjectType")
    case True
    then obtain o2 where o2: "vt_ObjectV2 v = Some o2" "o2_VersionID o2 = uv" using valid_types(1) [OF ok] by auto
    have "uv \<notin> entry_id ` set (pre @ vs)" "list_all Version_Valid (pre @ vs)"
      using Cons.prems True by (auto simp: entries_ok_append entries_ok_def)
    then obtain n where "SharedDataDirCount L (pre @ vs) data uv (o2_DataDir o2) = Some n"
      using shared_count_eq unfolding SharedDataDirCount_def by metis
    then show ?thesis
      using True ok o2 assms without_id [OF Cons.prems] by (auto simp: delete_object_def plain_delete_def)
  next
    case False
    then have eq: "delete_loop2 L fi uv data e pre (v # vs) = delete_loop2 L fi uv data e (pre @ [v]) vs"
      using ok valid_types(1) [OF ok] by (auto split: if_splits)
    have ex: "(\<exists>w \<in> set (v # vs). entry_id w = uv \<and> vt_Type w = ObjectType) =
        (\<exists>w \<in> set vs. entry_id w = uv \<and> vt_Type w = ObjectType)"
      using False by auto
    have app: "pre @ v # vs = (pre @ [v]) @ vs" by simp
    show ?thesis unfolding eq ex app by (rule Cons.IH [OF pre])
  qed
qed simp

lemma DeleteVersion_removes:
  assumes "journal_ok z" and "plain_delete fi" and "delete_id L fi = Inr uv"
    and "list_all (\<lambda>v. vt_Type v \<noteq> LegacyType) (xm_Versions z)"
  shows "if uv \<in> dom (entry_map (xm_Versions z))
    then \<exists>z' dir. DeleteVersion L z fi = Some (z', dir, xm_Versions z' = [], None) \<and> journal_ok z' \<and>
           entry_map (xm_Versions z') = (entry_map (xm_Versions z))(uv := None)
    else DeleteVersion L z fi = Some (z, [], False, Some errFileVersionNotFound)"
proof -
  define vid where "vid = (if fi_VersionID fi = nullVersionID then [] else fi_VersionID fi)"
  let ?vs = "xm_Versions z" and ?e = "delete_entry fi uv"
  let ?rest = "filter (\<lambda>w. entry_id w \<noteq> uv) ?vs"
  have ok: "entries_ok ([] @ ?vs)" using assms(1) by (simp add: journal_ok_def)
  have "vid \<noteq> nullVersionID" by (simp add: vid_def nullVersionID_def)
  note l1 = delete_loop1_plain [OF assms(2) this ok, of L uv ?e]
  note l2 = delete_loop2_plain [OF assms(2) ok, of uv L "xm_data z" ?e]
  have p: "\<not> fi_Deleted fi" "\<not> delete_updates fi"
    using assms(2) by (simp_all add: plain_delete_def delete_updates_def Let_def)
  note dv = DeleteVersion_unfold [OF vid_def assms(3), of z, unfolded p(2) [THEN eq_False [THEN iffD2]] l1]
  have types: "vt_Type v = ObjectType \<or> vt_Type v = DeleteType" if "v \<in> set ?vs" for v
    using that ok assms(4) valid_types(3) [of v]
    by (cases "vt_Type v") (auto simp: entries_ok_def list_all_iff)
  show ?thesis
  proof (cases "uv \<in> dom (entry_map ?vs)")
    case False
    then have "\<forall>v \<in> set ?vs. entry_id v \<noteq> uv" by (auto simp: dom_entry_map)
    then show ?thesis using False dv l2 p(1) by auto
  next
    case True
    then obtain v where v: "v \<in> set ?vs" "entry_id v = uv" by (auto simp: dom_entry_map)
    have "\<exists>dir. DeleteVersion L z fi = Some (z\<lparr>xm_Versions := ?rest\<rparr>, dir, ?rest = [], None)"
    proof (cases "\<exists>v \<in> set ?vs. entry_id v = uv \<and> vt_Type v = DeleteType")
      case True
      then show ?thesis using dv p(1) by (auto simp: deleted_def)
    next
      case False
      then have "\<exists>v \<in> set ?vs. entry_id v = uv \<and> vt_Type v = ObjectType" using v types by blast
      then show ?thesis using False dv l2 p(1) by (auto simp: deleted_def)
    qed
    moreover have "entries_ok ?rest"
      using ok by (auto simp: entries_ok_def list_all_iff distinct_map_filter)
    moreover have "entry_map ?rest = (entry_map ?vs)(uv := None)"
      by (rule ext) (simp add: entry_map_without)
    ultimately show ?thesis using True by (force simp: journal_ok_def)
  qed
qed

text \<open>
  A plain delete removes exactly the entry with the given identifier, reports whether the
  journal became empty, and fails with the not-found error, changing nothing, when there is none.
\<close>

theorem DeleteVersion_plain:
  assumes "journal_ok z" and "plain_delete fi" and "delete_id L fi = Inr uv"
    and "list_all (\<lambda>v. vt_Type v \<noteq> LegacyType) (xm_Versions z)"
  shows "if uv \<in> dom (entry_map (xm_Versions z))
    then \<exists>z' dir. DeleteVersion L z fi = Some (z', dir, xm_Versions z' = [], None) \<and> journal_ok z' \<and>
           entry_map (xm_Versions z') = (entry_map (xm_Versions z))(uv := None)
    else DeleteVersion L z fi = Some (z, [], False, Some errFileVersionNotFound)"
  by (rule DeleteVersion_removes [OF assms])

subsection \<open>Sorting\<close>

text \<open>The insertion sort that the library uses on short slices satisfies the law.\<close>

fun insert_less :: "('a \<Rightarrow> 'a \<Rightarrow> bool) \<Rightarrow> 'a \<Rightarrow> 'a list \<Rightarrow> 'a list" where
  "insert_less lt x [] = [x]"
| "insert_less lt x (y # ys) = (if lt y x then y # insert_less lt x ys else x # y # ys)"

definition insertionSort :: "('a \<Rightarrow> 'a \<Rightarrow> bool) \<Rightarrow> 'a list \<Rightarrow> 'a list" where
  "insertionSort lt xs = foldr (insert_less lt) xs []"

lemma insert_less_mset: "mset (insert_less lt x ys) = add_mset x (mset ys)"
  by (induction ys) auto

lemma insert_less_set [simp]: "set (insert_less lt x ys) = insert x (set ys)"
  by (induction ys) auto

lemma insert_less_sorted:
  fixes key :: "'a \<Rightarrow> int"
  shows "sorted_wrt (\<lambda>a b. \<not> lt b a) ys \<Longrightarrow>
    \<forall>a \<in> insert x (set ys). \<forall>b \<in> insert x (set ys). lt a b = (key a < key b) \<Longrightarrow>
    sorted_wrt (\<lambda>a b. \<not> lt b a) (insert_less lt x ys)"
proof (induction ys)
  case (Cons y ys)
  show ?case
  proof (cases "lt y x")
    case True
    have "sorted_wrt (\<lambda>a b. \<not> lt b a) (insert_less lt x ys)"
      using Cons.IH Cons.prems by simp
    moreover have "\<forall>b \<in> set (insert_less lt x ys). \<not> lt b y" using Cons.prems True by fastforce
    ultimately show ?thesis using True by simp
  next
    case False
    have "\<not> lt b x" if "b \<in> set ys" for b
    proof -
      have "\<not> lt b y" using Cons.prems(1) that by simp
      then show ?thesis using Cons.prems(2) False that by simp
    qed
    then show ?thesis using False Cons.prems(1) by simp
  qed
qed simp

lemma insertionSort_law: "sort_law insertionSort"
  unfolding sort_law_def
proof (intro allI impI)
  fix lt :: "'a \<Rightarrow> 'a \<Rightarrow> bool" and xs :: "'a list"
  assume "\<exists>key :: 'a \<Rightarrow> int. \<forall>a \<in> set xs. \<forall>b \<in> set xs. lt a b = (key a < key b)"
  then obtain key :: "'a \<Rightarrow> int" where "\<forall>a \<in> set xs. \<forall>b \<in> set xs. lt a b = (key a < key b)" by blast
  then have "mset (insertionSort lt xs) = mset xs \<and> set (insertionSort lt xs) = set xs \<and>
      sorted_wrt (\<lambda>a b. \<not> lt b a) (insertionSort lt xs)"
  proof (induction xs)
    case (Cons x xs)
    then have IH: "mset (insertionSort lt xs) = mset xs" "set (insertionSort lt xs) = set xs"
      "sorted_wrt (\<lambda>a b. \<not> lt b a) (insertionSort lt xs)" by simp_all
    have c: "insertionSort lt (x # xs) = insert_less lt x (insertionSort lt xs)"
      by (simp add: insertionSort_def)
    show ?case
      unfolding c using IH Cons.prems insert_less_sorted [OF IH(3), of x key]
      by (simp add: insert_less_mset)
  qed (simp add: insertionSort_def)
  then show "mset (insertionSort lt xs) = mset xs \<and> sorted_wrt (\<lambda>a b. \<not> lt b a) (insertionSort lt xs)"
    by blast
qed

subsection \<open>Reading back\<close>

lemma sort_versions:
  assumes "sort_law srt" and "list_all Version_Valid vs"
  shows "mset (srt mtime_after vs) = mset vs"
    and "sorted_wrt (\<lambda>a b. the (getModTimeFromVersion a) \<ge> the (getModTimeFromVersion b)) (srt mtime_after vs)"
proof -
  have t: "\<exists>t. getModTimeFromVersion v = Some t" if "v \<in> set vs" for v
    using that assms(2)
    by (auto simp: list_all_iff Version_Valid_def getModTimeFromVersion_def split: VersionType.splits option.splits)
  have a: "mtime_after a b = (- the (getModTimeFromVersion a) < - the (getModTimeFromVersion b))"
    if "a \<in> set vs" "b \<in> set vs" for a b
    using t [OF that(1)] t [OF that(2)] by (auto simp: mtime_after_def)
  then have k: "\<exists>key :: _ \<Rightarrow> int. \<forall>a \<in> set vs. \<forall>b \<in> set vs. mtime_after a b = (key a < key b)"
    by (intro exI [of _ "\<lambda>v. - the (getModTimeFromVersion v)"]) simp
  have s: "mset (srt mtime_after vs) = mset vs \<and> sorted_wrt (\<lambda>a b. \<not> mtime_after b a) (srt mtime_after vs)"
    by (rule assms(1) [unfolded sort_law_def, rule_format, OF k])
  then show "mset (srt mtime_after vs) = mset vs" by simp
  from s have set: "set (srt mtime_after vs) = set vs" by (metis set_mset_mset)
  show "sorted_wrt (\<lambda>a b. the (getModTimeFromVersion a) \<ge> the (getModTimeFromVersion b)) (srt mtime_after vs)"
  proof (rule sorted_wrt_mono_rel [OF _ s [THEN conjunct2]])
    show "the (getModTimeFromVersion y) \<le> the (getModTimeFromVersion x)"
      if "x \<in> set (srt mtime_after vs)" "y \<in> set (srt mtime_after vs)" "\<not> mtime_after y x" for x y
      using that a [of y x] set by simp
  qed
qed

lemma index_of_unique:
  "x \<in> set xs \<Longrightarrow> P x \<Longrightarrow> (\<And>y. y \<in> set xs \<Longrightarrow> P y \<Longrightarrow> y = x) \<Longrightarrow>
     \<exists>i. index_of P n xs = Some (n + i, x) \<and> i < length xs \<and> xs ! i = x"
proof (induction xs arbitrary: n)
  case (Cons y ys)
  show ?case
  proof (cases "P y")
    case True
    then show ?thesis using Cons.prems(3) [of y] by (intro exI [of _ 0]) simp
  next
    case False
    then have "x \<in> set ys" using Cons.prems(1,2) by auto
    from Cons.IH [OF this Cons.prems(2), of "Suc n"] Cons.prems(3) obtain i
      where "index_of P (Suc n) ys = Some (Suc n + i, x)" "i < length ys" "ys ! i = x" by auto
    then show ?thesis using False by (intro exI [of _ "Suc i"]) simp
  qed
qed simp

lemma ToFileInfo_entry:
  assumes "journal_ok z" and "proper_id L vid uv" and "vid \<noteq> []" and "sort_law srt"
    and "entry_map (xm_Versions z) uv = Some v" and "version_ToFileInfo L keys volume path v = Some (Inr fi)"
  shows "\<exists>t. xlMetaV2_ToFileInfo L keys srt z volume path vid =
    Some (Inr (fi\<lparr>fi_IsLatest := (srt mtime_after (xm_Versions z) ! 0 = v),
      fi_NumVersions := length (xm_Versions z), fi_SuccessorModTime := t\<rparr>))"
proof -
  let ?vs = "xm_Versions z"
  define os where "os = srt mtime_after ?vs"
  have ok: "entries_ok ?vs" using assms(1) by (simp add: journal_ok_def)
  then have val: "list_all Version_Valid ?vs" by (simp add: entries_ok_def)
  have m: "mset os = mset ?vs" using sort_versions(1) [OF assms(4) val] by (simp add: os_def)
  then have set: "set os = set ?vs" by (metis set_mset_mset)
  have d: "distinct os" using m ok by (metis distinct_map entries_ok_def mset_eq_imp_distinct_iff)
  have v: "v \<in> set os" "entry_id v = uv" using assms(5) entry_map_in [OF ok] set by auto
  have sv: "same_version vid uv w \<longleftrightarrow> entry_id w = uv" if "w \<in> set os" for w
    using same_version_id [OF _ _ assms(2)] that ok set by (auto simp: entries_ok_def list_all_iff)
  have uni: "w = v" if "w \<in> set os" "same_version vid uv w" for w
    using sv [OF that(1)] that v ok set by (auto simp: entries_ok_def distinct_map inj_on_def)
  obtain i where i: "index_of (same_version vid uv) 0 os = Some (i, v)" "i < length os" "os ! i = v"
    using index_of_unique [OF v(1), of "same_version vid uv" 0] sv [OF v(1)] v(2) uni by auto
  have l: "i = 0 \<longleftrightarrow> os ! 0 = v" using i d by (metis gr_implies_not0 neq0_conv nth_eq_iff_index_eq)
  have u: "version_uuid L vid = Inr uv" using assms(2) by (simp add: proper_id_def)
  have "\<exists>t. getModTimeFromVersion w = Some t" if "w \<in> set os" for w
    using that val set
    by (auto simp: list_all_iff Version_Valid_def getModTimeFromVersion_def split: VersionType.splits option.splits)
  then obtain t where t: "i > 0 \<Longrightarrow> getModTimeFromVersion (os ! (i - 1)) = Some t"
    using i(2) by (metis less_imp_diff_less nth_mem)
  show ?thesis
  proof (cases "i = 0")
    case True
    then show ?thesis
      using assms(3,6) u val i l
      by (intro exI [of _ "fi_SuccessorModTime fi"]) (simp add: xlMetaV2_ToFileInfo_def Let_def os_def [symmetric])
  next
    case False
    then show ?thesis
      using assms(3,6) u val i l t
      by (intro exI [of _ t]) (simp add: xlMetaV2_ToFileInfo_def Let_def os_def [symmetric])
  qed
qed

definition kept_key :: "string \<Rightarrow> bool" where
  "kept_key k = (if reserved_key k then \<not> is_transition_key k \<and> \<not> is_purge_key k else \<not> unencrypted_key k)"

lemma reserved_not_blocks: "\<not> reserved_key ''x-obstor-blocks''"
  by (simp add: reserved_key_def HasPrefix_def ToLower_def ReservedMetadataPrefixLower_def lower_char_def byte_of_def)

lemma object_parts_entry: "object_parts (object_entry L fi uv dd) = Some (fi_Parts fi)"
  by (auto simp: object_parts_def object_entry_def Let_def intro!: nth_equalityI)

lemma object_blocks_entry:
  assumes "fi_Blocks fi \<noteq> [] \<longrightarrow> (\<exists>j. marshal_blocks L (fi_Blocks fi) = Some j \<and> j \<noteq> [] \<and>
      unmarshal_blocks L j = Some (fi_Blocks fi))"
  shows "object_blocks L (o2_MetaSys (object_entry L fi uv dd)) = fi_Blocks fi"
proof (cases "fi_Blocks fi = []")
  case True
  then show ?thesis
    by (simp add: object_blocks_def object_entry_def Let_def nil_map_def meta_part_def reserved_not_blocks)
next
  case False
  then show ?thesis
    using assms by (auto simp: object_blocks_def object_entry_def Let_def nil_map_def)
qed

lemma object_meta_entry:
  assumes "object_ToFileInfo L keys volume path (object_entry L fi uv dd) = Some (Inr fi')"
  shows "fi_Metadata fi' = meta_part kept_key (fi_Metadata fi)"
proof -
  have "fi_Metadata fi' = meta_part (\<lambda>k. \<not> unencrypted_key k) (nil_map (o2_MetaUser (object_entry L fi uv dd))) ++
      meta_part (\<lambda>k. reserved_key k \<and> \<not> is_transition_key k \<and> \<not> is_purge_key k)
        (nil_map (o2_MetaSys (object_entry L fi uv dd)))"
    using assms by (auto simp: object_ToFileInfo_def Option.bind_eq_Some_conv split: if_splits)
  also have "\<dots> = meta_part kept_key (fi_Metadata fi)"
    using reserved_not_blocks
    by (auto simp: fun_eq_iff object_entry_def Let_def nil_map_def meta_part_def kept_key_def map_add_def
        split: option.splits)
  finally show ?thesis .
qed

lemma object_entry_ToFileInfo:
  assumes "fi_Blocks fi \<noteq> [] \<longrightarrow> (\<exists>j. marshal_blocks L (fi_Blocks fi) = Some j \<and> j \<noteq> [] \<and>
      unmarshal_blocks L j = Some (fi_Blocks fi))"
  shows "\<exists>fi'. object_ToFileInfo L keys volume path (object_entry L fi uv dd) = Some (Inr fi') \<and>
    fi_VersionID fi' = uuid_name L uv \<and> fi_DataDir fi' = uuid_String L dd \<and> fi_Size fi' = fi_Size fi \<and>
    fi_ModTime fi' = UnixNano (fi_ModTime fi) \<and> fi_Parts fi' = fi_Parts fi \<and> fi_Blocks fi' = fi_Blocks fi \<and>
    er_DataBlocks (fi_Erasure fi') = er_DataBlocks (fi_Erasure fi) \<and>
    er_ParityBlocks (fi_Erasure fi') = er_ParityBlocks (fi_Erasure fi) \<and>
    er_BlockSize (fi_Erasure fi') = er_BlockSize (fi_Erasure fi) \<and>
    er_Index (fi_Erasure fi') = er_Index (fi_Erasure fi) \<and>
    er_Distribution (fi_Erasure fi') = map (\<lambda>d. d mod 256) (er_Distribution (fi_Erasure fi)) \<and>
    fi_Metadata fi' = meta_part kept_key (fi_Metadata fi)"
proof -
  have h: "o2_BitrotChecksumAlgo (object_entry L fi uv dd) = HighwayHash" by (simp add: object_entry_def Let_def)
  obtain fi' where f: "object_ToFileInfo L keys volume path (object_entry L fi uv dd) = Some (Inr fi')"
    by (simp add: object_ToFileInfo_def object_parts_entry h)
  note m = object_meta_entry [OF f]
  have "fi_Blocks fi' = fi_Blocks fi"
    using f object_blocks_entry [OF assms, of uv dd] by (auto simp: object_ToFileInfo_def object_parts_entry h)
  moreover have "fi_Parts fi' = fi_Parts fi"
    using f by (auto simp: object_ToFileInfo_def object_parts_entry h)
  moreover have "fi_VersionID fi' = uuid_name L uv \<and> fi_DataDir fi' = uuid_String L dd \<and> fi_Size fi' = fi_Size fi \<and>
    fi_ModTime fi' = UnixNano (fi_ModTime fi)"
    using f by (auto simp: object_ToFileInfo_def object_parts_entry h) (simp_all add: object_entry_def Let_def)
  moreover have "er_DataBlocks (fi_Erasure fi') = er_DataBlocks (fi_Erasure fi) \<and>
    er_ParityBlocks (fi_Erasure fi') = er_ParityBlocks (fi_Erasure fi) \<and>
    er_BlockSize (fi_Erasure fi') = er_BlockSize (fi_Erasure fi) \<and>
    er_Index (fi_Erasure fi') = er_Index (fi_Erasure fi) \<and>
    er_Distribution (fi_Erasure fi') = map (\<lambda>d. d mod 256) (er_Distribution (fi_Erasure fi))"
    using f by (auto simp: object_ToFileInfo_def object_parts_entry h) (simp_all add: object_entry_def Let_def)
  ultimately show ?thesis using f m by blast
qed

lemma added_ToFileInfo:
  assumes "journal_ok z" and "proper_id L vid uv" and "vid = (if fi_VersionID fi = [] then nullVersionID else fi_VersionID fi)"
    and "(if fi_DataDir fi \<noteq> [] then uuid_Parse L (fi_DataDir fi) else Inr uuid_Nil) = Inr dd"
    and "0 < UnixNano (fi_ModTime fi)" and "\<not> fi_Deleted fi"
    and "isXLMetaErasureInfoValid (er_DataBlocks (fi_Erasure fi)) (er_ParityBlocks (fi_Erasure fi))"
    and "fi_Blocks fi \<noteq> [] \<longrightarrow> (\<exists>j. marshal_blocks L (fi_Blocks fi) = Some j \<and> j \<noteq> [] \<and>
      unmarshal_blocks L j = Some (fi_Blocks fi))"
    and "sort_law srt"
  shows "\<exists>z' fi'. AddVersion L z fi = Some (z', None) \<and>
    xlMetaV2_ToFileInfo L keys srt z' volume path vid = Some (Inr fi') \<and>
    fi_VersionID fi' = uuid_name L uv \<and> fi_DataDir fi' = uuid_String L dd \<and> fi_Size fi' = fi_Size fi \<and>
    fi_ModTime fi' = UnixNano (fi_ModTime fi) \<and> fi_Parts fi' = fi_Parts fi \<and> fi_Blocks fi' = fi_Blocks fi \<and>
    er_DataBlocks (fi_Erasure fi') = er_DataBlocks (fi_Erasure fi) \<and>
    er_ParityBlocks (fi_Erasure fi') = er_ParityBlocks (fi_Erasure fi) \<and>
    er_Index (fi_Erasure fi') = er_Index (fi_Erasure fi) \<and>
    fi_Metadata fi' = meta_part kept_key (fi_Metadata fi) \<and> fi_NumVersions fi' = length (xm_Versions z')"
proof -
  let ?e = "new_version L fi uv dd"
  have v: "Version_Valid ?e" unfolding new_version_valid using assms(5,7) by blast
  obtain z' where z': "AddVersion L z fi = Some (z', None)" "journal_ok z'" "entry_map (xm_Versions z') uv = Some ?e"
    using AddVersion_ok [OF assms(1-4) v] by auto
  have ne: "vid \<noteq> []" using assms(3) by (auto simp: nullVersionID_def)
  obtain f where f: "object_ToFileInfo L keys volume path (object_entry L fi uv dd) = Some (Inr f)"
    and fs: "fi_VersionID f = uuid_name L uv \<and> fi_DataDir f = uuid_String L dd \<and> fi_Size f = fi_Size fi \<and>
    fi_ModTime f = UnixNano (fi_ModTime fi) \<and> fi_Parts f = fi_Parts fi \<and> fi_Blocks f = fi_Blocks fi \<and>
    er_DataBlocks (fi_Erasure f) = er_DataBlocks (fi_Erasure fi) \<and>
    er_ParityBlocks (fi_Erasure f) = er_ParityBlocks (fi_Erasure fi) \<and>
    er_Index (fi_Erasure f) = er_Index (fi_Erasure fi) \<and> fi_Metadata f = meta_part kept_key (fi_Metadata fi)"
    using object_entry_ToFileInfo [OF assms(8), of keys volume path uv dd] by blast
  have t: "version_ToFileInfo L keys volume path ?e = Some (Inr f)"
    using f assms(6) by (simp add: version_ToFileInfo_def new_version_def)
  from ToFileInfo_entry [OF z'(2) assms(2) ne assms(9) z'(3) t] obtain t where
    "xlMetaV2_ToFileInfo L keys srt z' volume path vid = Some (Inr (f\<lparr>fi_IsLatest := (srt mtime_after (xm_Versions z') ! 0 = ?e),
      fi_NumVersions := length (xm_Versions z'), fi_SuccessorModTime := t\<rparr>))" by blast
  then show ?thesis using z'(1) fs by (intro exI [of _ z']) simp
qed


subsection \<open>Listing\<close>

lemma list_loop_versions_all2:
  "list_loop_versions L keys volume path vs = Some (Inr fis) \<Longrightarrow>
     list_all2 (\<lambda>v fi. version_ToFileInfo L keys volume path v = Some (Inr fi)) vs fis \<and> list_all Version_Valid vs"
proof (induction vs arbitrary: fis)
  case (Cons v vs)
  have v: "Version_Valid v" using Cons.prems by (auto split: if_splits)
  obtain r where r: "version_ToFileInfo L keys volume path v = Some r"
    using Cons.prems v by (cases "version_ToFileInfo L keys volume path v") auto
  obtain fi where fi: "r = Inr fi" using Cons.prems v r by (cases r) auto
  obtain rs where rs: "list_loop_versions L keys volume path vs = Some rs"
    using Cons.prems v r fi by (cases "list_loop_versions L keys volume path vs") auto
  then obtain fis' where "rs = Inr fis'" "fis = fi # fis'" using Cons.prems v r fi by (cases rs) auto
  with rs r fi v have "list_loop_versions L keys volume path vs = Some (Inr fis')" "fis = fi # fis'"
    "version_ToFileInfo L keys volume path v = Some (Inr fi)" by simp_all
  then show ?case using Cons.IH v by simp
qed simp

lemma version_ToFileInfo_fields:
  assumes "Version_Valid v" and "version_ToFileInfo L keys volume path v = Some (Inr fi)"
  shows "\<not> fi_IsLatest fi \<and> getModTimeFromVersion v = Some (fi_ModTime fi) \<and>
    (fi_Deleted fi \<longleftrightarrow> vt_Type v = DeleteType)"
proof (cases "vt_Type v")
  case ObjectType
  then obtain o2 where "vt_ObjectV2 v = Some o2" "object_ToFileInfo L keys volume path o2 = Some (Inr fi)"
    using assms by (auto simp: version_ToFileInfo_def Option.bind_eq_Some_conv)
  then show ?thesis
    using ObjectType
    by (auto simp: object_ToFileInfo_def getModTimeFromVersion_def empty_FileInfo_def
        Option.bind_eq_Some_conv split: if_splits)
next
  case DeleteType
  then show ?thesis
    using assms
    by (auto simp: version_ToFileInfo_def getModTimeFromVersion_def marker_ToFileInfo_def empty_FileInfo_def
        Option.bind_eq_Some_conv)
next
  case LegacyType
  then show ?thesis
    using assms
    by (auto simp: version_ToFileInfo_def getModTimeFromVersion_def v1_ToFileInfo_def empty_FileInfo_def
        Option.bind_eq_Some_conv split: if_splits)
next
  case (OtherVersionType n)
  then show ?thesis using assms(1) valid_types(3) by blast
qed

lemma number_versions_fields:
  assumes "i < length vs" and "\<not> fi_IsLatest (vs ! i)"
  shows "fi_ModTime (number_versions vs ! i) = fi_ModTime (vs ! i) \<and>
    fi_VersionID (number_versions vs ! i) = fi_VersionID (vs ! i) \<and>
    (fi_IsLatest (number_versions vs ! i) \<longleftrightarrow> i = 0) \<and> fi_NumVersions (number_versions vs ! i) = length vs \<and>
    (0 < i \<longrightarrow> fi_SuccessorModTime (number_versions vs ! i) = fi_ModTime (vs ! (i - 1)))"
  using assms by (simp add: number_versions_def)

lemma number_versions_length [simp]: "length (number_versions vs) = length vs"
  by (simp add: number_versions_def)

text \<open>
  A listing has one entry per version, newest first; exactly the first is the latest, each
  entry knows the number of versions, and each later one the time of its successor.
\<close>

theorem ListVersions_ordered:
  assumes "sort_law srt" and "ListVersions L keys srt z volume path = Some (Inr (fis, t))"
  shows "length fis = length (xm_Versions z) \<and> 0 < length fis \<and> t = fi_ModTime (fis ! 0) \<and>
    sorted_wrt (\<lambda>a b. fi_ModTime a \<ge> fi_ModTime b) fis \<and>
    mset (map (\<lambda>fi. Some (fi_ModTime fi)) fis) = mset (map getModTimeFromVersion (xm_Versions z)) \<and>
    list_all (\<lambda>i. (fi_IsLatest (fis ! i) \<longleftrightarrow> i = 0) \<and> fi_NumVersions (fis ! i) = length fis \<and>
      (i = 0 \<or> fi_SuccessorModTime (fis ! i) = fi_ModTime (fis ! (i - 1)))) [0..<length fis]"
proof -
  obtain r where r: "list_loop_versions L keys volume path (xm_Versions z) = Some r"
    using assms(2) unfolding ListVersions_def by (cases "list_loop_versions L keys volume path (xm_Versions z)") auto
  then obtain vs where l: "list_loop_versions L keys volume path (xm_Versions z) = Some (Inr vs)"
    using assms(2) unfolding ListVersions_def by (cases r) auto
  then obtain f fs where ns: "number_versions (srt versionsSorter_Less vs) = f # fs"
    using assms(2) by (cases "number_versions (srt versionsSorter_Less vs)") (simp_all add: ListVersions_def)
  then have "fis = f # fs \<and> t = fi_ModTime f" using assms(2) l by (simp add: ListVersions_def)
  with ns have n: "fis = number_versions (srt versionsSorter_Less vs)" "fis \<noteq> []" and t: "t = fi_ModTime (fis ! 0)"
    by simp_all
  define os where "os = srt versionsSorter_Less vs"
  note a2 = list_loop_versions_all2 [OF l]
  have f: "\<not> fi_IsLatest (vs ! i)" "getModTimeFromVersion (xm_Versions z ! i) = Some (fi_ModTime (vs ! i))"
    if "i < length vs" for i
    using version_ToFileInfo_fields [of "xm_Versions z ! i" L keys volume path "vs ! i"] that a2
    by (auto simp: list_all2_conv_all_nth list_all_length)
  have len: "length vs = length (xm_Versions z)" using a2 by (auto simp: list_all2_lengthD)
  have nl: "\<not> fi_IsLatest a" if "a \<in> set vs" for a using that f(1) by (auto simp: in_set_conv_nth)
  have "\<exists>key :: FileInfo \<Rightarrow> int. \<forall>a \<in> set vs. \<forall>b \<in> set vs. versionsSorter_Less a b = (key a < key b)"
    using nl by (intro exI [of _ "\<lambda>a. - fi_ModTime a"]) (simp add: versionsSorter_Less_def)
  then have s: "mset os = mset vs \<and> sorted_wrt (\<lambda>a b. \<not> versionsSorter_Less b a) os"
    unfolding os_def by (rule assms(1) [unfolded sort_law_def, rule_format])
  then have so: "set os = set vs" "length os = length vs" by (metis set_mset_mset, metis size_mset)
  have so2: "sorted_wrt (\<lambda>a b. fi_ModTime a \<ge> fi_ModTime b) os"
    by (rule sorted_wrt_mono_rel [OF _ s [THEN conjunct2]])
      (use nl so(1) in \<open>auto simp: versionsSorter_Less_def\<close>)
  have fields: "fi_ModTime (fis ! i) = fi_ModTime (os ! i) \<and> (fi_IsLatest (fis ! i) \<longleftrightarrow> i = 0) \<and>
      fi_NumVersions (fis ! i) = length os \<and> (0 < i \<longrightarrow> fi_SuccessorModTime (fis ! i) = fi_ModTime (os ! (i - 1)))"
    if "i < length os" for i
    using number_versions_fields [OF that] nl so(1) nth_mem [OF that] n(1) by (simp add: os_def)
  have lf: "length fis = length os" using n(1) by (simp add: os_def)
  have times: "map fi_ModTime fis = map fi_ModTime os" using fields lf by (auto intro: nth_equalityI)
  have "mset (map (\<lambda>fi. Some (fi_ModTime fi)) fis) = image_mset Some (mset (map fi_ModTime os))"
    using times by (metis (mono_tags, lifting) list.map_comp map_eq_conv comp_def mset_map)
  also have "\<dots> = mset (map (\<lambda>fi. Some (fi_ModTime fi)) vs)" using s by (simp flip: mset_map) (simp add: image_mset.compositionality comp_def)
  also have "map (\<lambda>fi. Some (fi_ModTime fi)) vs = map getModTimeFromVersion (xm_Versions z)"
    using f(2) len by (auto intro: nth_equalityI)
  finally have m: "mset (map (\<lambda>fi. Some (fi_ModTime fi)) fis) = mset (map getModTimeFromVersion (xm_Versions z))" .
  have "sorted_wrt (\<lambda>a b. a \<ge> b) (map fi_ModTime os)" using so2 by (simp add: sorted_wrt_map)
  then have "sorted_wrt (\<lambda>a b. fi_ModTime a \<ge> fi_ModTime b) fis" by (simp add: sorted_wrt_map flip: times)
  moreover have "list_all (\<lambda>i. (fi_IsLatest (fis ! i) \<longleftrightarrow> i = 0) \<and> fi_NumVersions (fis ! i) = length fis \<and>
      (i = 0 \<or> fi_SuccessorModTime (fis ! i) = fi_ModTime (fis ! (i - 1)))) [0..<length fis]"
  proof -
    have "(fi_IsLatest (fis ! i) \<longleftrightarrow> i = 0) \<and> fi_NumVersions (fis ! i) = length fis \<and>
        (i = 0 \<or> fi_SuccessorModTime (fis ! i) = fi_ModTime (fis ! (i - 1)))" if "i < length fis" for i
      using fields [of i] fields [of "i - 1"] that lf by (cases i) simp_all
    then show ?thesis by (simp add: list_all_iff)
  qed
  moreover have "length fis = length (xm_Versions z)" using lf so(2) len by simp
  moreover have "0 < length fis" using n(2) by simp
  ultimately show ?thesis using m t by blast
qed

subsection \<open>A concrete library and journal\<close>

text \<open>UUIDs printed as their bits, block references as text.\<close>

definition bits_String :: "uuid \<Rightarrow> string" where
  "bits_String u = map (\<lambda>i. if bit u i then CHR ''1'' else CHR ''0'') [0..<128]"

definition bits_Parse :: "string \<Rightarrow> goerr + uuid" where
  "bits_Parse s = (if length s = 128 then Inr (horner_sum of_bool 2 (map (\<lambda>c. c = CHR ''1'') s))
     else Inl (ErrorsNew ''invalid UUID length''))"

lemma bits_Parse_String: "bits_Parse (bits_String u) = Inr u"
proof -
  have "map (\<lambda>c. c = CHR ''1'') (bits_String u) = map (bit u) [0..<128]" by (simp add: bits_String_def comp_def)
  moreover have "horner_sum of_bool 2 (map (bit u) [0..<128]) = take_bit 128 u" by (rule horner_sum_bit_eq_take_bit)
  moreover have "take_bit 128 u = u" by (rule take_bit_word_eq_self) simp
  moreover have "length (bits_String u) = 128" by (simp add: bits_String_def)
  ultimately show ?thesis unfolding bits_Parse_def by simp
qed

definition sample_lib :: xl_lib where
  "sample_lib = \<lparr>xl_msgp = wide_msgp, uuid_Parse = bits_Parse, uuid_String = bits_String,
     marshal_blocks = (\<lambda>_. None), unmarshal_blocks = (\<lambda>_. None)\<rparr>"

definition sample_version :: "string \<Rightarrow> string \<Rightarrow> int \<Rightarrow> FileInfo" where
  "sample_version vid dir t = empty_FileInfo\<lparr>fi_VersionID := vid, fi_DataDir := dir, fi_ModTime := t, fi_Size := 7,
     fi_Parts := [\<lparr>pt_ETag = ''e'', pt_Number = 1, pt_Size = 7, pt_ActualSize = 7\<rparr>],
     fi_Erasure := empty_ErasureInfo\<lparr>er_DataBlocks := 2, er_ParityBlocks := 2, er_Index := 1,
       er_Distribution := [1, 2, 3, 4]\<rparr>\<rparr>"

lemma sample_proper:
  "proper_id sample_lib nullVersionID uuid_Nil"
  "u \<noteq> 0 \<Longrightarrow> proper_id sample_lib (bits_String u) u"
proof -
  show "proper_id sample_lib nullVersionID uuid_Nil" by (simp add: proper_id_def version_uuid_def)
  have "length (bits_String u) = 128" by (simp add: bits_String_def)
  then have "bits_String u \<noteq> []" "bits_String u \<noteq> nullVersionID" by (auto simp: nullVersionID_def)
  then show "proper_id sample_lib (bits_String u) u" if "u \<noteq> 0"
    using that by (simp add: proper_id_def version_uuid_def sample_lib_def bits_Parse_String uuid_Nil_def)
qed

lemma sample_version_fields:
  "0 < UnixNano (fi_ModTime (sample_version vid dir 5))" "\<not> fi_Deleted (sample_version vid dir t)"
  "isXLMetaErasureInfoValid (er_DataBlocks (fi_Erasure (sample_version vid dir t)))
     (er_ParityBlocks (fi_Erasure (sample_version vid dir t)))"
  "fi_VersionID (sample_version vid dir t) = vid" "fi_DataDir (sample_version vid dir t) = dir"
  "fi_Blocks (sample_version vid dir t) = []" "fi_Size (sample_version vid dir t) = 7"
  by (simp_all add: sample_version_def UnixNano_def to_int64_def empty_FileInfo_def isXLMetaErasureInfoValid_def)

definition empty_journal :: xlMetaV2 where
  "empty_journal = \<lparr>xm_Versions = [], xm_data = []\<rparr>"

lemma empty_journal_ok: "journal_ok empty_journal"
  by (simp add: empty_journal_def journal_ok_def)

theorem AddVersion_journal_witness:
  "\<exists>z. AddVersion sample_lib empty_journal (sample_version [] [] 5) = Some (z, None) \<and> journal_ok z \<and>
     entry_map (xm_Versions z) uuid_Nil = Some (new_version sample_lib (sample_version [] [] 5) uuid_Nil uuid_Nil)"
  using AddVersion_journal [OF empty_journal_ok sample_proper(1), of "sample_version [] [] 5" uuid_Nil]
  by (auto simp: sample_version_fields)



definition sample_journal :: xlMetaV2 where
  "sample_journal = \<lparr>xm_Versions = [new_version sample_lib (sample_version [] [] 5) uuid_Nil uuid_Nil], xm_data = []\<rparr>"

lemma sample_journal_ok: "journal_ok sample_journal"
  by (simp add: journal_ok_def sample_journal_def new_version_valid sample_version_fields)

lemma sample_journal_types:
  "list_all (\<lambda>v. vt_Type v \<noteq> LegacyType) (xm_Versions sample_journal)" "xm_data sample_journal = []"
  "dom (entry_map (xm_Versions sample_journal)) = {uuid_Nil}"
  by (simp_all add: sample_journal_def new_version_def sample_version_fields entry_id_def object_entry_def Let_def)

lemma sample_delete:
  "plain_delete empty_FileInfo" "delete_id sample_lib empty_FileInfo = Inr uuid_Nil"
  by (simp_all add: plain_delete_def delete_id_def empty_FileInfo_def)

theorem DeleteVersion_plain_witness:
  "\<exists>z dir. DeleteVersion sample_lib sample_journal empty_FileInfo = Some (z, dir, xm_Versions z = [], None) \<and>
     entry_map (xm_Versions z) uuid_Nil = None"
  using DeleteVersion_plain [OF sample_journal_ok sample_delete sample_journal_types(1)]
  by (auto simp: sample_journal_types)

lemma sample_delete_result:
  "DeleteVersion sample_lib sample_journal empty_FileInfo =
     Some (\<lparr>xm_Versions = [], xm_data = []\<rparr>, bits_String uuid_Nil, True, None)"
proof -
  define e where "e = new_version sample_lib (sample_version [] [] 5) uuid_Nil uuid_Nil"
  define o2 where "o2 = object_entry sample_lib (sample_version [] [] 5) uuid_Nil uuid_Nil"
  have e: "vt_Type e = ObjectType" "vt_ObjectV2 e = Some o2" "Version_Valid e"
    by (simp_all add: e_def o2_def new_version_valid sample_version_fields) (simp_all add: new_version_def sample_version_fields)
  have o2: "o2_VersionID o2 = uuid_Nil" "o2_DataDir o2 = uuid_Nil"
    by (simp_all add: o2_def object_entry_def Let_def)
  have f: "\<not> fi_Deleted empty_FileInfo" "fi_TransitionStatus empty_FileInfo = []" "fi_VersionID empty_FileInfo = []"
    "\<not> delete_updates empty_FileInfo"
    by (simp_all add: empty_FileInfo_def delete_updates_def)
  have n: "[] \<noteq> nullVersionID" by (simp add: nullVersionID_def)
  have "delete_loop1 sample_lib empty_FileInfo [] uuid_Nil False d [] [e] = Some None" for d
    using e o2 by (simp add: same_version_def)
  moreover have "delete_loop2 sample_lib empty_FileInfo uuid_Nil [] d [] [e] =
      Some (Some ([], bits_String uuid_Nil, True, None))" for d
    using e o2 f by (simp add: delete_object_def SharedDataDirCount_def inline_find_def deleted_def)
      (simp add: sample_lib_def)
  ultimately show ?thesis
    using f n by (simp add: DeleteVersion_def Let_def sample_journal_def e_def [symmetric])
qed


theorem ListVersions_ordered_witness:
  "\<exists>fis t. ListVersions sample_lib (\<lambda>m. []) insertionSort sample_journal ''v'' ''p'' = Some (Inr (fis, t)) \<and>
     length fis = 1 \<and> fi_IsLatest (fis ! 0)"
proof -
  let ?e = "new_version sample_lib (sample_version [] [] 5) uuid_Nil uuid_Nil"
  obtain f where "object_ToFileInfo sample_lib (\<lambda>m. []) ''v'' ''p''
      (object_entry sample_lib (sample_version [] [] 5) uuid_Nil uuid_Nil) = Some (Inr f)"
    using object_entry_ToFileInfo [of "sample_version [] [] 5" sample_lib "\<lambda>m. []" "''v''" "''p''" uuid_Nil uuid_Nil]
      sample_version_fields(6) by blast
  then have "version_ToFileInfo sample_lib (\<lambda>m. []) ''v'' ''p'' ?e = Some (Inr f)"
    by (simp add: version_ToFileInfo_def new_version_def sample_version_fields)
  then have l: "list_loop_versions sample_lib (\<lambda>m. []) ''v'' ''p'' (xm_Versions sample_journal) = Some (Inr [f])"
    by (simp add: sample_journal_def new_version_valid sample_version_fields)
  obtain g where g: "number_versions (insertionSort versionsSorter_Less [f]) = [g]"
    by (simp add: insertionSort_def number_versions_def)
  have eq: "ListVersions sample_lib (\<lambda>m. []) insertionSort sample_journal ''v'' ''p'' = Some (Inr ([g], fi_ModTime g))"
    unfolding ListVersions_def l by (simp add: g)
  have "fi_IsLatest g" using ListVersions_ordered [OF insertionSort_law eq] by simp
  with eq show ?thesis by (intro exI [of _ "[g]"] exI [of _ "fi_ModTime g"]) simp
qed

subsection \<open>Deviations\<close>

text \<open>
  A legacy entry carries the name \<open>null\<close>, which a delete replaces by the empty name before it
  compares: the \<open>null\<close> version of a legacy object cannot be deleted.
\<close>

lemma DeleteVersion_legacy_null:
  assumes "AddLegacy empty_journal m = (z, None)" and "fi_VersionID fi = nullVersionID" and "plain_delete fi"
  shows "DeleteVersion L z fi = Some (z, [], False, Some errFileVersionNotFound)"
proof -
  define v where "v = zero_Version\<lparr>vt_Type := LegacyType,
      vt_ObjectV1 := Some (m\<lparr>v1_VersionID := nullVersionID, v1_DataDir := legacyDataDir\<rparr>)\<rparr>"
  have z: "z = \<lparr>xm_Versions = [v], xm_data = []\<rparr>" and "v1_valid m"
    using assms(1) by (auto simp: AddLegacy_def empty_journal_def v_def split: if_splits)
  then have v: "Version_Valid v" "vt_Type v = LegacyType" "\<not> same_version [] uuid_Nil v"
    by (simp_all add: v_def Version_Valid_def v1_valid_def same_version_def nullVersionID_def)
  have "\<not> delete_updates fi" "\<not> fi_Deleted fi"
    using assms(3) by (simp_all add: plain_delete_def delete_updates_def Let_def)
  then show ?thesis using v z assms(2) by (simp add: DeleteVersion_def)
qed

text \<open>
  An update stops at the first delete marker of the journal, also when the marker is another
  version: an object written after a delete marker cannot be updated.
\<close>

lemma update_stops_at_marker:
  "Version_Valid d \<Longrightarrow> vt_Type d = DeleteType \<Longrightarrow>
     update_loop fi vid uv (d # vs) = Some (d # vs, Some errMethodNotAllowed)"
  by simp

end
