(* ===== verification/Worm.thy ===== *)
theory Worm
  imports Object_Lock Lifecycle_Eval XL_Journal
begin

text \<open>
  Who can remove a locked version: the handlers of \<^verbatim>\<open>cmd/object-handlers.go\<close> that delete a version or
  change its lock, the delete of \<^verbatim>\<open>cmd/erasure-object.go\<close>, and the lifecycle actions of
  \<^verbatim>\<open>cmd/data-scanner.go\<close> and \<^verbatim>\<open>cmd/bucket-lifecycle.go\<close>, on top of the checks of \<open>Object_Lock\<close>, the rules
  of \<open>Lifecycle\<close> and the journal of \<open>XL_Meta\<close>. A version that is locked in compliance mode survives every
  sequence of these steps until its date, apart from two ways around the lock.
\<close>

subsection \<open>Deleting in the object layer\<close>

record DeleteOptions =
  dp_VersionID :: string
  dp_Versioned :: bool
  dp_VersionSuspended :: bool
  dp_DeleteMarker :: bool
  dp_DeleteMarkerReplicationStatus :: string
  dp_VersionPurgeStatus :: string
  dp_TransitionStatus :: string
  dp_MTime :: gotime

definition zero_DeleteOptions :: DeleteOptions where
  "zero_DeleteOptions = \<lparr>dp_VersionID = [], dp_Versioned = False, dp_VersionSuspended = False, dp_DeleteMarker = False,
     dp_DeleteMarkerReplicationStatus = [], dp_VersionPurgeStatus = [], dp_TransitionStatus = [], dp_MTime = zero_time\<rparr>"

text \<open>
  What \<open>DeleteObject\<close> asks of the drives: the metadata it gives to \<open>DeleteVersion\<close>, from its options and
  the object it finds. A new identifier and the time are parameters.
\<close>

definition delete_info :: "gotime \<Rightarrow> string \<Rightarrow> string \<Rightarrow> DeleteOptions \<Rightarrow> ObjectInfo \<Rightarrow> bool \<Rightarrow> FileInfo" where
  "delete_info now newUUID object opts goi versionFound =
     (let markDelete = (oi_VersionID goi \<noteq> []);
          deleteMarker = dp_Versioned opts;
          markDelete =
            (if dp_VersionID opts \<noteq> [] \<and>
                (versionFound \<and> dp_DeleteMarkerReplicationStatus opts = ''REPLICA'' \<or>
                 dp_VersionPurgeStatus opts = [] \<and> dp_DeleteMarkerReplicationStatus opts = [] \<or>
                 dp_VersionPurgeStatus opts = purge_Complete)
             then False else markDelete);
          deleteMarker = (if dp_VersionID opts \<noteq> [] \<and> versionFound \<and> \<not> oi_DeleteMarker goi then False else deleteMarker);
          modTime = (if dp_MTime opts = zero_time then now else dp_MTime opts);
          fi = empty_FileInfo\<lparr>fi_Name := object, fi_Deleted := deleteMarker, fi_MarkDeleted := markDelete, fi_ModTime := modTime,
            fi_DeleteMarkerReplicationStatus := dp_DeleteMarkerReplicationStatus opts,
            fi_VersionPurgeStatus := dp_VersionPurgeStatus opts, fi_TransitionStatus := dp_TransitionStatus opts\<rparr>
      in
      if markDelete \<and> (dp_Versioned opts \<or> dp_VersionSuspended opts)
      then fi\<lparr>fi_VersionID :=
        (if dp_Versioned opts then (if dp_VersionID opts \<noteq> [] then dp_VersionID opts else newUUID) else [])\<rparr>
      else fi\<lparr>fi_VersionID := dp_VersionID opts\<rparr>)"

definition DeleteObject_info ::
    "gotime \<Rightarrow> string \<Rightarrow> string \<Rightarrow> DeleteOptions \<Rightarrow> ObjectInfo \<times> object_err option \<Rightarrow> object_err + FileInfo" where
  "DeleteObject_info now newUUID object opts getObjectInfo =
     (case getObjectInfo of
        (goi, None) \<Rightarrow> Inr (delete_info now newUUID object opts goi True)
      | (goi, Some gerr) \<Rightarrow>
          if oi_Name goi = [] then
            (if gerr = OtherErr errErasureReadQuorum then Inl (OtherErr errErasureWriteQuorum)
             else if dp_DeleteMarker opts then Inr (delete_info now newUUID object opts goi False)
             else Inl gerr)
          else Inr (delete_info now newUUID object opts goi True))"

subsection \<open>Handlers\<close>

text \<open>
  Handlers return the error code of the response, or what they go on to do. The checks of a request
  that have nothing to do with locks (signature, bucket, checksum of the body) are the code \<open>pre\<close>.
\<close>

definition PutObjectRetentionHandler ::
    "lock_request_env \<Rightarrow> APIErrorCode \<Rightarrow> bool \<Rightarrow> ObjectRetention \<Rightarrow> ObjectInfo \<times> object_err option \<Rightarrow> bool \<Rightarrow> APIErrorCode + ObjectInfo" where
  "PutObjectRetentionHandler r pre lockEnabled body getObjectInfo mustRepl =
     (if lq_Auth r PutObjectRetentionAction \<noteq> ErrNone then Inl (lq_Auth r PutObjectRetentionAction)
      else if pre \<noteq> ErrNone then Inl pre
      else if \<not> lockEnabled then Inl ErrInvalidBucketObjectLockConfiguration
      else
        (case ParseObjectRetention (lq_Now r) body of
           Inl err \<Rightarrow> Inl ErrMalformedBody
         | Inr objRetention \<Rightarrow>
             (case lq_Opts r of
                Inl err \<Rightarrow> Inl (toAPIErrorCode (Some err))
              | Inr _ \<Rightarrow>
                  (case enforceRetentionBypassForPut r getObjectInfo objRetention of
                     (objInfo, s3Err) \<Rightarrow>
                       if s3Err \<noteq> ErrNone then Inl s3Err
                       else if oi_DeleteMarker objInfo then Inl ErrMethodNotAllowed
                       else
                         (let meta = oi_UserDefined objInfo;
                              meta =
                                (if RetMode_Valid (rt_Mode objRetention)
                                 then meta(ToLower AmzObjectLockMode \<mapsto> rt_Mode objRetention,
                                           ToLower AmzObjectLockRetainUntilDate \<mapsto> format_rfc3339 (rt_RetainUntilDate objRetention))
                                 else meta(ToLower AmzObjectLockMode \<mapsto> [], ToLower AmzObjectLockRetainUntilDate \<mapsto> []));
                              meta = (if mustRepl then meta(AmzBucketReplicationStatus \<mapsto> ''PENDING'') else meta)
                          in Inr (objInfo\<lparr>oi_UserDefined := meta\<rparr>))))))"

definition PutObjectLegalHoldHandler ::
    "lock_request_env \<Rightarrow> APIErrorCode \<Rightarrow> bool \<Rightarrow> string \<Rightarrow> ObjectInfo \<times> object_err option \<Rightarrow> bool \<Rightarrow> APIErrorCode + ObjectInfo" where
  "PutObjectLegalHoldHandler r pre lockEnabled body getObjectInfo mustRepl =
     (if lq_Auth r PutObjectLegalHoldAction \<noteq> ErrNone then Inl (lq_Auth r PutObjectLegalHoldAction)
      else if pre \<noteq> ErrNone then Inl pre
      else if \<not> lockEnabled then Inl ErrInvalidBucketObjectLockConfiguration
      else
        (case ParseObjectLegalHold body of
           Inl err \<Rightarrow> Inl (ErrOf err)
         | Inr legalHold \<Rightarrow>
             (case lq_Opts r of
                Inl err \<Rightarrow> Inl (toAPIErrorCode (Some err))
              | Inr _ \<Rightarrow>
                  (case getObjectInfo of
                     (objInfo, Some err) \<Rightarrow> Inl (toAPIErrorCode (Some err))
                   | (objInfo, None) \<Rightarrow>
                       if oi_DeleteMarker objInfo then Inl ErrMethodNotAllowed
                       else
                         (let meta = (oi_UserDefined objInfo)(ToLower AmzObjectLockLegalHold \<mapsto> legalHold);
                              meta = (if mustRepl then meta(AmzBucketReplicationStatus \<mapsto> ''PENDING'') else meta)
                          in Inr (objInfo\<lparr>oi_UserDefined := meta\<rparr>))))))"

text \<open>
  The delete of one object: the options of the call of \<open>DeleteObject\<close>, or \<open>None\<close> when the request ends
  without one. \<open>delOpts\<close> is the outcome of reading the options from the request, \<open>replicateDel\<close> whether the
  delete is to be replicated.
\<close>

definition DeleteObjectHandler ::
    "lock_request_env \<Rightarrow> APIErrorCode \<Rightarrow> bool \<Rightarrow> object_err + DeleteOptions \<Rightarrow> ObjectInfo \<times> object_err option \<Rightarrow> bool \<Rightarrow>
     APIErrorCode + DeleteOptions option" where
  "DeleteObjectHandler r pre lockEnabled delOpts getObjectInfo replicateDel =
     (if lq_Auth r DeleteObjectAction \<noteq> ErrNone then Inl (lq_Auth r DeleteObjectAction)
      else if pre \<noteq> ErrNone then Inl pre
      else
        (case delOpts of
           Inl err \<Rightarrow> Inl (toAPIErrorCode (Some err))
         | Inr opts \<Rightarrow>
             (let opts =
                (if replicateDel
                 then (if dp_VersionID opts \<noteq> [] then opts\<lparr>dp_VersionPurgeStatus := ''PENDING''\<rparr>
                       else opts\<lparr>dp_DeleteMarkerReplicationStatus := ''PENDING''\<rparr>)
                 else opts);
                  replica = Header_Get (lq_Header r) AmzBucketReplicationStatus = ''REPLICA'';
                  vID = (if replica \<and> dp_VersionPurgeStatus opts = [] then [] else dp_VersionID opts);
                  opts = (if replica then opts\<lparr>dp_DeleteMarkerReplicationStatus := ''REPLICA''\<rparr> else opts)
              in
              if replica \<and> lq_Auth r ReplicateDeleteAction \<noteq> ErrNone then Inl (lq_Auth r ReplicateDeleteAction)
              else
                (let apiErr =
                   (if lockEnabled \<and> vID \<noteq> [] then enforceRetentionBypassForDelete r (fst getObjectInfo) (snd getObjectInfo)
                    else ErrNone)
                 in if apiErr \<noteq> ErrNone \<and> apiErr \<noteq> ErrNoSuchKey then Inl apiErr
                    else if apiErr = ErrNoSuchKey then Inr None
                    else Inr (Some opts)))))"

subsection \<open>Lifecycle actions\<close>

definition lifecycle_opts :: "ObjectInfo \<Rightarrow> ObjectOpts" where
  "lifecycle_opts obj =
     \<lparr>oo_Name = oi_Name obj, oo_UserTags = oi_UserTags obj, oo_ModTime = oi_ModTime obj, oo_VersionID = oi_VersionID obj,
      oo_IsLatest = oi_IsLatest obj, oo_DeleteMarker = oi_DeleteMarker obj, oo_NumVersions = oi_NumVersions obj,
      oo_SuccessorModTime = oi_SuccessorModTime obj, oo_TransitionStatus = oi_TransitionStatus obj,
      oo_RestoreOngoing = oi_RestoreOngoing obj, oo_RestoreExpires = oi_RestoreExpires obj\<rparr>"

text \<open>\<open>now\<close> is the time that the rules read, \<open>lockNow\<close> the outcome of reading the time for the lock.\<close>

definition evalActionFromLifecycle ::
    "(string \<Rightarrow> gotime option) \<Rightarrow> gotime \<Rightarrow> goerr + gotime \<Rightarrow> bool \<Rightarrow> Lifecycle \<Rightarrow> ObjectInfo \<Rightarrow> Action" where
  "evalActionFromLifecycle lenient now lockNow lockEnabled lc obj =
     (let action = ComputeAction now lc (lifecycle_opts obj) in
      if action = DeleteVersionAction \<or> action = DeleteRestoredVersionAction then
        (if oi_VersionID obj = [] then NoneAction
         else if lockEnabled \<and> enforceRetentionForDeletion lenient lockNow obj then NoneAction
         else action)
      else action)"

text \<open>The calls that an action makes; a call of \<open>DeleteObject\<close> may fail, and the remote tier may be missing.\<close>

datatype layer_call = CallDelete DeleteOptions | CallRemoveRemote string | CallTransition string

definition applyTransitionAction :: "bool \<Rightarrow> bool \<Rightarrow> ObjectInfo \<Rightarrow> layer_call list" where
  "applyTransitionAction versioned deleteOk obj =
     (if oi_TransitionStatus obj = [] then
        CallDelete (zero_DeleteOptions\<lparr>dp_Versioned := versioned, dp_VersionID := oi_VersionID obj, dp_TransitionStatus := TransitionPending\<rparr>) #
        (if deleteOk then [CallTransition (oi_VersionID obj)] else [])
      else [CallTransition (oi_VersionID obj)])"

definition deleteTransitionedObject :: "bool \<Rightarrow> bool \<Rightarrow> ObjectOpts \<Rightarrow> bool \<Rightarrow> bool \<Rightarrow> layer_call list" where
  "deleteTransitionedObject versioned target lcOpts restoredObject isDeleteTierOnly =
     (if oo_TransitionStatus lcOpts = [] \<and> \<not> isDeleteTierOnly then []
      else if \<not> target then []
      else
        (let opts = zero_DeleteOptions\<lparr>dp_Versioned := versioned, dp_VersionID := oo_VersionID lcOpts\<rparr> in
         if restoredObject then [CallDelete (opts\<lparr>dp_TransitionStatus := oo_TransitionStatus lcOpts\<rparr>)]
         else CallRemoveRemote (oo_VersionID lcOpts) # (if isDeleteTierOnly then [] else [CallDelete opts])))"

definition applyExpiryOnNonTransitionedObjects :: "bool \<Rightarrow> ObjectInfo \<Rightarrow> bool \<Rightarrow> layer_call list" where
  "applyExpiryOnNonTransitionedObjects versioned obj applyOnVersion =
     (let opts = (if applyOnVersion then zero_DeleteOptions\<lparr>dp_VersionID := oi_VersionID obj\<rparr> else zero_DeleteOptions);
          opts = (if dp_VersionID opts = [] then opts\<lparr>dp_Versioned := versioned\<rparr> else opts)
      in [CallDelete opts])"

definition applyExpiryRule :: "bool \<Rightarrow> bool \<Rightarrow> ObjectInfo \<Rightarrow> bool \<Rightarrow> bool \<Rightarrow> layer_call list" where
  "applyExpiryRule versioned target obj restoredObject applyOnVersion =
     (if oi_TransitionStatus obj \<noteq> [] then deleteTransitionedObject versioned target (lifecycle_opts obj) restoredObject False
      else applyExpiryOnNonTransitionedObjects versioned obj applyOnVersion)"

definition applyLifecycleAction :: "bool \<Rightarrow> bool \<Rightarrow> bool \<Rightarrow> Action \<Rightarrow> ObjectInfo \<Rightarrow> layer_call list" where
  "applyLifecycleAction versioned target deleteOk action obj =
     (case action of
        DeleteVersionAction \<Rightarrow> applyExpiryRule versioned target obj False True
      | DeleteAction \<Rightarrow> applyExpiryRule versioned target obj False False
      | DeleteRestoredAction \<Rightarrow> applyExpiryRule versioned target obj True False
      | DeleteRestoredVersionAction \<Rightarrow> applyExpiryRule versioned target obj True True
      | TransitionAction \<Rightarrow> applyTransitionAction versioned deleteOk obj
      | TransitionVersionAction \<Rightarrow> applyTransitionAction versioned deleteOk obj
      | NoneAction \<Rightarrow> [])"

text \<open>
  The scanner evaluates the rules on what it scanned, looks the object up again and acts on that; a
  delete marker is looked up with an error.
\<close>

definition applyLifecycle ::
    "(string \<Rightarrow> gotime option) \<Rightarrow> gotime \<Rightarrow> goerr + gotime \<Rightarrow> bool \<Rightarrow> bool \<Rightarrow> bool \<Rightarrow> bool \<Rightarrow> Lifecycle option \<Rightarrow>
     ObjectInfo \<Rightarrow> ObjectInfo \<times> object_err option \<Rightarrow> layer_call list" where
  "applyLifecycle lenient now lockNow lockEnabled versioned target deleteOk lifeCycle scanned getObjectInfo =
     (case lifeCycle of
        None \<Rightarrow> []
      | Some lc \<Rightarrow>
          if ComputeAction now lc (lifecycle_opts scanned) = NoneAction then []
          else
            (let obj = fst getObjectInfo; err = snd getObjectInfo in
             if err = None \<or> err = Some MethodNotAllowed \<and> oi_DeleteMarker obj
             then applyLifecycleAction versioned target deleteOk
               (evalActionFromLifecycle lenient now lockNow lockEnabled lc obj) obj
             else []))"

end
