(* ===== verification/Worm_Safety.thy ===== *)
theory Worm_Safety
  imports Worm
begin

text \<open>
  Compliance retention as a state machine: the life of one version under requests, lifecycle actions and
  the passing of time. The version is there and its lock is not weaker until its date has come; the
  theorems after that show the two ways around it, and ways around governance mode and the default
  retention of a bucket.
\<close>

subsection \<open>Lock metadata\<close>

lemma lock_keys [simp]:
  "ToLower AmzObjectLockMode = ''x-amz-object-lock-mode''"
  "ToLower AmzObjectLockRetainUntilDate = ''x-amz-object-lock-retain-until-date''"
  "ToLower AmzObjectLockLegalHold = ''x-amz-object-lock-legal-hold''"
  by code_simp+

lemma modes [simp]: "RetMode_Valid RetCompliance" "RetMode_Valid RetGovernance" "RetCompliance \<noteq> RetGovernance" "RetGovernance \<noteq> RetCompliance"
  by (simp_all add: RetMode_Valid_def RetCompliance_def RetGovernance_def)

lemma parse_modes [simp]: "parseRetMode RetCompliance = RetCompliance" "parseRetMode RetGovernance = RetGovernance"
  by (simp_all add: parseRetMode_def upper_is_def RetCompliance_def RetGovernance_def runes_ascii ascii_def byte_of_def upper_rune_def)

text \<open>What a successful request for retention leaves behind is read back as such, to the second.\<close>

lemma retention_of_put:
  assumes "RetMode_Valid mode" and "four_digit_year d"
    and "meta (''x-amz-object-lock-mode'') = Some mode" and "meta (''x-amz-object-lock-retain-until-date'') = Some (format_rfc3339 d)"
  shows "GetObjectRetentionMeta lenient meta = \<lparr>rt_Mode = mode, rt_RetainUntilDate = Truncate_second d\<rparr>"
proof -
  have "parseRetMode mode = mode" using assms(1) by (auto simp: RetMode_Valid_def)
  then show ?thesis using assms(3,4) parse_format_rfc3339 [OF assms(2), of lenient]
    by (simp add: GetObjectRetentionMeta_def lock_meta_def)
qed

lemma Truncate_second_mono: "d \<le> t \<Longrightarrow> d mod second_ns = 0 \<Longrightarrow> d \<le> Truncate_second t"
proof -
  assume a: "d \<le> t" "d mod second_ns = 0"
  then have "d = second_ns * (d div second_ns)" using mult_div_mod_eq [of second_ns d] by simp
  also have "\<dots> \<le> second_ns * (t div second_ns)" using a(1) by (simp add: second_ns_def zdiv_mono1)
  also have "\<dots> = Truncate_second t" by (simp add: Truncate_second_def minus_mod_eq_mult_div)
  finally show ?thesis .
qed

subsection \<open>The life of a version\<close>

record worm_state =
  ws_Now :: gotime
  ws_Info :: ObjectInfo
  ws_Present :: bool

text \<open>
  A call of \<open>DeleteObject\<close> that reaches the drives with the identifier of the version removes it, unless it
  only sets a transition status. Deletes that are first replicated count as removed at once.
\<close>

definition removes :: "string \<Rightarrow> FileInfo \<Rightarrow> bool" where
  "removes v fi \<longleftrightarrow> fi_VersionID fi = v \<and> fi_TransitionStatus fi = []"

definition do_delete :: "gotime \<Rightarrow> string \<Rightarrow> DeleteOptions \<Rightarrow> ObjectInfo \<times> object_err option \<Rightarrow> worm_state \<Rightarrow> worm_state" where
  "do_delete now newUUID opts found st =
     (case DeleteObject_info now newUUID (oi_Name (ws_Info st)) opts found of
        Inl err \<Rightarrow> st
      | Inr fi \<Rightarrow> if removes (oi_VersionID (ws_Info st)) fi then st\<lparr>ws_Present := False\<rparr> else st)"

definition same_lock :: "ObjectInfo \<Rightarrow> ObjectInfo \<Rightarrow> bool" where
  "same_lock a b \<longleftrightarrow> oi_VersionID a = oi_VersionID b \<and>
     (\<forall>k \<in> {''x-amz-object-lock-mode'', ''x-amz-object-lock-retain-until-date'', ''x-amz-object-lock-legal-hold'',
       AmzObjectLockMode, AmzObjectLockRetainUntilDate, AmzObjectLockLegalHold}. oi_UserDefined a k = oi_UserDefined b k)"

text \<open>
  Steps in a versioned bucket with locking: time passes; requests change the retention, the legal hold,
  or delete this or the latest version, with any headers and permissions; the scanner acts on the
  version; and everything else about the version changes. Requests that claim to be replicated deletes,
  and lifecycle actions on a version in transition, are left out.
\<close>

inductive worm_step :: "(string \<Rightarrow> gotime option) \<Rightarrow> worm_state \<Rightarrow> worm_state \<Rightarrow> bool" for lenient where
  tick: "ws_Now st \<le> t \<Longrightarrow> worm_step lenient st (st\<lparr>ws_Now := t\<rparr>)"
| put_retention: "lq_Lenient r = lenient \<Longrightarrow> lq_Now r = Inr (ws_Now st) \<Longrightarrow> four_digit_year (rt_RetainUntilDate body) \<Longrightarrow>
    PutObjectRetentionHandler r pre True body (ws_Info st, None) repl = Inr oi \<Longrightarrow> worm_step lenient st (st\<lparr>ws_Info := oi\<rparr>)"
| put_hold: "PutObjectLegalHoldHandler r pre True body (ws_Info st, None) repl = Inr oi \<Longrightarrow> worm_step lenient st (st\<lparr>ws_Info := oi\<rparr>)"
| delete: "lq_Lenient r = lenient \<Longrightarrow> lq_Now r = Inr (ws_Now st) \<Longrightarrow>
    Header_Get (lq_Header r) AmzBucketReplicationStatus \<noteq> ''REPLICA'' \<Longrightarrow>
    dp_VersionID opts = [] \<or> dp_VersionID opts = oi_VersionID (ws_Info st) \<and> found = (ws_Info st, None) \<Longrightarrow>
    DeleteObjectHandler r pre True (Inr opts) found repl = Inr (Some opts') \<Longrightarrow> newUUID \<noteq> oi_VersionID (ws_Info st) \<Longrightarrow>
    worm_step lenient st (do_delete (ws_Now st) newUUID opts' found st)"
| scan: "oi_TransitionStatus (ws_Info st) = [] \<Longrightarrow>
    CallDelete opts \<in> set (applyLifecycle lenient (ws_Now st) (Inr (ws_Now st)) True True target ok lc scanned (ws_Info st, None)) \<Longrightarrow>
    newUUID \<noteq> oi_VersionID (ws_Info st) \<Longrightarrow> worm_step lenient st (do_delete (ws_Now st) newUUID opts (ws_Info st, None) st)"
| other: "same_lock (ws_Info st) oi \<Longrightarrow> worm_step lenient st (st\<lparr>ws_Info := oi\<rparr>)"

definition compliance_until :: "(string \<Rightarrow> gotime option) \<Rightarrow> gotime \<Rightarrow> worm_state \<Rightarrow> bool" where
  "compliance_until lenient d st \<longleftrightarrow>
     ws_Present st \<and> oi_VersionID (ws_Info st) \<noteq> [] \<and>
     (let ret = GetObjectRetentionMeta lenient (oi_UserDefined (ws_Info st)) in rt_Mode ret = RetCompliance \<and> d \<le> rt_RetainUntilDate ret)"

subsection \<open>No step removes or weakens\<close>

lemma delete_info_fields:
  "fi_VersionID (delete_info now newUUID object opts goi found) \<in> {newUUID, [], dp_VersionID opts}"
  "dp_VersionID opts = [] \<Longrightarrow> fi_VersionID (delete_info now newUUID object opts goi found) \<in> {newUUID, []}"
  "fi_TransitionStatus (delete_info now newUUID object opts goi found) = dp_TransitionStatus opts"
  by (auto simp: delete_info_def Let_def empty_FileInfo_def)

text \<open>A delete without the identifier of the version, or that sets a transition status, leaves it alone.\<close>

lemma do_delete_harmless:
  assumes "oi_VersionID (ws_Info st) \<noteq> []" and "newUUID \<noteq> oi_VersionID (ws_Info st)"
    and "dp_VersionID opts = [] \<or> dp_TransitionStatus opts \<noteq> []"
  shows "do_delete now newUUID opts found st = st"
proof -
  have "\<not> removes (oi_VersionID (ws_Info st)) (delete_info now newUUID (oi_Name (ws_Info st)) opts goi b)" for goi b
    using assms delete_info_fields [where opts = opts and newUUID = newUUID and now = now and object = "oi_Name (ws_Info st)" and goi = goi and found = b]
    by (auto simp: removes_def)
  then show ?thesis by (auto simp: do_delete_def DeleteObject_info_def split: prod.splits option.splits if_splits)
qed

lemma compliance_blocks:
  assumes "compliance_until lenient d st" and "ws_Now st < d"
  shows "lq_Lenient r = lenient \<Longrightarrow> lq_Now r = Inr (ws_Now st) \<Longrightarrow> enforceRetentionBypassForDelete r (ws_Info st) None \<noteq> ErrNone"
    and "enforceRetentionForDeletion lenient (Inr (ws_Now st)) (ws_Info st)"
proof -
  obtain u where ret: "GetObjectRetentionMeta lenient (oi_UserDefined (ws_Info st)) = \<lparr>rt_Mode = RetCompliance, rt_RetainUntilDate = u\<rparr>" and u: "d \<le> u"
    using assms(1) by (cases "GetObjectRetentionMeta lenient (oi_UserDefined (ws_Info st))") (auto simp: compliance_until_def Let_def)
  show "enforceRetentionForDeletion lenient (Inr (ws_Now st)) (ws_Info st)"
    using ret u assms(2) by (simp add: enforceRetentionForDeletion_def)
  assume "lq_Lenient r = lenient" "lq_Now r = Inr (ws_Now st)"
  then show "enforceRetentionBypassForDelete r (ws_Info st) None \<noteq> ErrNone"
    using ret u assms(2)
    by (auto simp: enforceRetentionBypassForDelete_def Let_def toAPIErrorCode_def split: sum.splits object_err.splits)
qed

lemma handler_enforces:
  assumes "DeleteObjectHandler r pre True (Inr opts) found repl = Inr (Some opts')"
    and "Header_Get (lq_Header r) AmzBucketReplicationStatus \<noteq> ''REPLICA''"
  shows "dp_VersionID opts' = dp_VersionID opts"
    and "dp_VersionID opts \<noteq> [] \<Longrightarrow> enforceRetentionBypassForDelete r (fst found) (snd found) = ErrNone"
  using assms by (auto simp: DeleteObjectHandler_def Let_def split: if_splits)

lemma scan_calls:
  assumes "CallDelete opts \<in> set (applyLifecycle lenient now lockNow True versioned target ok lc scanned (obj, None))"
    and "oi_TransitionStatus obj = []" and "enforceRetentionForDeletion lenient lockNow obj"
  shows "dp_VersionID opts = [] \<or> dp_TransitionStatus opts \<noteq> []"
proof -
  obtain l where c: "CallDelete opts \<in> set (applyLifecycleAction versioned target ok (evalActionFromLifecycle lenient now lockNow True l obj) obj)"
    using assms(1) by (auto simp: applyLifecycle_def split: option.splits if_splits)
  have "evalActionFromLifecycle lenient now lockNow True l obj \<notin> {DeleteVersionAction, DeleteRestoredVersionAction}"
    using assms(3) by (auto simp: evalActionFromLifecycle_def Let_def)
  then show ?thesis using c assms(2)
    by (cases "evalActionFromLifecycle lenient now lockNow True l obj")
      (auto simp: applyLifecycleAction_def applyExpiryRule_def applyExpiryOnNonTransitionedObjects_def applyTransitionAction_def
        zero_DeleteOptions_def TransitionPending_def split: if_splits)
qed

lemma retention_cong:
  assumes "m ''x-amz-object-lock-mode'' = m' ''x-amz-object-lock-mode''" and "m AmzObjectLockMode = m' AmzObjectLockMode"
    and "m ''x-amz-object-lock-retain-until-date'' = m' ''x-amz-object-lock-retain-until-date''"
    and "m AmzObjectLockRetainUntilDate = m' AmzObjectLockRetainUntilDate"
  shows "GetObjectRetentionMeta lenient m = GetObjectRetentionMeta lenient m'"
proof -
  have "lock_meta m AmzObjectLockMode = lock_meta m' AmzObjectLockMode"
    "lock_meta m AmzObjectLockRetainUntilDate = lock_meta m' AmzObjectLockRetainUntilDate"
    using assms by (simp_all add: lock_meta_def cong: option.case_cong)
  then show ?thesis by (simp add: GetObjectRetentionMeta_def cong: option.case_cong)
qed

lemma same_lock_retention: "same_lock a b \<Longrightarrow> GetObjectRetentionMeta lenient (oi_UserDefined b) = GetObjectRetentionMeta lenient (oi_UserDefined a)"
  by (rule retention_cong) (simp_all add: same_lock_def)

lemma replication_key: "AmzBucketReplicationStatus \<noteq> ''x-amz-object-lock-mode''" "AmzBucketReplicationStatus \<noteq> ''x-amz-object-lock-retain-until-date''"
  "AmzBucketReplicationStatus \<noteq> ''x-amz-object-lock-legal-hold''" "AmzBucketReplicationStatus \<noteq> AmzObjectLockMode"
  "AmzBucketReplicationStatus \<noteq> AmzObjectLockRetainUntilDate"
  "AmzObjectLockMode \<noteq> ''x-amz-object-lock-legal-hold''" "AmzObjectLockRetainUntilDate \<noteq> ''x-amz-object-lock-legal-hold''"
  by (simp_all add: AmzBucketReplicationStatus_def AmzObjectLockMode_def AmzObjectLockRetainUntilDate_def)

lemma put_retention_ok:
  assumes "PutObjectRetentionHandler r pre True body look repl = Inr oi'"
  shows "\<exists>oi. enforceRetentionBypassForPut r look body = (oi, ErrNone) \<and> oi' = oi\<lparr>oi_UserDefined := oi_UserDefined oi'\<rparr> \<and>
    (RetMode_Valid (rt_Mode body) \<longrightarrow> oi_UserDefined oi' ''x-amz-object-lock-mode'' = Some (rt_Mode body) \<and>
      oi_UserDefined oi' ''x-amz-object-lock-retain-until-date'' = Some (format_rfc3339 (rt_RetainUntilDate body)))"
proof -
  obtain oi code where e: "enforceRetentionBypassForPut r look body = (oi, code)" by fastforce
  have b: "ParseObjectRetention (lq_Now r) body = Inr b \<Longrightarrow> b = body" for b
    by (auto simp: ParseObjectRetention_def split: if_splits sum.splits)
  show ?thesis using assms e replication_key
    by (auto simp: PutObjectRetentionHandler_def Let_def dest!: b split: if_splits sum.splits)
qed

lemma put_retention_keeps:
  assumes "PutObjectRetentionHandler r pre True body (oi, None) repl = Inr oi'" and "lq_Now r = Inr now" and "lq_Lenient r = lenient"
    and "four_digit_year (rt_RetainUntilDate body)"
    and "rt_Mode (GetObjectRetentionMeta lenient (oi_UserDefined oi)) = RetCompliance"
    and "d \<le> rt_RetainUntilDate (GetObjectRetentionMeta lenient (oi_UserDefined oi))" and "now < d" and "d mod second_ns = 0"
  shows "oi_VersionID oi' = oi_VersionID oi \<and> rt_Mode (GetObjectRetentionMeta lenient (oi_UserDefined oi')) = RetCompliance \<and>
    d \<le> rt_RetainUntilDate (GetObjectRetentionMeta lenient (oi_UserDefined oi'))"
proof -
  let ?old = "GetObjectRetentionMeta lenient (oi_UserDefined oi)"
  obtain oi0 where e: "enforceRetentionBypassForPut r (oi, None) body = (oi0, ErrNone)"
    and o: "oi' = oi0\<lparr>oi_UserDefined := oi_UserDefined oi'\<rparr>"
    and m: "RetMode_Valid (rt_Mode body) \<Longrightarrow> oi_UserDefined oi' ''x-amz-object-lock-mode'' = Some (rt_Mode body) \<and>
      oi_UserDefined oi' ''x-amz-object-lock-retain-until-date'' = Some (format_rfc3339 (rt_RetainUntilDate body))"
    using put_retention_ok [OF assms(1)] by blast
  have oi0: "oi0 = oi" using e by (auto simp: enforceRetentionBypassForPut_def Let_def toAPIErrorCode_def split: if_splits sum.splits object_err.splits)
  have new: "rt_Mode body = RetCompliance" "rt_RetainUntilDate ?old \<le> rt_RetainUntilDate body"
    using e assms(2,3,5,6,7) by (auto simp: enforceRetentionBypassForPut_def Let_def toAPIErrorCode_def split: if_splits sum.splits object_err.splits)
  have oi': "oi_VersionID oi' = oi_VersionID oi" "oi_UserDefined oi' ''x-amz-object-lock-mode'' = Some RetCompliance"
    "oi_UserDefined oi' ''x-amz-object-lock-retain-until-date'' = Some (format_rfc3339 (rt_RetainUntilDate body))"
    using arg_cong [OF o, of oi_VersionID] m new(1) oi0 by auto
  have "GetObjectRetentionMeta lenient (oi_UserDefined oi') = \<lparr>rt_Mode = RetCompliance, rt_RetainUntilDate = Truncate_second (rt_RetainUntilDate body)\<rparr>"
    by (rule retention_of_put) (use oi' assms(4) in auto)
  moreover have "d \<le> Truncate_second (rt_RetainUntilDate body)" using new(2) assms(6,8) by (intro Truncate_second_mono) auto
  ultimately show ?thesis using oi'(1) by simp
qed

lemma put_hold_keeps:
  assumes "PutObjectLegalHoldHandler r pre True body (oi, None) repl = Inr oi'"
  shows "oi_VersionID oi' = oi_VersionID oi \<and> GetObjectRetentionMeta lenient (oi_UserDefined oi') = GetObjectRetentionMeta lenient (oi_UserDefined oi)"
proof -
  obtain l where o: "oi' = oi\<lparr>oi_UserDefined := (oi_UserDefined oi)(''x-amz-object-lock-legal-hold'' \<mapsto> l)\<rparr> \<or>
    oi' = oi\<lparr>oi_UserDefined := (oi_UserDefined oi)(''x-amz-object-lock-legal-hold'' \<mapsto> l, AmzBucketReplicationStatus \<mapsto> ''PENDING'')\<rparr>"
    using assms by (auto simp: PutObjectLegalHoldHandler_def Let_def split: if_splits sum.splits)
  have "GetObjectRetentionMeta lenient (oi_UserDefined oi') = GetObjectRetentionMeta lenient (oi_UserDefined oi)"
    by (rule retention_cong) (use o replication_key in auto)
  then show ?thesis using o by auto
qed

lemma worm_step_keeps:
  assumes "worm_step lenient st st'" and "compliance_until lenient d st" and "ws_Now st < d" and "d mod second_ns = 0"
  shows "compliance_until lenient d st'"
proof -
  have v: "oi_VersionID (ws_Info st) \<noteq> []" using assms(2) by (simp add: compliance_until_def)
  have ret: "rt_Mode (GetObjectRetentionMeta lenient (oi_UserDefined (ws_Info st))) = RetCompliance"
    "d \<le> rt_RetainUntilDate (GetObjectRetentionMeta lenient (oi_UserDefined (ws_Info st)))"
    using assms(2) by (simp_all add: compliance_until_def Let_def)
  note blocks = compliance_blocks [OF assms(2,3)]
  from assms(1) show ?thesis
  proof cases
    case (tick t)
    then show ?thesis using assms(2) by (simp add: compliance_until_def)
  next
    case (put_retention r body pre repl oi)
    then show ?thesis using put_retention_keeps [OF put_retention(5,3,2,4) ret assms(3,4)] assms(2) by (simp add: compliance_until_def Let_def)
  next
    case (put_hold r pre body repl oi)
    then show ?thesis using put_hold_keeps [OF put_hold(2), of lenient] assms(2) by (simp add: compliance_until_def)
  next
    case (delete r opts found pre repl opts' newUUID)
    have e: "dp_VersionID opts' = dp_VersionID opts" by (rule handler_enforces(1) [OF delete(6,4)])
    have "dp_VersionID opts = []"
    proof (rule ccontr)
      assume a: "dp_VersionID opts \<noteq> []"
      then have "found = (ws_Info st, None)" using delete(5) by blast
      then show False using handler_enforces(2) [OF delete(6,4) a] blocks(1) [OF delete(2,3)] by simp
    qed
    then show ?thesis using do_delete_harmless [OF v delete(7), of opts'] delete(1) e assms(2) by simp
  next
    case (scan opts target ok lc scanned newUUID)
    have "dp_VersionID opts = [] \<or> dp_TransitionStatus opts \<noteq> []"
      by (rule scan_calls [OF scan(3,2)]) (rule blocks(2))
    then show ?thesis using do_delete_harmless [OF v scan(4), of opts] scan(1) assms(2) by simp
  next
    case (other oi)
    then show ?thesis using same_lock_retention [OF other(2), of lenient] assms(2) by (auto simp: compliance_until_def same_lock_def)
  qed
qed

lemma do_delete_now [simp]: "ws_Now (do_delete now newUUID opts found st) = ws_Now st"
  by (simp add: do_delete_def split: sum.splits)

lemma worm_step_now: "worm_step lenient st st' \<Longrightarrow> ws_Now st \<le> ws_Now st'"
  by (induction rule: worm_step.induct) simp_all


subsection \<open>A sample version\<close>

definition sample_info :: "string \<Rightarrow> ObjectInfo" where
  "sample_info mode = empty_ObjectInfo\<lparr>oi_Name := ''o'', oi_ModTime := 1590068570000000000, oi_VersionID := ''v1'', oi_IsLatest := True, oi_NumVersions := 1,
     oi_UserDefined := [''x-amz-object-lock-mode'' \<mapsto> mode, ''x-amz-object-lock-retain-until-date'' \<mapsto> format_rfc3339 1700000000000000000]\<rparr>"

lemma sample_retention: "RetMode_Valid mode \<Longrightarrow>
    GetObjectRetentionMeta lenient (oi_UserDefined (sample_info mode)) = \<lparr>rt_Mode = mode, rt_RetainUntilDate = 1700000000000000000\<rparr>"
proof -
  assume m: "RetMode_Valid mode"
  have y: "four_digit_year 1700000000000000000" by code_simp
  have t: "Truncate_second 1700000000000000000 = 1700000000000000000" by (simp add: Truncate_second_def second_ns_def)
  show ?thesis using retention_of_put [OF m y, of "oi_UserDefined (sample_info mode)" lenient] t by (simp add: sample_info_def)
qed


subsection \<open>Around the lock\<close>

lemma lower_keys_differ [simp]:
  "AmzObjectLockMode \<noteq> ''x-amz-object-lock-mode''" "AmzObjectLockMode \<noteq> ''x-amz-object-lock-retain-until-date''"
  "AmzObjectLockRetainUntilDate \<noteq> ''x-amz-object-lock-mode''" "AmzObjectLockRetainUntilDate \<noteq> ''x-amz-object-lock-retain-until-date''"
  "AmzObjectLockLegalHold \<noteq> ''x-amz-object-lock-mode''" "AmzObjectLockLegalHold \<noteq> ''x-amz-object-lock-retain-until-date''"
  "AmzObjectLockLegalHold \<noteq> ''x-amz-object-lock-legal-hold''"
  by (simp_all add: AmzObjectLockMode_def AmzObjectLockRetainUntilDate_def AmzObjectLockLegalHold_def)

text \<open>The metadata of a delete by identifier, for a version that is not a delete marker.\<close>

lemma delete_info_plain:
  assumes "dp_VersionID opts \<noteq> []" and "dp_DeleteMarkerReplicationStatus opts \<in> {[], ''REPLICA''}" and "dp_VersionPurgeStatus opts = []"
    and "dp_TransitionStatus opts = []" and "\<not> oi_DeleteMarker goi"
  shows "plain_delete (delete_info now newUUID object opts goi True) \<and> fi_VersionID (delete_info now newUUID object opts goi True) = dp_VersionID opts"
  using assms by (auto simp: delete_info_def plain_delete_def Let_def empty_FileInfo_def)

text \<open>Such a delete takes the version out of the journal of every drive that it reaches.\<close>

definition has_version :: "xl_lib \<Rightarrow> xlMetaV2 \<Rightarrow> string \<Rightarrow> uuid \<Rightarrow> bool" where
  "has_version L z v uv \<longleftrightarrow> journal_ok z \<and> list_all (\<lambda>e. vt_Type e \<noteq> LegacyType) (xm_Versions z) \<and> v \<noteq> [] \<and>
     delete_id L (empty_FileInfo\<lparr>fi_VersionID := v\<rparr>) = Inr uv \<and> uv \<in> dom (entry_map (xm_Versions z))"

definition lost_version :: "xl_lib \<Rightarrow> xlMetaV2 \<Rightarrow> uuid \<Rightarrow> FileInfo \<Rightarrow> bool" where
  "lost_version L z uv fi \<longleftrightarrow> (case DeleteVersion L z fi of
     Some (z', dir, lastOne, None) \<Rightarrow> entry_map (xm_Versions z') = (entry_map (xm_Versions z))(uv := None) | _ \<Rightarrow> False)"

lemma plain_delete_loses:
  assumes "has_version L z v uv" and "plain_delete fi" and "fi_VersionID fi = v"
  shows "lost_version L z uv fi"
proof -
  have "delete_id L fi = Inr uv" using assms by (auto simp: has_version_def delete_id_def split: if_splits)
  then show ?thesis using DeleteVersion_removes [of z fi L uv] assms(1,2) by (auto simp: has_version_def lost_version_def)
qed

definition delete_by_id :: "string \<Rightarrow> DeleteOptions" where
  "delete_by_id v = zero_DeleteOptions\<lparr>dp_VersionID := v, dp_Versioned := True\<rparr>"

text \<open>
  (C37) A delete that claims to be replicated gets past every lock. A user may delete objects and
  may replicate deletes, and sends a delete by identifier for a version that is retained in compliance
  mode. Without the replication header it is refused; with the header the check is skipped, and the
  request that goes to the drives takes the version out of the journal.
\<close>

theorem replica_delete_ignores_lock:
  assumes "GetObjectRetentionMeta (lq_Lenient r) (oi_UserDefined oi) = \<lparr>rt_Mode = RetCompliance, rt_RetainUntilDate = d\<rparr>"
    and "lq_Now r = Inr now" and "now \<le> d" and "lq_Opts r = Inr v" and "\<not> oi_DeleteMarker oi"
    and "lq_Auth r DeleteObjectAction = ErrNone" and "lq_Auth r ReplicateDeleteAction = ErrNone"
    and "Header_Get (lq_Header r) AmzBucketReplicationStatus = ''REPLICA''"
    and "has_version L z v uv"
  shows "DeleteObjectHandler (r\<lparr>lq_Header := Map.empty\<rparr>) ErrNone True (Inr (delete_by_id v)) (oi, None) False = Inl ErrObjectLocked
    \<and> (\<exists>opts fi. DeleteObjectHandler r ErrNone True (Inr (delete_by_id v)) (oi, None) False = Inr (Some opts)
         \<and> DeleteObject_info now newUUID (oi_Name oi) opts (oi, None) = Inr fi \<and> lost_version L z uv fi)"
proof -
  have v: "v \<noteq> []" using assms(9) by (simp add: has_version_def)
  have ne: "[] \<noteq> ''REPLICA''" by simp
  have "enforceRetentionBypassForDelete (r\<lparr>lq_Header := Map.empty\<rparr>) oi None = ErrObjectLocked"
    using assms(1-4) by (simp add: enforceRetentionBypassForDelete_def Let_def)
  then have "DeleteObjectHandler (r\<lparr>lq_Header := Map.empty\<rparr>) ErrNone True (Inr (delete_by_id v)) (oi, None) False = Inl ErrObjectLocked"
    using v assms(6) by (simp add: DeleteObjectHandler_def Let_def delete_by_id_def zero_DeleteOptions_def Header_Get_def)
  moreover define opts where "opts = (delete_by_id v)\<lparr>dp_DeleteMarkerReplicationStatus := ''REPLICA''\<rparr>"
  have h: "DeleteObjectHandler r ErrNone True (Inr (delete_by_id v)) (oi, None) False = Inr (Some opts)"
    using assms(6-8) by (simp add: DeleteObjectHandler_def Let_def delete_by_id_def zero_DeleteOptions_def opts_def)
  have p: "plain_delete (delete_info now newUUID (oi_Name oi) opts oi True) \<and> fi_VersionID (delete_info now newUUID (oi_Name oi) opts oi True) = v"
    using delete_info_plain [of opts oi now newUUID "oi_Name oi"] v assms(5) by (simp add: opts_def delete_by_id_def zero_DeleteOptions_def)
  have "lost_version L z uv (delete_info now newUUID (oi_Name oi) opts oi True)"
    by (rule plain_delete_loses [OF assms(9)]) (use p in auto)
  ultimately show ?thesis using h by (auto simp: DeleteObject_info_def)
qed

text \<open>
  (C38) The expiration of a bucket's rules removes versions in compliance mode once they have been moved
  to another tier. The version is the current one, and the rules call for the removal of the object,
  which should only add a delete marker: for a version in transition the scanner removes the data in
  the tier and deletes the version by its identifier, without a look at the lock.
\<close>

theorem transitioned_version_ignores_lock:
  assumes "enforceRetentionForDeletion lenient lockNow oi"
    and "oi_TransitionStatus oi \<noteq> []" and "\<not> oi_DeleteMarker oi"
    and "ComputeAction now lc (lifecycle_opts oi) = DeleteAction"
    and "has_version L z (oi_VersionID oi) uv"
  shows "\<exists>opts fi. applyLifecycle lenient now lockNow True True True ok (Some lc) oi (oi, None) = [CallRemoveRemote (oi_VersionID oi), CallDelete opts]
    \<and> DeleteObject_info now newUUID (oi_Name oi) opts (oi, None) = Inr fi \<and> lost_version L z uv fi"
proof -
  let ?v = "oi_VersionID oi"
  have v: "?v \<noteq> []" using assms(5) by (simp add: has_version_def)
  have e: "evalActionFromLifecycle lenient now lockNow True lc oi = DeleteAction" using assms(4) by (simp add: evalActionFromLifecycle_def)
  have "applyLifecycle lenient now lockNow True True True ok (Some lc) oi (oi, None) = [CallRemoveRemote ?v, CallDelete (delete_by_id ?v)]"
    using assms(2,4) e
    by (simp add: applyLifecycle_def applyLifecycleAction_def applyExpiryRule_def deleteTransitionedObject_def lifecycle_opts_def Let_def
        delete_by_id_def zero_DeleteOptions_def)
  moreover have p: "plain_delete (delete_info now newUUID (oi_Name oi) (delete_by_id ?v) oi True) \<and>
      fi_VersionID (delete_info now newUUID (oi_Name oi) (delete_by_id ?v) oi True) = ?v"
    using delete_info_plain [of "delete_by_id ?v" oi now newUUID "oi_Name oi"] v assms(3) by (simp add: delete_by_id_def zero_DeleteOptions_def)
  moreover have "lost_version L z uv (delete_info now newUUID (oi_Name oi) (delete_by_id ?v) oi True)"
    by (rule plain_delete_loses [OF assms(5)]) (use p in auto)
  ultimately show ?thesis by (auto simp: DeleteObject_info_def)
qed

definition sample_env :: "string \<Rightarrow> lock_request_env" where
  "sample_env status = \<lparr>lq_Header = [AmzBucketReplicationStatus \<mapsto> [status]], lq_Opts = Inr nullVersionID, lq_Now = Inr 1600000000000000000,
     lq_Auth = \<lambda>_. ErrNone, lq_Allowed = \<lambda>_. False, lq_Lenient = \<lambda>_. None\<rparr>"

lemma sample_has_version: "has_version sample_lib sample_journal nullVersionID uuid_Nil"
  by (simp add: has_version_def sample_journal_ok sample_journal_types delete_id_def nullVersionID_def)

theorem replica_delete_ignores_lock_witness:
  "\<exists>opts fi. DeleteObjectHandler (sample_env ''REPLICA'') ErrNone True (Inr (delete_by_id nullVersionID)) (sample_info RetCompliance, None) False = Inr (Some opts)
     \<and> lost_version sample_lib sample_journal uuid_Nil fi"
proof -
  have "\<not> oi_DeleteMarker (sample_info RetCompliance)" by (simp add: sample_info_def empty_ObjectInfo_def)
  then show ?thesis
    using replica_delete_ignores_lock [OF _ _ _ _ _ _ _ _ sample_has_version, of "sample_env ''REPLICA''" "sample_info RetCompliance" 1700000000000000000 1600000000000000000]
    by (auto simp: sample_env_def sample_retention Header_Get_def)
qed

definition moved_info :: ObjectInfo where
  "moved_info = (sample_info RetCompliance)\<lparr>oi_VersionID := nullVersionID, oi_TransitionStatus := TransitionComplete\<rparr>"

lemma moved_info_expires:
  "ComputeAction 1600000000000000000 (sample_lifecycle 1 False 0 (tag_filter [] [])) (lifecycle_opts moved_info) = DeleteAction"
proof -
  let ?o = "lifecycle_opts moved_info" and ?r = "sample_rule 1 False 0 (tag_filter [] [])" and ?now = "1600000000000000000"
  have o: "oo_Name ?o = ''o''" "oo_ModTime ?o = 1590068570000000000" "oo_IsLatest ?o" "\<not> oo_DeleteMarker ?o" "oo_UserTags ?o = []"
    by (simp_all add: lifecycle_opts_def moved_info_def sample_info_def empty_ObjectInfo_def)
  have "current ?o" "\<not> noncurrent ?o" "\<not> ExpiredObjectDeleteMarker ?o"
    using o by (simp_all add: current_def noncurrent_def ExpiredObjectDeleteMarker_def)
  moreover have "expiry_of ?o ?r = Some 1590192000000000000" using o by (simp add: expiry_of_def sample_rule_def sample_midnight)
  ultimately have "decides ?now ?o ?r" "decision ?now ?o ?r = DeleteAction"
    by (simp_all add: decides_def decision_def version_expires_def version_moves_def past_def Let_def)
  moreover have "applies ?o ?r"
    using o by (simp add: applies_def GetPrefix_def HasPrefix_def TestTags_def Tag_IsEmpty_def sample_rule_def tag_filter_def no_prefix_def Enabled_def Disabled_def)
  then have "set (FilterActionableRules (sample_lifecycle 1 False 0 (tag_filter [] [])) ?o) = {?r}"
    by (auto simp: set_FilterActionableRules sample_lifecycle_def)
  ultimately show ?thesis
    using compute_loop_decided [of "FilterActionableRules (sample_lifecycle 1 False 0 (tag_filter [] [])) ?o" ?now ?o NoneAction] o
    by (auto simp: ComputeAction_def zero_time_def)
qed

theorem transitioned_version_ignores_lock_witness:
  "\<exists>fi. enforceRetentionForDeletion (\<lambda>_. None) (Inr 1600000000000000000) moved_info \<and> lost_version sample_lib sample_journal uuid_Nil fi"
proof -
  have "enforceRetentionForDeletion (\<lambda>_. None) (Inr 1600000000000000000) moved_info"
    by (simp add: enforceRetentionForDeletion_def moved_info_def sample_retention)
  moreover have "has_version sample_lib sample_journal (oi_VersionID moved_info) uuid_Nil" "oi_TransitionStatus moved_info \<noteq> []" "\<not> oi_DeleteMarker moved_info"
    using sample_has_version by (simp_all add: moved_info_def sample_info_def empty_ObjectInfo_def TransitionComplete_def)
  ultimately show ?thesis
    using transitioned_version_ignores_lock [OF _ _ _ moved_info_expires, of "\<lambda>_. None" "Inr 1600000000000000000" sample_lib sample_journal uuid_Nil] by blast
qed

subsection \<open>Governance mode\<close>

text \<open>
  Who may delete a version: nobody while there is a legal hold, and nobody before the date in
  compliance mode. In governance mode a request without the bypass header has to wait for the date, and
  with it needs both permissions. A version without a valid mode and hold can be deleted.
\<close>

theorem delete_allowed_iff:
  assumes "lq_Opts r = Inr v" and "ret = GetObjectRetentionMeta (lq_Lenient r) (oi_UserDefined oi)"
  shows "enforceRetentionBypassForDelete r oi None = ErrNone \<longleftrightarrow>
    GetObjectLegalHoldMeta (oi_UserDefined oi) \<noteq> LegalHoldOn \<and>
    (rt_Mode ret = RetCompliance \<longrightarrow> (\<exists>t. lq_Now r = Inr t \<and> rt_RetainUntilDate ret < t)) \<and>
    (rt_Mode ret = RetGovernance \<longrightarrow>
      (if IsObjectLockGovernanceBypassSet (lq_Header r)
       then lq_Auth r BypassGovernanceRetentionAction = ErrNone \<and> lq_Auth r GetBucketObjectLockConfigurationAction = ErrNone
       else \<exists>t. lq_Now r = Inr t \<and> rt_RetainUntilDate ret < t))"
  using assms
  by (auto simp: enforceRetentionBypassForDelete_def Let_def LegalHold_Valid_def RetMode_Valid_def split: sum.splits if_splits)

theorem delete_allowed_iff_witness:
  "enforceRetentionBypassForDelete (sample_env []) (sample_info RetGovernance) None \<noteq> ErrNone"
  using delete_allowed_iff [of "sample_env []" nullVersionID _ "sample_info RetGovernance"]
  by (simp add: sample_env_def sample_retention IsObjectLockGovernanceBypassSet_def Header_Get_def AmzBucketReplicationStatus_def
      AmzObjectLockBypassRetGovernance_def ToLower_def)

text \<open>
  (C39) The header alone bypasses governance mode. A user without the permission to bypass governance
  retention, but with the permission to set retention, sends the bypass header: any retention, also an
  earlier date or none at all, replaces one that still runs. When the new retention is not in
  governance mode the header even stands in for the permission to set retention.
\<close>

theorem governance_bypass_without_permission:
  assumes "GetObjectRetentionMeta (lq_Lenient r) (oi_UserDefined oi) = \<lparr>rt_Mode = RetGovernance, rt_RetainUntilDate = d\<rparr>"
    and "lq_Now r = Inr now" and "now \<le> d" and "lq_Opts r = Inr v"
    and "IsObjectLockGovernanceBypassSet (lq_Header r)" and "\<not> lq_Allowed r BypassGovernanceRetentionAction"
    and "lq_Allowed r PutObjectRetentionAction \<or> rt_Mode new \<noteq> RetGovernance"
  shows "enforceRetentionBypassForPut r (oi, None) new = (oi, ErrNone)
    \<and> (rt_Mode new \<noteq> RetGovernance \<or> rt_RetainUntilDate new < d \<longrightarrow>
       enforceRetentionBypassForPut (r\<lparr>lq_Header := Map.empty\<rparr>) (oi, None) new = (oi, ErrObjectLocked))"
  using assms
  by (auto simp: enforceRetentionBypassForPut_def isPutRetentionAllowed_def Let_def IsObjectLockGovernanceBypassSet_def Header_Get_def ToLower_def)

definition bypass_env :: lock_request_env where
  "bypass_env = (sample_env [])\<lparr>lq_Header := [AmzObjectLockBypassRetGovernance \<mapsto> [''true'']]\<rparr>"

theorem governance_bypass_without_permission_witness:
  "snd (enforceRetentionBypassForPut bypass_env (sample_info RetGovernance, None) \<lparr>rt_Mode = [], rt_RetainUntilDate = zero_time\<rparr>) = ErrNone"
proof -
  have "IsObjectLockGovernanceBypassSet (lq_Header bypass_env)" by code_simp
  moreover have nonempty: "RetGovernance \<noteq> []" by (simp add: RetGovernance_def)
  ultimately show ?thesis
    using governance_bypass_without_permission [of bypass_env "sample_info RetGovernance" 1700000000000000000 1600000000000000000 nullVersionID
      "\<lparr>rt_Mode = [], rt_RetainUntilDate = zero_time\<rparr>"]
    by (simp add: bypass_env_def sample_env_def sample_retention)
qed

subsection \<open>New objects\<close>

text \<open>
  (C40) A legal hold header takes the default retention of the bucket away. In a bucket that retains new
  objects by default, a write without lock headers is retained as configured; the same write with the
  legal hold header set to \<open>OFF\<close>, or to any text that is not a status at all, succeeds without retention
  and without a hold.
\<close>

theorem hold_header_drops_default_retention:
  assumes "rc_LockEnabled cfg" and "rc_Validity cfg > 0" and "lq_Opts r = Inr []" and "lq_Now r = Inr now"
    and "lq_Header r = Map.empty" and "parseLegalHoldStatus s \<noteq> LegalHoldOn"
  shows "checkPutObjectLockAllowed r (Inr cfg) look ErrNone ErrNone =
      Some (\<lparr>rt_Mode = rc_Mode cfg, rt_RetainUntilDate = now + rc_Validity cfg\<rparr>, [], ErrNone)
    \<and> (\<exists>hold. checkPutObjectLockAllowed (r\<lparr>lq_Header := [AmzObjectLockLegalHold \<mapsto> [s]]\<rparr>) (Inr cfg) look ErrNone ErrNone =
         Some (\<lparr>rt_Mode = [], rt_RetainUntilDate = zero_time\<rparr>, hold, ErrNone) \<and> hold \<noteq> LegalHoldOn)"
proof -
  have k: "AmzObjectLockLegalHold \<noteq> AmzObjectLockMode" "AmzObjectLockLegalHold \<noteq> AmzObjectLockRetainUntilDate"
    "AmzObjectLockLegalHold \<noteq> AmzBucketReplicationStatus"
    by (simp_all add: AmzObjectLockLegalHold_def AmzObjectLockMode_def AmzObjectLockRetainUntilDate_def AmzBucketReplicationStatus_def)
  have n: "[] \<noteq> LegalHoldOn" by (simp add: LegalHoldOn_def)
  have "checkPutObjectLockAllowed r (Inr cfg) look ErrNone ErrNone =
      Some (\<lparr>rt_Mode = rc_Mode cfg, rt_RetainUntilDate = now + rc_Validity cfg\<rparr>, [], ErrNone)"
    using assms by (simp add: checkPutObjectLockAllowed_def Let_def IsObjectLockRetentionRequested_def IsObjectLockLegalHoldRequested_def
        ParseObjectLockLegalHoldHeaders_def Header_Get_def)
  moreover have "\<exists>hold. checkPutObjectLockAllowed (r\<lparr>lq_Header := [AmzObjectLockLegalHold \<mapsto> [s]]\<rparr>) (Inr cfg) look ErrNone ErrNone =
      Some (\<lparr>rt_Mode = [], rt_RetainUntilDate = zero_time\<rparr>, hold, ErrNone) \<and> hold \<noteq> LegalHoldOn"
    using assms k n
    by (cases "LegalHold_Valid (parseLegalHoldStatus s)")
      (simp_all add: checkPutObjectLockAllowed_def Let_def IsObjectLockRetentionRequested_def IsObjectLockLegalHoldRequested_def
        ParseObjectLockLegalHoldHeaders_def Header_Get_def toAPIErrorCode_def)
  ultimately show ?thesis by blast
qed

theorem hold_header_drops_default_retention_witness:
  "\<exists>hold. checkPutObjectLockAllowed ((sample_env [])\<lparr>lq_Opts := Inr [], lq_Header := [AmzObjectLockLegalHold \<mapsto> [''OFF'']]\<rparr>)
     (Inr \<lparr>rc_Mode = RetCompliance, rc_Validity = 86400000000000, rc_LockEnabled = True\<rparr>) (empty_ObjectInfo, None) ErrNone ErrNone =
     Some (\<lparr>rt_Mode = [], rt_RetainUntilDate = zero_time\<rparr>, hold, ErrNone)"
proof -
  have "parseLegalHoldStatus ''OFF'' \<noteq> LegalHoldOn" by code_simp
  then show ?thesis
    using hold_header_drops_default_retention [of "\<lparr>rc_Mode = RetCompliance, rc_Validity = 86400000000000, rc_LockEnabled = True\<rparr>"
      "(sample_env [])\<lparr>lq_Opts := Inr [], lq_Header := Map.empty\<rparr>" 1600000000000000000 "''OFF''" "(empty_ObjectInfo, None)"]
    by (auto simp: sample_env_def)
qed

text \<open>
  The filter that should hide lock metadata from users without permission, and keep it from copies,
  leaves it in place: it removes keys in the form of headers, while the handlers store them in lower
  case, so the retention and the hold of an object are the same after it.
\<close>

theorem filter_keeps_lock_metadata:
  assumes "meta ''x-amz-object-lock-mode'' \<noteq> None" and "meta ''x-amz-object-lock-retain-until-date'' \<noteq> None"
    and "meta ''x-amz-object-lock-legal-hold'' \<noteq> None"
  shows "GetObjectRetentionMeta lenient (FilterObjectLockMetadata lenient meta filterRetention filterLegalHold) = GetObjectRetentionMeta lenient meta
    \<and> GetObjectLegalHoldMeta (FilterObjectLockMetadata lenient meta filterRetention filterLegalHold) = GetObjectLegalHoldMeta meta"
proof -
  define f where "f = FilterObjectLockMetadata lenient meta filterRetention filterLegalHold"
  note ne = lower_keys_differ replication_key(6,7)
  have f: "f ''x-amz-object-lock-mode'' = meta ''x-amz-object-lock-mode''"
    "f ''x-amz-object-lock-retain-until-date'' = meta ''x-amz-object-lock-retain-until-date''"
    "f ''x-amz-object-lock-legal-hold'' = meta ''x-amz-object-lock-legal-hold''"
    unfolding f_def FilterObjectLockMetadata_def Let_def by (simp_all add: ne ne [symmetric])
  obtain a b c where abc: "meta ''x-amz-object-lock-mode'' = Some a" "meta ''x-amz-object-lock-retain-until-date'' = Some b"
    "meta ''x-amz-object-lock-legal-hold'' = Some c" using assms by auto
  have "lock_meta f AmzObjectLockMode = lock_meta meta AmzObjectLockMode"
    "lock_meta f AmzObjectLockRetainUntilDate = lock_meta meta AmzObjectLockRetainUntilDate"
    "lock_meta f AmzObjectLockLegalHold = lock_meta meta AmzObjectLockLegalHold"
    by (simp_all add: lock_meta_def f abc)
  then show ?thesis by (simp add: GetObjectRetentionMeta_def GetObjectLegalHoldMeta_def f_def [symmetric] cong: option.case_cong)
qed

theorem filter_keeps_lock_metadata_witness:
  "GetObjectLegalHoldMeta (FilterObjectLockMetadata (\<lambda>_. None) [''x-amz-object-lock-mode'' \<mapsto> [], ''x-amz-object-lock-retain-until-date'' \<mapsto> [],
     ''x-amz-object-lock-legal-hold'' \<mapsto> ''ON''] True True) = LegalHoldOn"
proof -
  have "GetObjectLegalHoldMeta [''x-amz-object-lock-mode'' \<mapsto> [], ''x-amz-object-lock-retain-until-date'' \<mapsto> [],
     ''x-amz-object-lock-legal-hold'' \<mapsto> ''ON''] = LegalHoldOn" by code_simp
  then show ?thesis
    using filter_keeps_lock_metadata [of "[''x-amz-object-lock-mode'' \<mapsto> [], ''x-amz-object-lock-retain-until-date'' \<mapsto> [],
     ''x-amz-object-lock-legal-hold'' \<mapsto> ''ON'']" "\<lambda>_. None" True True] by simp
qed

end
