(* ===== verification/Wildcard.thy ===== *)
theory Wildcard
  imports Obstor_Prelude
begin

text \<open>
  \<^verbatim>\<open>pkg/wildcard/match.go\<close>: the matcher used for policy principals, actions, resources and
  \<open>StringLike\<close> conditions. The loop over the two rune slices is \<open>deepMatchRune\<close>; \<open>None\<close> is
  the run-time panic of slicing an empty rune slice. The reference is \<open>wild_lang\<close>, the set of
  texts a pattern denotes.
\<close>

definition star :: rune where
  "star = 42"

definition qmark :: rune where
  "qmark = 63"

subsection \<open>The matcher\<close>

text \<open>\<open>str = str[1:]\<close>: slicing an empty slice from 1 panics.\<close>

definition slice1 :: "'a list \<Rightarrow> 'a list option" where
  "slice1 xs = (case xs of [] \<Rightarrow> None | _ # ys \<Rightarrow> Some ys)"

function deepMatchRune :: "rune list \<Rightarrow> rune list \<Rightarrow> bool \<Rightarrow> bool option" where
  "deepMatchRune str [] simple = Some (str = [])"
| "deepMatchRune str (p # pattern) simple =
     (if p = star then
        (case deepMatchRune str pattern simple of
           None \<Rightarrow> None
         | Some True \<Rightarrow> Some True
         | Some False \<Rightarrow>
             (if str \<noteq> [] then deepMatchRune (tl str) (p # pattern) simple else Some False))
      else if p = qmark then
        (if str = [] \<and> \<not> simple then Some False
         else (case slice1 str of None \<Rightarrow> None | Some str' \<Rightarrow> deepMatchRune str' pattern simple))
      else if str = [] \<or> hd str \<noteq> p then Some False
      else (case slice1 str of None \<Rightarrow> None | Some str' \<Rightarrow> deepMatchRune str' pattern simple))"
  by pat_completeness auto
termination
  by (relation "measure (\<lambda>(str, pattern, simple). length str + length pattern)")
    (auto simp: slice1_def neq_Nil_conv split: list.splits)

declare deepMatchRune.simps [simp del]

definition Match :: "string \<Rightarrow> string \<Rightarrow> bool option" where
  "Match pattern name =
     (if pattern = '''' then Some (name = pattern)
      else if pattern = ''*'' then Some True
      else deepMatchRune (runes name) (runes pattern) False)"

definition MatchSimple :: "string \<Rightarrow> string \<Rightarrow> bool option" where
  "MatchSimple pattern name =
     (if pattern = '''' then Some (name = pattern)
      else if pattern = ''*'' then Some True
      else deepMatchRune (runes name) (runes pattern) True)"

subsection \<open>The language of a pattern\<close>

text \<open>\<open>*\<close> stands for any text, \<open>?\<close> for any one rune, anything else for itself.\<close>

fun wild_lang :: "rune list \<Rightarrow> rune list set" where
  "wild_lang [] = {[]}"
| "wild_lang (p # ps) =
     (if p = star then {u @ v | u v. v \<in> wild_lang ps}
      else if p = qmark then {c # v | c v. v \<in> wild_lang ps}
      else {p # v | v. v \<in> wild_lang ps})"

lemma wild_lang_starI: "v \<in> wild_lang ps \<Longrightarrow> u @ v \<in> wild_lang (star # ps)"
  by auto

lemma wild_lang_star:
  "s \<in> wild_lang (star # ps) \<longleftrightarrow>
     s \<in> wild_lang ps \<or> (s \<noteq> [] \<and> tl s \<in> wild_lang (star # ps))"
proof
  assume "s \<in> wild_lang (star # ps)"
  then obtain u v where s: "s = u @ v" and v: "v \<in> wild_lang ps" by auto
  show "s \<in> wild_lang ps \<or> (s \<noteq> [] \<and> tl s \<in> wild_lang (star # ps))"
    using s v by (cases u) auto
next
  assume "s \<in> wild_lang ps \<or> (s \<noteq> [] \<and> tl s \<in> wild_lang (star # ps))"
  then show "s \<in> wild_lang (star # ps)"
  proof
    assume "s \<in> wild_lang ps"
    then show ?thesis by (metis append_Nil wild_lang_starI)
  next
    assume a: "s \<noteq> [] \<and> tl s \<in> wild_lang (star # ps)"
    then obtain u v where "tl s = u @ v" and v: "v \<in> wild_lang ps" by auto
    with a have "s = (hd s # u) @ v" by (cases s) auto
    with v show ?thesis by (metis wild_lang_starI)
  qed
qed

lemma star_neq_qmark [simp]: "star \<noteq> qmark" "qmark \<noteq> star"
  by (simp_all add: star_def qmark_def)

text \<open>
  The matcher decides the language. It cannot panic unless the pattern has a question mark and
  the call is a simple one.
\<close>

lemma deepMatchRune_lang:
  "simple \<longrightarrow> qmark \<notin> set pattern \<Longrightarrow>
     deepMatchRune str pattern simple = Some (str \<in> wild_lang pattern)"
proof (induction str pattern simple rule: deepMatchRune.induct)
  case (1 str simple)
  then show ?case by (auto simp: deepMatchRune.simps)
next
  case (2 str p pattern simple)
  consider "p = star" | "p = qmark" | "p \<noteq> star" "p \<noteq> qmark" by blast
  then show ?case
  proof cases
    case 1
    have tail: "deepMatchRune str pattern simple = Some (str \<in> wild_lang pattern)"
      using "2.IH"(1) 1 "2.prems" by auto
    show ?thesis
    proof (cases "str \<in> wild_lang pattern \<or> str = []")
      case True
      then show ?thesis
        using tail 1 wild_lang_star [of str pattern] by (auto simp: deepMatchRune.simps(2))
    next
      case False
      then have "deepMatchRune (tl str) (p # pattern) simple
          = Some (tl str \<in> wild_lang (p # pattern))"
        using "2.IH"(2) 1 "2.prems" tail by auto
      with False tail 1 wild_lang_star [of str pattern] show ?thesis
        by (auto simp: deepMatchRune.simps(2) [of str])
    qed
  next
    case 2
    with "2.IH"(3) "2.prems" show ?thesis
      by (cases str) (auto simp: deepMatchRune.simps(2) slice1_def)
  next
    case 3
    with "2.IH"(4) "2.prems" show ?thesis
      by (cases str) (auto simp: deepMatchRune.simps(2) slice1_def)
  qed
qed

lemma wild_lang_only_star: "wild_lang [star] = UNIV"
  by auto

lemma runes_star: "runes ''*'' = [star]"
  by (simp add: runes_ascii ascii_def byte_of_def star_def)

subsection \<open>Correctness\<close>

text \<open>
  (C18) \<open>wildcard.Match\<close> never panics, and answers whether the name, as a sequence of code
  points, is in the language of the pattern. The short cuts for the empty pattern and for
  \<open>*\<close> agree with it.
\<close>

theorem Match_correct:
  "Match pattern name = Some (runes name \<in> wild_lang (runes pattern))"
proof -
  have "runes name \<in> wild_lang (runes ''*'')"
    by (simp only: runes_star wild_lang_only_star UNIV_I)
  then show ?thesis
    using deepMatchRune_lang [of False "runes pattern" "runes name"]
    by (auto simp: Match_def)
qed

text \<open>
  \<open>wildcard.MatchSimple\<close>, on a pattern without a question mark, returns, and answers
  membership in the same language.
\<close>

theorem MatchSimple_correct:
  "qmark \<notin> set (runes pattern) \<Longrightarrow>
     MatchSimple pattern name = Some (runes name \<in> wild_lang (runes pattern))"
proof -
  assume "qmark \<notin> set (runes pattern)"
  moreover have "runes name \<in> wild_lang (runes ''*'')"
    by (simp only: runes_star wild_lang_only_star UNIV_I)
  ultimately show ?thesis
    using deepMatchRune_lang [of True "runes pattern" "runes name"]
    by (auto simp: MatchSimple_def)
qed

theorem MatchSimple_correct_witness:
  "qmark \<notin> set (runes ''ab*'') \<and> MatchSimple ''ab*'' ''abc'' = Some True"
proof -
  have r: "runes ''ab*'' = [97, 98, star]" "runes ''abc'' = [97, 98, 99]"
    by (simp_all add: runes_ascii ascii_def byte_of_def star_def)
  then have q: "qmark \<notin> set (runes ''ab*'')" by (simp add: qmark_def star_def)
  have "runes ''abc'' \<in> wild_lang (runes ''ab*'')"
    unfolding r by (simp add: star_def qmark_def)
  with q MatchSimple_correct [OF q, of "''abc''"] show ?thesis by simp
qed

text \<open>
  (C19) \<open>MatchSimple\<close> treats the question mark as a wildcard for one rune, although its comment
  says that only \<open>*\<close> is one, and panics when the text ends before it: for every name \<open>a\<close>
  and the pattern \<open>a?\<close>, where \<open>a\<close> has no wildcard of its own.
\<close>

theorem MatchSimple_qmark_panics:
  "ascii a \<Longrightarrow> \<forall>c \<in> set a. byte_of c \<noteq> star \<and> byte_of c \<noteq> qmark \<Longrightarrow>
     MatchSimple (a @ ''?'') a = None \<and> MatchSimple (a @ ''?'') (a @ ''x'') = Some True"
proof -
  assume asc: "ascii a" and plain: "\<forall>c \<in> set a. byte_of c \<noteq> star \<and> byte_of c \<noteq> qmark"
  have runes: "runes (a @ ''?'') = map byte_of a @ [qmark]" "runes a = map byte_of a"
      "runes (a @ ''x'') = map byte_of a @ [120]"
    using asc by (simp_all add: runes_ascii ascii_def byte_of_def qmark_def)
  have step: "\<forall>c \<in> set bs. c \<noteq> star \<and> c \<noteq> qmark \<Longrightarrow>
      deepMatchRune (bs @ s) (bs @ p) True = deepMatchRune s p True" for bs s p
    by (induction bs) (simp_all add: deepMatchRune.simps(2) slice1_def)
  have "deepMatchRune (map byte_of a @ s) (map byte_of a @ p) True = deepMatchRune s p True" for s p
    using step [of "map byte_of a"] plain by simp
  from this [of "[]" "[qmark]"] this [of "[120]" "[qmark]"] runes
  show ?thesis
    by (auto simp: MatchSimple_def deepMatchRune.simps slice1_def append_eq_Cons_conv)
qed

theorem MatchSimple_qmark_panics_witness:
  "ascii ''ab'' \<and> list_all (\<lambda>c. byte_of c \<noteq> star \<and> byte_of c \<noteq> qmark) ''ab''
     \<and> MatchSimple ''ab?'' ''ab'' = None"
proof -
  have a: "ascii ''ab''" by (simp add: ascii_def byte_of_def)
  have b: "\<forall>c \<in> set ''ab''. byte_of c \<noteq> star \<and> byte_of c \<noteq> qmark"
    by (simp add: byte_of_def star_def qmark_def)
  show ?thesis using a b MatchSimple_qmark_panics [OF a b] by (simp add: list_all_iff)
qed

end
