(* ===== verification/Chunks.thy ===== *)
theory Chunks
  imports Obstor_Prelude "HOL-Library.Signed_Division"
begin

text \<open>
  Byte strings cut into blocks of a fixed size, as erasure coding and block replication both store
  them: the number of blocks, the bytes of a block, and the position of a range within blocks.
\<close>

text \<open>The ceiling of a quotient.\<close>

definition ceil_div :: "nat \<Rightarrow> nat \<Rightarrow> nat" where
  "ceil_div d n = (n + d - 1) div d"

lemma ceil_div_0 [simp]: "0 < d \<Longrightarrow> ceil_div d 0 = 0"
  by (simp add: ceil_div_def)

lemma ceil_div_pos: "0 < d \<Longrightarrow> 0 < n \<Longrightarrow> 0 < ceil_div d n"
  by (simp add: ceil_div_def div_greater_zero_iff)

lemma ceil_div_mono: "m \<le> n \<Longrightarrow> ceil_div d m \<le> ceil_div d n"
  by (simp add: ceil_div_def div_le_mono)

lemma ceil_div_cover: "0 < d \<Longrightarrow> n \<le> d * ceil_div d n"
proof -
  assume d: "0 < d"
  have "n + d - 1 < d + d * ((n + d - 1) div d)" by (rule dividend_less_times_div [OF d])
  with d show ?thesis unfolding ceil_div_def by linarith
qed

lemma smod_nat: "int a smod int b = int (a mod b)"
  by (simp add: signed_modulo_int_def sgn_if zmod_int)

lemma sdiv_nat: "int a sdiv int b = int (a div b)"
  by (simp add: signed_divide_int_def sgn_if zdiv_int)

text \<open>Block \<open>b\<close> of the data.\<close>

definition chunk :: "nat \<Rightarrow> bytes \<Rightarrow> nat \<Rightarrow> bytes" where
  "chunk bs data b = take bs (drop (b * bs) data)"

lemma chunk_length: "length (chunk bs data b) = min bs (length data - b * bs)"
  by (simp add: chunk_def)

lemma chunk_nonempty:
  assumes "0 < bs" and "b * bs < length data"
  shows "chunk bs data b \<noteq> []"
  using assms by (simp add: chunk_def)

lemma ceil_div_index: "0 < bs \<Longrightarrow> b < ceil_div bs n \<longleftrightarrow> b * bs < n"
proof -
  assume bs: "0 < bs"
  have "b < ceil_div bs n \<longleftrightarrow> Suc b \<le> (n + bs - 1) div bs" by (simp add: ceil_div_def Suc_le_eq)
  also have "\<dots> \<longleftrightarrow> Suc b * bs \<le> n + bs - 1" using bs by (simp add: less_eq_div_iff_mult_less_eq)
  also have "\<dots> \<longleftrightarrow> b * bs < n" using bs by auto
  finally show ?thesis .
qed

lemma ceil_div_Suc:
  assumes "0 < bs" and "0 < n"
  shows "ceil_div bs n = Suc (ceil_div bs (n - bs))"
proof (cases "bs \<le> n")
  case True
  then have "n + bs - 1 = (n - bs + bs - 1) + bs" using assms by simp
  then show ?thesis unfolding ceil_div_def using assms(1) by (metis div_add_self2 less_not_refl2 Suc_eq_plus1)
next
  case False
  then have "n + bs - 1 = (n - 1) + bs" "n - 1 < bs" using assms by simp_all
  then have "ceil_div bs n = 1" unfolding ceil_div_def using assms(1)
    by (simp only: div_add_self2) simp
  then show ?thesis using False assms(1) by simp
qed

lemma chunk_Suc: "chunk bs data (Suc b) = chunk bs (drop bs data) b"
  by (simp add: chunk_def add.commute)

text \<open>How many bytes of a range lie before block \<open>b\<close>.\<close>

definition range_pos :: "nat \<Rightarrow> nat \<Rightarrow> nat \<Rightarrow> nat \<Rightarrow> nat" where
  "range_pos bs o' l b = min (b * bs - o') l"

text \<open>The data of a window of block \<open>b\<close>, in terms of the whole part.\<close>

lemma chunk_window:
  "bo + bl \<le> bs \<Longrightarrow> take bl (drop bo (chunk bs data b)) = take bl (drop (b * bs + bo) data)"
  by (simp add: chunk_def drop_take min_def add.commute)

end
