(* ===== verification/Erasure_Coding.thy ===== *)
theory Erasure_Coding
  imports Drive_Quorum Chunks
begin

text \<open>
  Erasure coding of object parts: the shard geometry of \<^verbatim>\<open>cmd/erasure-coding.go\<close>, the write path
  of \<^verbatim>\<open>cmd/erasure-encode.go\<close>, the read path of \<^verbatim>\<open>cmd/erasure-decode.go\<close> and \<open>writeDataBlocks\<close> of
  \<^verbatim>\<open>cmd/erasure-utils.go\<close>.

  The Reed-Solomon code is \<^verbatim>\<open>github.com/klauspost/reedsolomon\<close>: its operations are arguments of the
  definitions, and \<open>rs_codec\<close> states what that package documents. A reader of a shard file is a
  function from the number of bytes and the offset to the bytes or an error. The readers of
  \<open>parallelReader.Read\<close> run concurrently, but which of them are tried does not depend on the
  schedule: one more is started for each that fails, in index order, until as many have
  succeeded as there are data blocks. The model tries them in that order.
\<close>

definition errUnexpected :: goerr where
  "errUnexpected = StorageErr ''unexpected error, please report this issue at https://github.com/obstor/obstor/issues''"

definition errLessData :: goerr where
  "errLessData = StorageErr ''less data available than what was requested''"

definition ErrInvShardNum :: goerr where
  "ErrInvShardNum = ErrorsNew ''reedsolomon.ErrInvShardNum''"

definition ErrMaxShardNum :: goerr where
  "ErrMaxShardNum = ErrorsNew ''reedsolomon.ErrMaxShardNum''"

text \<open>The error that \<open>writeDataBlocks\<close> formats when a slice of blocks is too short.\<close>

definition errTooFewBlocks :: goerr where
  "errTooFewBlocks = ErrorsNew ''too few blocks''"

subsection \<open>Shard geometry\<close>

record Erasure =
  e_dataBlocks :: int
  e_parityBlocks :: int
  e_blockSize :: int

definition ceilFrac :: "int \<Rightarrow> int \<Rightarrow> int" where
  "ceilFrac numerator denominator =
     (if denominator = 0 then 0
      else
        let (num, den) = (if denominator < 0 then (- numerator, - denominator)
                          else (numerator, denominator));
            c = num sdiv den
        in if num > 0 \<and> num smod den \<noteq> 0 then c + 1 else c)"

definition NewErasure :: "int \<Rightarrow> int \<Rightarrow> int \<Rightarrow> goerr + Erasure" where
  "NewErasure dataBlocks parityBlocks blockSize =
     (if dataBlocks \<le> 0 \<or> parityBlocks \<le> 0 then Inl ErrInvShardNum
      else if dataBlocks + parityBlocks > 256 then Inl ErrMaxShardNum
      else Inr \<lparr>e_dataBlocks = dataBlocks, e_parityBlocks = parityBlocks, e_blockSize = blockSize\<rparr>)"

definition ShardSize :: "Erasure \<Rightarrow> int" where
  "ShardSize e = ceilFrac (e_blockSize e) (e_dataBlocks e)"

text \<open>Division by a block size of zero is a run-time panic.\<close>

definition ShardFileSize :: "Erasure \<Rightarrow> int \<Rightarrow> int option" where
  "ShardFileSize e totalLength =
     (if totalLength = 0 then Some 0
      else if totalLength = -1 then Some (-1)
      else if e_blockSize e = 0 then None
      else
        let numShards = totalLength sdiv e_blockSize e;
            lastBlockSize = totalLength smod e_blockSize e;
            lastShardSize = ceilFrac lastBlockSize (e_dataBlocks e)
        in Some (numShards * ShardSize e + lastShardSize))"

definition ShardFileOffset :: "Erasure \<Rightarrow> int \<Rightarrow> int \<Rightarrow> int \<Rightarrow> int option" where
  "ShardFileOffset e startOffset len totalLength = do {
     shardFileSize \<leftarrow> ShardFileSize e totalLength;
     if e_blockSize e = 0 then None
     else
       let shardSize = ShardSize e;
           endShard = (startOffset + len) sdiv e_blockSize e;
           tillOffset = endShard * shardSize + shardSize
       in Some (if tillOffset > shardFileSize then shardFileSize else tillOffset)
   }"

text \<open>The parameters the server creates: positive counts and a positive block size.\<close>

definition erasure_wf :: "Erasure \<Rightarrow> bool" where
  "erasure_wf e \<longleftrightarrow> 0 < e_dataBlocks e \<and> 0 < e_parityBlocks e \<and> 0 < e_blockSize e"

lemma ceilFrac_nat:
  assumes "0 < d"
  shows "ceilFrac (int n) (int d) = int ((n + d - 1) div d)"
proof -
  have sd: "int n sdiv int d = int (n div d)" "int n smod int d = int (n mod d)"
    by (simp_all add: signed_divide_int_def signed_modulo_int_def sgn_if zdiv_int zmod_int)
  obtain q r where n: "n = q * d + r" "r < d"
    using assms by (metis mod_less_divisor div_mult_mod_eq)
  have qr: "n div d = q" "n mod d = r" using n assms by auto
  have "(n + d - 1) div d = (if r = 0 then q else q + 1)"
  proof (cases "r = 0")
    case True
    have "n + d - 1 = (d - 1) + q * d" using n True assms by simp
    then show ?thesis using True assms by (simp only: div_mult_self1) simp
  next
    case False
    then have "n + d - 1 = (r - 1) + (q + 1) * d" using n assms by (simp add: algebra_simps)
    then show ?thesis using False n assms by (simp only: div_mult_self1) simp
  qed
  moreover have "r \<noteq> 0 \<Longrightarrow> 0 < n" using n by simp
  ultimately show ?thesis using assms by (simp add: ceilFrac_def sd qr Let_def)
qed

lemma ceilFrac_ceil_div: "0 < d \<Longrightarrow> ceilFrac (int n) (int d) = int (ceil_div d n)"
  by (simp add: ceilFrac_nat ceil_div_def)

lemma ShardSize_nat:
  "erasure_wf e \<Longrightarrow> ShardSize e = int (ceil_div (nat (e_dataBlocks e)) (nat (e_blockSize e)))"
  using ceilFrac_ceil_div [of "nat (e_dataBlocks e)" "nat (e_blockSize e)"]
  by (simp add: ShardSize_def erasure_wf_def)

lemma ShardFileSize_nat:
  assumes "erasure_wf e"
  shows "ShardFileSize e (int n) =
    Some (int ((n div nat (e_blockSize e)) * ceil_div (nat (e_dataBlocks e)) (nat (e_blockSize e))
      + ceil_div (nat (e_dataBlocks e)) (n mod nat (e_blockSize e))))"
proof -
  have b: "0 < e_blockSize e" "0 < e_dataBlocks e" using assms by (auto simp: erasure_wf_def)
  then have "int n sdiv e_blockSize e = int (n div nat (e_blockSize e))"
    "int n smod e_blockSize e = int (n mod nat (e_blockSize e))"
    by (simp_all add: signed_divide_int_def signed_modulo_int_def sgn_if zdiv_int zmod_int)
  moreover have "ceilFrac (int (n mod nat (e_blockSize e))) (e_dataBlocks e) =
      int (ceil_div (nat (e_dataBlocks e)) (n mod nat (e_blockSize e)))"
    using ceilFrac_ceil_div [of "nat (e_dataBlocks e)" "n mod nat (e_blockSize e)"] b by simp
  ultimately show ?thesis
    using b by (simp add: ShardFileSize_def ShardSize_nat [OF assms] Let_def)
qed


subsection \<open>Writing decoded blocks\<close>

text \<open>
  The destination \<open>dst\<close> gets bytes appended; \<open>wr out chunk\<close> is the error of writing \<open>chunk\<close>
  after \<open>out\<close>, with \<open>None\<close> for success. Results carry what has been written.
\<close>

type_synonym sink = "bytes \<Rightarrow> bytes \<Rightarrow> goerr option"

fun write_blocks :: "sink \<Rightarrow> bytes list \<Rightarrow> nat \<Rightarrow> nat \<Rightarrow> int \<Rightarrow> bytes \<Rightarrow> (goerr + int) \<times> bytes" where
  "write_blocks wr [] offset write totalWritten out = (Inr totalWritten, out)"
| "write_blocks wr (block # blocks) offset write totalWritten out =
     (if length block \<le> offset
      then write_blocks wr blocks (offset - length block) write totalWritten out
      else
        let block' = drop offset block
        in if write < length block'
           then (case wr out (take write block') of
                   Some err \<Rightarrow> (Inl err, out)
                 | None \<Rightarrow> (Inr (totalWritten + int write), out @ take write block'))
           else (case wr out block' of
                   Some err \<Rightarrow> (Inl err, out)
                 | None \<Rightarrow> write_blocks wr blocks 0 (write - length block')
                             (totalWritten + int (length block')) (out @ block')))"

definition writeDataBlocks ::
  "sink \<Rightarrow> bytes list \<Rightarrow> int \<Rightarrow> int \<Rightarrow> int \<Rightarrow> bytes \<Rightarrow> (goerr + int) \<times> bytes" where
  "writeDataBlocks wr enBlocks dataBlocks offset len out =
     (if offset < 0 \<or> len < 0 then (Inl errUnexpected, out)
      else if int (length enBlocks) < dataBlocks then (Inl errTooFewBlocks, out)
      else write_blocks wr (take (nat dataBlocks) enBlocks) (nat offset) (nat len) 0 out)"

subsection \<open>Reading shards\<close>

type_synonym reader = "int \<Rightarrow> int \<Rightarrow> goerr + bytes"

record parallelReader =
  pr_readers :: "reader option list"
  pr_orgReaders :: "reader option list"
  pr_dataBlocks :: int
  pr_errs :: "goerr option list"
  pr_offset :: int
  pr_shardSize :: int
  pr_shardFileSize :: int
  pr_readerToBuf :: "nat list"

definition newParallelReader :: "reader option list \<Rightarrow> Erasure \<Rightarrow> int \<Rightarrow> int \<Rightarrow> parallelReader option" where
  "newParallelReader readers e offset totalLength = do {
     shardFileSize \<leftarrow> ShardFileSize e totalLength;
     if e_blockSize e = 0 then None
     else Some \<lparr>pr_readers = readers, pr_orgReaders = readers, pr_dataBlocks = e_dataBlocks e,
       pr_errs = replicate (length readers) None,
       pr_offset = (offset sdiv e_blockSize e) * ShardSize e, pr_shardSize = ShardSize e,
       pr_shardFileSize = shardFileSize, pr_readerToBuf = [0..<length readers]\<rparr>
   }"

text \<open>The loop of \<open>preferReaders\<close>: the readers moved so far, the map to buffers, the next slot.\<close>

fun prefer_loop :: "nat \<Rightarrow> bool list \<Rightarrow> reader option list \<times> nat list \<times> nat \<Rightarrow>
    reader option list \<times> nat list \<times> nat" where
  "prefer_loop i [] acc = acc"
| "prefer_loop i (ok # oks) (readers, r2b, nxt) =
     (if \<not> ok \<or> readers ! i = None then prefer_loop (Suc i) oks (readers, r2b, nxt)
      else if i = nxt then prefer_loop (Suc i) oks (readers, r2b, Suc nxt)
      else prefer_loop (Suc i) oks
             (readers[nxt := readers ! i, i := readers ! nxt], r2b[nxt := i, i := nxt], Suc nxt))"

definition preferReaders :: "parallelReader \<Rightarrow> bool list \<Rightarrow> parallelReader" where
  "preferReaders p prefer =
     (if length prefer \<noteq> length (pr_orgReaders p) then p
      else case prefer_loop 0 prefer (pr_orgReaders p, pr_readerToBuf p, 0) of
             (readers, r2b, _) \<Rightarrow> p\<lparr>pr_readers := readers, pr_readerToBuf := r2b\<rparr>)"

definition canDecode :: "parallelReader \<Rightarrow> bytes list \<Rightarrow> bool" where
  "canDecode p buf \<longleftrightarrow> int (length (filter (\<lambda>b. b \<noteq> []) buf)) \<ge> pr_dataBlocks p"

text \<open>
  The readers tried in index order. The flags record that a missing file or a corrupted one was
  met; \<open>need\<close> counts the successes still wanted.
\<close>

fun spawn :: "nat list \<Rightarrow> nat \<Rightarrow> parallelReader \<times> bytes list \<times> bool \<times> bool \<Rightarrow>
    parallelReader \<times> bytes list \<times> bool \<times> bool" where
  "spawn [] need acc = acc"
| "spawn (idx # idxs) need (p, newBuf, missing, bitrot) =
     (if need = 0 then (p, newBuf, missing, bitrot)
      else case pr_readers p ! idx of
             None \<Rightarrow> spawn idxs need (p, newBuf, missing, bitrot)
           | Some reader \<Rightarrow>
               let bufIdx = pr_readerToBuf p ! idx
               in case reader (pr_shardSize p) (pr_offset p) of
                    Inl err \<Rightarrow>
                      spawn idxs need
                        (p\<lparr>pr_orgReaders := (pr_orgReaders p)[bufIdx := None],
                           pr_readers := (pr_readers p)[idx := None],
                           pr_errs := (pr_errs p)[idx := Some err]\<rparr>,
                         newBuf, missing \<or> errors_is err errFileNotFound,
                         bitrot \<or> (\<not> errors_is err errFileNotFound \<and> errors_is err errFileCorrupt))
                  | Inr bs \<Rightarrow> spawn idxs (need - 1) (p, newBuf[bufIdx := bs], missing, bitrot))"

text \<open>\<open>Read\<close>: the blocks with an error that asks for healing, or no blocks and the reduced error.\<close>

definition Reader_Read ::
  "(goerr option list \<Rightarrow> goerr option list) \<Rightarrow> parallelReader \<Rightarrow>
     parallelReader \<times> bytes list \<times> goerr option" where
  "Reader_Read ord p0 =
     (let p = (if pr_offset p0 + pr_shardSize p0 > pr_shardFileSize p0
               then p0\<lparr>pr_shardSize := pr_shardFileSize p0 - pr_offset p0\<rparr> else p0);
          newBuf = replicate (length (pr_readers p)) []
      in if pr_shardSize p = 0 then (p, newBuf, None)
         else case spawn [0..<length (pr_readers p)] (nat (pr_dataBlocks p)) (p, newBuf, False, False) of
                (p', buf, missing, bitrot) \<Rightarrow>
                  if canDecode p' buf
                  then (p'\<lparr>pr_offset := pr_offset p' + pr_shardSize p'\<rparr>, buf,
                        if missing then Some errFileNotFound
                        else if bitrot then Some errFileCorrupt else None)
                  else (p', [], reduceReadQuorumErrs ord (pr_errs p') objectOpIgnoredErrs
                                  (nat (pr_dataBlocks p'))))"

subsection \<open>Decoding\<close>

text \<open>
  \<open>rec\<close> is \<open>ReconstructData\<close> of the encoder, on the blocks read, with empty ones missing.
\<close>

definition DecodeDataBlocks :: "(bytes list \<Rightarrow> goerr + bytes list) \<Rightarrow> bytes list \<Rightarrow> goerr + bytes list" where
  "DecodeDataBlocks rec data =
     (let isZero = length (filter (\<lambda>b. b = []) data)
      in if isZero = 0 \<or> isZero = length data then Inr data else rec data)"

definition block_window :: "Erasure \<Rightarrow> int \<Rightarrow> int \<Rightarrow> int \<Rightarrow> int \<Rightarrow> int \<Rightarrow> int \<times> int" where
  "block_window e startBlock endBlock block offset len =
     (if startBlock = endBlock then (offset smod e_blockSize e, len)
      else if block = startBlock
        then (offset smod e_blockSize e, e_blockSize e - offset smod e_blockSize e)
      else if block = endBlock then (0, (offset + len) smod e_blockSize e)
      else (0, e_blockSize e))"

text \<open>The loop over the blocks: the bytes written, the error to return, the output.\<close>

fun decode_loop ::
  "(goerr option list \<Rightarrow> goerr option list) \<Rightarrow> (bytes list \<Rightarrow> goerr + bytes list) \<Rightarrow> sink \<Rightarrow> Erasure \<Rightarrow>
     int \<Rightarrow> int \<Rightarrow> int \<Rightarrow> int \<Rightarrow> int list \<Rightarrow> parallelReader \<Rightarrow> int \<Rightarrow> goerr option \<Rightarrow> bytes \<Rightarrow>
     int \<times> goerr option \<times> bytes" where
  "decode_loop ord rec wr e startBlock endBlock offset len [] p bytesWritten derr out =
     (if bytesWritten \<noteq> len then (bytesWritten, Some errLessData, out) else (bytesWritten, derr, out))"
| "decode_loop ord rec wr e startBlock endBlock offset len (block # blocks) p bytesWritten derr out =
     (case block_window e startBlock endBlock block offset len of (blockOffset, blockLength) \<Rightarrow>
      if blockLength = 0
      then (if bytesWritten \<noteq> len then (bytesWritten, Some errLessData, out)
            else (bytesWritten, derr, out))
      else case Reader_Read ord p of (p', bufs, err) \<Rightarrow>
        if bufs = [] \<and> err \<noteq> None then (-1, err, out)
        else
          let derr' = (if bufs \<noteq> [] \<and> derr = None then
                         (case err of None \<Rightarrow> None
                          | Some x \<Rightarrow> if errors_is x errFileNotFound \<or> errors_is x errFileCorrupt
                                      then err else None)
                       else derr)
          in case DecodeDataBlocks rec bufs of
               Inl x \<Rightarrow> (-1, Some x, out)
             | Inr blks \<Rightarrow>
                 (case writeDataBlocks wr blks (e_dataBlocks e) blockOffset blockLength out of
                    (Inl x, out') \<Rightarrow> (-1, Some x, out')
                  | (Inr n, out') \<Rightarrow>
                      decode_loop ord rec wr e startBlock endBlock offset len blocks p'
                        (bytesWritten + n) derr' out'))"

definition Decode ::
  "(goerr option list \<Rightarrow> goerr option list) \<Rightarrow> (bytes list \<Rightarrow> goerr + bytes list) \<Rightarrow> sink \<Rightarrow> Erasure \<Rightarrow>
     reader option list \<Rightarrow> int \<Rightarrow> int \<Rightarrow> int \<Rightarrow> bool list \<Rightarrow> (int \<times> goerr option \<times> bytes) option" where
  "Decode ord rec wr e readers offset len totalLength prefer =
     (if offset < 0 \<or> len < 0 then Some (-1, Some errInvalidArgument, [])
      else if offset + len > totalLength then Some (-1, Some errInvalidArgument, [])
      else if len = 0 then Some (0, None, [])
      else do {
        p0 \<leftarrow> newParallelReader readers e offset totalLength;
        let p = (if length prefer = length readers then preferReaders p0 prefer else p0);
        let startBlock = offset sdiv e_blockSize e;
        let endBlock = (offset + len) sdiv e_blockSize e;
        Some (decode_loop ord rec wr e startBlock endBlock offset len [startBlock..endBlock] p 0 None [])
      })"


subsection \<open>Encoding\<close>

text \<open>\<open>enc\<close> is \<open>Split\<close> followed by \<open>Encode\<close> of the encoder.\<close>

definition EncodeData :: "(bytes \<Rightarrow> goerr + bytes list) \<Rightarrow> Erasure \<Rightarrow> bytes \<Rightarrow> goerr + bytes list" where
  "EncodeData enc e data =
     (if data = [] then Inr (replicate (nat (e_dataBlocks e + e_parityBlocks e)) []) else enc data)"

text \<open>One entry per drive: the writer, its error so far and the bytes it has accepted.\<close>

type_synonym shard_writer = "sink option \<times> goerr option \<times> bytes"

fun write_shard :: "shard_writer \<Rightarrow> bytes \<Rightarrow> shard_writer" where
  "write_shard (None, err, out) block = (None, Some errDiskNotFound, out)"
| "write_shard (Some w, Some err, out) block = (Some w, Some err, out)"
| "write_shard (Some w, None, out) block =
     (case w out block of None \<Rightarrow> (Some w, None, out @ block) | Some err \<Rightarrow> (None, Some err, out))"

definition parallelWriter_Write ::
  "(goerr option list \<Rightarrow> goerr option list) \<Rightarrow> nat \<Rightarrow> shard_writer list \<Rightarrow> bytes list \<Rightarrow>
     (shard_writer list \<times> goerr option) option" where
  "parallelWriter_Write ord writeQuorum writers blocks =
     (if length blocks < length writers then None
      else
        let writers' = map2 write_shard writers blocks
        in Some (writers', reduceWriteQuorumErrs ord (map (\<lambda>w. fst (snd w)) writers')
                             objectOpIgnoredErrs writeQuorum))"

text \<open>
  The loop of \<open>Encode\<close> on the bytes left in the source, which ends with \<open>EOF\<close> (\<open>None\<close>) or
  with an error. \<open>bufLen\<close> is the length of the buffer; with an empty buffer \<open>io.ReadFull\<close> reads
  nothing and the loop never ends (\<open>None\<close>).
\<close>

function encode_loop ::
  "(goerr option list \<Rightarrow> goerr option list) \<Rightarrow> (bytes \<Rightarrow> goerr + bytes list) \<Rightarrow> Erasure \<Rightarrow> nat \<Rightarrow> nat \<Rightarrow>
     goerr option \<Rightarrow> bytes \<Rightarrow> shard_writer list \<Rightarrow> int \<Rightarrow> (shard_writer list \<times> (goerr + int)) option" where
  "encode_loop ord enc e quorum bufLen rerr src writers tot =
     (if bufLen = 0 then None
      else
        let chunk = take bufLen src;
            step = (if chunk = [] then Some (writers, Inr tot)
                    else case EncodeData enc e chunk of
                           Inl err \<Rightarrow> Some (writers, Inl err)
                         | Inr blocks \<Rightarrow>
                             (case parallelWriter_Write ord quorum writers blocks of
                                None \<Rightarrow> None
                              | Some (writers', Some err) \<Rightarrow> Some (writers', Inl err)
                              | Some (writers', None) \<Rightarrow> Some (writers', Inr (tot + int (length chunk)))))
        in case step of
             None \<Rightarrow> None
           | Some (writers', Inl err) \<Rightarrow> Some (writers', Inl err)
           | Some (writers', Inr tot') \<Rightarrow>
               if length src < bufLen
               then (case rerr of
                       None \<Rightarrow> Some (writers', Inr tot')
                     | Some err \<Rightarrow> Some (writers', Inl err))
               else encode_loop ord enc e quorum bufLen rerr (drop bufLen src) writers' tot')"
  by auto
termination by (relation "measure (\<lambda>(ord, enc, e, quorum, bufLen, rerr, src, writers, tot). length src)") auto

declare encode_loop.simps [simp del]

definition Encode ::
  "(goerr option list \<Rightarrow> goerr option list) \<Rightarrow> (bytes \<Rightarrow> goerr + bytes list) \<Rightarrow> Erasure \<Rightarrow>
     bytes \<Rightarrow> goerr option \<Rightarrow> sink option list \<Rightarrow> nat \<Rightarrow> nat \<Rightarrow>
     (shard_writer list \<times> (goerr + int)) option" where
  "Encode ord enc e src rerr writers bufLen quorum =
     encode_loop ord enc e quorum bufLen rerr src (map (\<lambda>w. (w, None, [])) writers) 0"

subsection \<open>What the Reed-Solomon package documents\<close>

definition rs_codec ::
  "nat \<Rightarrow> nat \<Rightarrow> (bytes \<Rightarrow> goerr + bytes list) \<Rightarrow> (bytes list \<Rightarrow> goerr + bytes list) \<Rightarrow> bool" where
  "rs_codec d p enc rec \<longleftrightarrow>
     (\<forall>data. data \<noteq> [] \<longrightarrow>
       (\<exists>shards. enc data = Inr shards \<and> length shards = d + p \<and>
          (\<forall>s \<in> set shards. length s = ceil_div d (length data)) \<and>
          take (length data) (concat (take d shards)) = data \<and>
          (\<forall>bufs. length bufs = d + p \<and> (\<forall>i < d + p. bufs ! i = [] \<or> bufs ! i = shards ! i) \<and>
             d \<le> length (filter (\<lambda>b. b \<noteq> []) bufs) \<longrightarrow>
             (\<exists>out. rec bufs = Inr out \<and> d \<le> length out \<and> take d out = take d shards))))"

text \<open>The blocks of a part and the shard files that encoding them produces.\<close>

definition shards_of :: "(bytes \<Rightarrow> goerr + bytes list) \<Rightarrow> bytes \<Rightarrow> bytes list" where
  "shards_of enc data = (case enc data of Inl _ \<Rightarrow> [] | Inr s \<Rightarrow> s)"

definition shard_file :: "(bytes \<Rightarrow> goerr + bytes list) \<Rightarrow> nat \<Rightarrow> bytes \<Rightarrow> nat \<Rightarrow> bytes" where
  "shard_file enc bs data i =
     concat (map (\<lambda>b. shards_of enc (chunk bs data b) ! i) [0..<ceil_div bs (length data)])"

definition faithful_reader :: "bytes \<Rightarrow> reader \<Rightarrow> bool" where
  "faithful_reader file r \<longleftrightarrow>
     (\<forall>n off bs. r n off = Inr bs \<longrightarrow> bs = take (nat n) (drop (nat off) file))"

definition reliable_reader :: "reader \<Rightarrow> bool" where
  "reliable_reader r \<longleftrightarrow> (\<forall>n off. \<exists>bs. r n off = Inr bs)"

subsection \<open>Blocks and shard files\<close>

lemma rs_codec_shards:
  assumes "rs_codec d p enc rec" and "data \<noteq> []"
  shows "enc data = Inr (shards_of enc data)" and "length (shards_of enc data) = d + p"
    and "i < d + p \<Longrightarrow> length (shards_of enc data ! i) = ceil_div d (length data)"
    and "take (length data) (concat (take d (shards_of enc data))) = data"
  using assms unfolding rs_codec_def shards_of_def by (force dest!: spec [of _ data])+

lemma rs_codec_reconstruct:
  assumes "rs_codec d p enc rec" and "data \<noteq> []" and "length bufs = d + p"
    and "\<And>i. i < d + p \<Longrightarrow> bufs ! i = [] \<or> bufs ! i = shards_of enc data ! i"
    and "d \<le> length (filter (\<lambda>b. b \<noteq> []) bufs)"
  shows "\<exists>out. rec bufs = Inr out \<and> d \<le> length out \<and> take d out = take d (shards_of enc data)"
proof -
  from assms(1,2) obtain shards where s: "enc data = Inr shards"
    and r: "\<forall>bufs. length bufs = d + p \<and> (\<forall>i < d + p. bufs ! i = [] \<or> bufs ! i = shards ! i) \<and>
             d \<le> length (filter (\<lambda>b. b \<noteq> []) bufs) \<longrightarrow>
             (\<exists>out. rec bufs = Inr out \<and> d \<le> length out \<and> take d out = take d shards)"
    unfolding rs_codec_def by blast
  have "shards_of enc data = shards" using s by (simp add: shards_of_def)
  then show ?thesis using r assms(3-5) by auto
qed

lemma concat_uniform_drop:
  assumes "\<And>x. x \<in> set (take b xs) \<Longrightarrow> length (f x) = n" and "b \<le> length xs"
  shows "drop (b * n) (concat (map f xs)) = concat (map f (drop b xs))"
  using assms
proof (induction b arbitrary: xs)
  case (Suc b)
  then obtain x ys where xs: "xs = x # ys" by (cases xs) auto
  with Suc.prems have "length (f x) = n" by simp
  moreover have "drop (b * n) (concat (map f ys)) = concat (map f (drop b ys))"
    using Suc.prems xs by (intro Suc.IH) auto
  ultimately show ?case by (simp add: xs)
qed simp

text \<open>The part of a shard file that belongs to block \<open>b\<close>.\<close>

lemma shard_file_slice:
  assumes "rs_codec d p enc rec" and "0 < d" and "0 < bs" and "b * bs < length data" and "i < d + p"
  shows "take (ceil_div d (length (chunk bs data b))) (drop (b * ceil_div d bs) (shard_file enc bs data i))
    = shards_of enc (chunk bs data b) ! i"
proof -
  let ?f = "\<lambda>b. shards_of enc (chunk bs data b) ! i"
  let ?n = "ceil_div bs (length data)"
  have b: "b < ?n" using assms(3,4) by (simp add: ceil_div_index)
  have full: "length (?f c) = ceil_div d bs" if "c < b" for c
  proof -
    have "Suc c * bs \<le> b * bs" using that by (intro mult_le_mono1) simp
    then have "length (chunk bs data c) = bs" using assms(4) by (simp add: chunk_length)
    moreover have "chunk bs data c \<noteq> []" using calculation assms(3) by auto
    ultimately show ?thesis using rs_codec_shards(3) [OF assms(1) _ assms(5)] by metis
  qed
  have "drop (b * ceil_div d bs) (shard_file enc bs data i) = concat (map ?f (drop b [0..<?n]))"
    unfolding shard_file_def
    by (rule concat_uniform_drop) (use full b in auto)
  also have "drop b [0..<?n] = b # [Suc b..<?n]" using drop_upt [of b 0 ?n] upt_conv_Cons [OF b] by simp
  finally have "drop (b * ceil_div d bs) (shard_file enc bs data i) =
      ?f b @ concat (map ?f [Suc b..<?n])" by simp
  moreover have "length (?f b) = ceil_div d (length (chunk bs data b))"
    using rs_codec_shards(3) [OF assms(1) chunk_nonempty [OF assms(3,4)] assms(5)] .
  ultimately show ?thesis by simp
qed


subsection \<open>Writing a window of the data blocks\<close>

lemma write_blocks_ok:
  assumes "wr = (\<lambda>out c. None)"
  shows "write_blocks wr blocks offset write tw out =
    (Inr (tw + int (length (take write (drop offset (concat blocks))))),
     out @ take write (drop offset (concat blocks)))"
  unfolding assms
proof (induction blocks arbitrary: offset "write" tw out)
  case (Cons block blocks)
  consider "length block \<le> offset" | "offset < length block" "write < length (drop offset block)"
    | "offset < length block" "length (drop offset block) \<le> write" by linarith
  then show ?case
  proof cases
    case 1
    then show ?thesis by (simp add: Cons.IH)
  next
    case 2
    then show ?thesis by simp
  next
    case 3
    then show ?thesis by (simp add: Cons.IH Let_def)
  qed
qed simp

text \<open>Data shards that begin with the chunk give the window of the chunk.\<close>

lemma writeDataBlocks_chunk:
  assumes "wr = (\<lambda>out c. None)" and "d \<le> length blks"
    and "take (length c) (concat (take d blks)) = c" and "o' + l \<le> length c"
  shows "writeDataBlocks wr blks (int d) (int o') (int l) out =
    (Inr (int l), out @ take l (drop o' c))"
proof -
  let ?all = "concat (take d blks)"
  have "take l (drop o' (take (length c) ?all)) = take l (drop o' ?all)"
    using assms(4) by (simp add: drop_take min_def)
  then have "take l (drop o' ?all) = take l (drop o' c)" by (simp only: assms(3))
  moreover have "length (take l (drop o' c)) = l" using assms(4) by simp
  ultimately show ?thesis
    using assms(2) write_blocks_ok [OF assms(1), of "take d blks" o' l 0 out]
    by (simp add: writeDataBlocks_def)
qed

lemma length_filter_update:
  assumes "k < length xs" and "xs ! k = []" and "v \<noteq> []"
  shows "length (filter (\<lambda>b. b \<noteq> []) (xs[k := v])) = Suc (length (filter (\<lambda>b. b \<noteq> []) xs))"
proof -
  have xs: "xs = take k xs @ [] # drop (Suc k) xs" using id_take_nth_drop [OF assms(1)] assms(2) by simp
  have "xs[k := v] = take k xs @ v # drop (Suc k) xs" using assms(1) by (simp add: upd_conv_take_nth_drop)
  then show ?thesis using assms(3) by (subst (2) xs) simp
qed

subsection \<open>Reading one block\<close>

text \<open>
  \<open>files\<close> are the shard files of the drives. Reader \<open>idx\<close> reads the file of its buffer, and no
  two readers share a buffer.
\<close>

definition aligned :: "bytes list \<Rightarrow> parallelReader \<Rightarrow> bool" where
  "aligned files p \<longleftrightarrow>
     length (pr_readers p) = length files \<and> length (pr_readerToBuf p) = length files \<and>
     distinct (pr_readerToBuf p) \<and> (\<forall>i < length files. pr_readerToBuf p ! i < length files) \<and>
     (\<forall>i < length files. \<forall>r. pr_readers p ! i = Some r \<longrightarrow>
        faithful_reader (files ! (pr_readerToBuf p ! i)) r)"

definition reliable_at :: "parallelReader \<Rightarrow> nat \<Rightarrow> bool" where
  "reliable_at p i \<longleftrightarrow> (\<exists>r. pr_readers p ! i = Some r \<and> reliable_reader r)"

lemma aligned_offset [simp]: "aligned files (p\<lparr>pr_offset := x\<rparr>) = aligned files p"
  by (simp add: aligned_def)

lemma reliable_at_offset [simp]: "reliable_at (p\<lparr>pr_offset := x\<rparr>) = reliable_at p"
  by (simp add: reliable_at_def fun_eq_iff)

definition same_geometry :: "parallelReader \<Rightarrow> parallelReader \<Rightarrow> bool" where
  "same_geometry p q \<longleftrightarrow> pr_dataBlocks q = pr_dataBlocks p \<and> pr_offset q = pr_offset p \<and>
     pr_shardSize q = pr_shardSize p \<and> pr_shardFileSize q = pr_shardFileSize p \<and>
     pr_readerToBuf q = pr_readerToBuf p \<and> length (pr_readers q) = length (pr_readers p) \<and>
     (\<forall>i. pr_readers q ! i = pr_readers p ! i \<or> pr_readers q ! i = None \<and> \<not> reliable_at p i)"

lemma same_geometry_refl [simp]: "same_geometry p p"
  by (simp add: same_geometry_def)

lemma same_geometry_trans: "same_geometry p q \<Longrightarrow> same_geometry q r \<Longrightarrow> same_geometry p r"
  unfolding same_geometry_def reliable_at_def by metis

lemma same_geometry_reliable: "same_geometry p q \<Longrightarrow> reliable_at q i = reliable_at p i"
  unfolding same_geometry_def reliable_at_def by (metis option.distinct(1))

lemma same_geometry_aligned: "same_geometry p q \<Longrightarrow> aligned files p \<Longrightarrow> aligned files q"
  unfolding same_geometry_def aligned_def by (metis option.distinct(1))

lemma unreliable: "r n off = Inl err \<Longrightarrow> \<not> reliable_reader r"
  unfolding reliable_reader_def by (metis Inl_Inr_False)

lemma same_geometry_fail:
  assumes "pr_readers p ! idx = Some r" and "r n off = Inl err"
  shows "same_geometry p (p\<lparr>pr_orgReaders := org, pr_readers := (pr_readers p)[idx := None], pr_errs := es\<rparr>)"
proof -
  have "\<not> reliable_at p idx" using assms unreliable by (simp add: reliable_at_def)
  then have "(pr_readers p)[idx := None] ! i = pr_readers p ! i \<or>
      (pr_readers p)[idx := None] ! i = None \<and> \<not> reliable_at p i" for i
    by (cases "i = idx"; cases "idx < length (pr_readers p)") (auto simp: list_update_beyond)
  then show ?thesis by (simp add: same_geometry_def)
qed

text \<open>
  The buffers after trying the readers \<open>idxs\<close>: each is unchanged or holds the slice of its own
  file, and as many were filled as were wanted, or as there are reliable readers.
\<close>

definition slice_at :: "parallelReader \<Rightarrow> bytes \<Rightarrow> bytes" where
  "slice_at p file = take (nat (pr_shardSize p)) (drop (nat (pr_offset p)) file)"

abbreviation filled :: "bytes list \<Rightarrow> nat" where
  "filled buf \<equiv> length (filter (\<lambda>b. b \<noteq> []) buf)"

lemma spawn_spec:
  assumes "spawn idxs need (p, buf, m, b) = (p', buf', m', b')" and "aligned files p"
    and "distinct idxs" and "set idxs \<subseteq> {..<length files}" and "length buf = length files"
    and "\<And>j. j < length files \<Longrightarrow> slice_at p (files ! j) \<noteq> []"
    and "\<And>i. i \<in> set idxs \<Longrightarrow> buf ! (pr_readerToBuf p ! i) = []"
  shows "same_geometry p p' \<and> length buf' = length files \<and>
    (\<forall>j < length files. buf' ! j = buf ! j \<or> buf' ! j = slice_at p (files ! j)) \<and>
    filled buf + min need (length (filter (reliable_at p) idxs)) \<le> filled buf'"
  using assms
proof (induction idxs arbitrary: need p buf m b)
  case (Cons idx idxs)
  note al = Cons.prems(2)
  have idx: "idx < length files" "idx \<notin> set idxs" "distinct idxs" "set idxs \<subseteq> {..<length files}"
    using Cons.prems(3,4) by auto
  show ?case
  proof (cases "need = 0")
    case True
    then show ?thesis using Cons.prems by simp
  next
    case need: False
    show ?thesis
    proof (cases "pr_readers p ! idx")
      case None
      with need Cons.prems(1) have "spawn idxs need (p, buf, m, b) = (p', buf', m', b')" by simp
      from Cons.IH [OF this al idx(3,4) Cons.prems(5,6)] Cons.prems(7) None show ?thesis
        by (simp add: reliable_at_def)
    next
      case (Some r)
      show ?thesis
      proof (cases "r (pr_shardSize p) (pr_offset p)")
        case (Inl err)
        define q where "q = p\<lparr>pr_orgReaders := (pr_orgReaders p)[pr_readerToBuf p ! idx := None],
          pr_readers := (pr_readers p)[idx := None], pr_errs := (pr_errs p)[idx := Some err]\<rparr>"
        obtain m1 b1 where s: "spawn idxs need (q, buf, m1, b1) = (p', buf', m', b')"
          using need Some Inl Cons.prems(1) by (simp add: q_def Let_def)
        have g: "same_geometry p q" unfolding q_def by (rule same_geometry_fail [OF Some Inl])
        have sl: "slice_at q f = slice_at p f" for f using g by (simp add: slice_at_def same_geometry_def)
        have rb: "pr_readerToBuf q = pr_readerToBuf p" using g by (simp add: same_geometry_def)
        have "\<not> reliable_at p idx" using Some Inl unreliable by (simp add: reliable_at_def)
        moreover have "same_geometry q p' \<and> length buf' = length files \<and>
            (\<forall>j < length files. buf' ! j = buf ! j \<or> buf' ! j = slice_at q (files ! j)) \<and>
            filled buf + min need (length (filter (reliable_at q) idxs)) \<le> filled buf'"
          by (rule Cons.IH [OF s same_geometry_aligned [OF g al] idx(3,4) Cons.prems(5)])
            (use Cons.prems(6,7) sl rb in auto)
        moreover have "filter (reliable_at q) idxs = filter (reliable_at p) idxs"
          using same_geometry_reliable [OF g] by (intro filter_cong) auto
        ultimately show ?thesis using same_geometry_trans [OF g] by (auto simp: sl)
      next
        case (Inr bs)
        let ?k = "pr_readerToBuf p ! idx"
        have k: "?k < length files" using al idx(1) by (simp add: aligned_def)
        have bs: "bs = slice_at p (files ! ?k)"
          using al idx(1) Some Inr by (auto simp: aligned_def faithful_reader_def slice_at_def)
        have s: "spawn idxs (need - 1) (p, buf[?k := bs], m, b) = (p', buf', m', b')"
          using need Some Inr Cons.prems(1) by (simp add: Let_def)
        have "?k \<noteq> pr_readerToBuf p ! i" if "i \<in> set idxs" for i
          using that idx al by (auto simp: aligned_def nth_eq_iff_index_eq)
        then have "same_geometry p p' \<and> length buf' = length files \<and>
            (\<forall>j < length files. buf' ! j = buf[?k := bs] ! j \<or> buf' ! j = slice_at p (files ! j)) \<and>
            filled (buf[?k := bs]) + min (need - 1) (length (filter (reliable_at p) idxs)) \<le> filled buf'"
          by (intro Cons.IH [OF s al idx(3,4)]) (use Cons.prems(5-7) in auto)
        moreover have "filled (buf[?k := bs]) = Suc (filled buf)"
          by (rule length_filter_update) (use k bs Cons.prems(5-7) in auto)
        moreover from calculation(1)
        have "buf' ! j = buf ! j \<or> buf' ! j = slice_at p (files ! j)" if "j < length files" for j
          using that bs Cons.prems(5) by (cases "j = ?k") auto
        ultimately show ?thesis using need by auto
      qed
    qed
  qed
qed simp

text \<open>Reading block \<open>b\<close> of a part whose data is \<open>data\<close>.\<close>

definition reads_block :: "(bytes \<Rightarrow> goerr + bytes list) \<Rightarrow> nat \<Rightarrow> nat \<Rightarrow> nat \<Rightarrow> bytes \<Rightarrow> nat \<Rightarrow> parallelReader \<Rightarrow> bool" where
  "reads_block enc d p bs data b pr \<longleftrightarrow>
     aligned (map (shard_file enc bs data) [0..<d + p]) pr \<and> pr_dataBlocks pr = int d \<and>
     d \<le> length (filter (reliable_at pr) [0..<d + p]) \<and>
     pr_offset pr = int (b * ceil_div d bs) \<and> pr_shardSize pr = int (ceil_div d bs) \<and>
     pr_shardFileSize pr =
       int (length data div bs * ceil_div d bs + ceil_div d (length data mod bs))"

lemma block_shard_size:
  assumes "0 < d" and "0 < bs" and "b * bs < length data"
  shows "int (ceil_div d (length (chunk bs data b))) =
    (if int (b * ceil_div d bs) + int (ceil_div d bs) >
        int (length data div bs * ceil_div d bs + ceil_div d (length data mod bs))
     then int (length data div bs * ceil_div d bs + ceil_div d (length data mod bs))
        - int (b * ceil_div d bs)
     else int (ceil_div d bs))"
proof -
  let ?S = "ceil_div d bs" and ?q = "length data div bs" and ?r = "length data mod bs"
  have n: "length data = ?q * bs + ?r" by simp
  have r: "?r < bs" using assms(2) by simp
  have bq: "b \<le> ?q"
  proof (rule ccontr)
    assume "\<not> b \<le> ?q"
    then have "Suc ?q * bs \<le> b * bs" by (intro mult_le_mono1) simp
    then show False using assms(3) n r by simp
  qed
  show ?thesis
  proof (cases "b = ?q")
    case True
    have "length (chunk bs data b) = ?r" using True r by (simp add: chunk_length minus_div_mult_eq_mod)
    moreover have "ceil_div d ?r \<le> ?S" using r by (intro ceil_div_mono) simp
    ultimately show ?thesis using True by (auto simp: not_less)
  next
    case False
    then have "Suc b \<le> ?q" using bq by simp
    then have "Suc b * bs \<le> ?q * bs" "Suc b * ?S \<le> ?q * ?S"
      using mult_le_mono1 [of "Suc b" ?q] by blast+
    moreover have "?q * bs \<le> length data" by simp
    ultimately have "length (chunk bs data b) = bs" "b * ?S + ?S \<le> ?q * ?S"
      unfolding chunk_length mult_Suc by linarith+
    moreover from this(2) have "int (b * ?S) + int ?S \<le> int (?q * ?S)"
      by (simp only: of_nat_add [symmetric] of_nat_le_iff)
    ultimately show ?thesis by simp
  qed
qed

lemma Reader_Read_block:
  assumes "rs_codec d p enc rec" and "0 < d" and "0 < bs" and "b * bs < length data"
    and "reads_block enc d p bs data b pr"
  shows "\<exists>pr' bufs err. Reader_Read ord pr = (pr', bufs, err) \<and> length bufs = d + p \<and>
    (\<forall>i < d + p. bufs ! i = [] \<or> bufs ! i = shards_of enc (chunk bs data b) ! i) \<and>
    d \<le> filled bufs \<and> err \<in> {None, Some errFileNotFound, Some errFileCorrupt} \<and>
    (Suc b * bs < length data \<longrightarrow> reads_block enc d p bs data (Suc b) pr')"
proof -
  let ?files = "map (shard_file enc bs data) [0..<d + p]"
  let ?L = "ceil_div d (length (chunk bs data b))"
  note rb = assms(5) [unfolded reads_block_def]
  define q where "q = (if pr_offset pr + pr_shardSize pr > pr_shardFileSize pr
    then pr\<lparr>pr_shardSize := pr_shardFileSize pr - pr_offset pr\<rparr> else pr)"
  have qs: "pr_shardSize q = int ?L" "pr_offset q = int (b * ceil_div d bs)"
    "pr_dataBlocks q = int d" "pr_readers q = pr_readers pr" "pr_shardFileSize q = pr_shardFileSize pr"
    "aligned ?files q" "reliable_at q = reliable_at pr"
    using rb block_shard_size [OF assms(2-4)]
    by (auto simp: q_def aligned_def reliable_at_def)
  have c: "chunk bs data b \<noteq> []" using assms(3,4) by (rule chunk_nonempty)
  have L: "0 < ?L" using assms(2) c by (simp add: ceil_div_pos)
  have sl: "slice_at q (?files ! j) = shards_of enc (chunk bs data b) ! j" if "j < d + p" for j
    using that shard_file_slice [OF assms(1-4) that]
    by (simp add: slice_at_def qs nat_mult_distrib del: upt_Suc)
  have slne: "slice_at q (?files ! j) \<noteq> []" if "j < length ?files" for j
    using that sl [of j] rs_codec_shards(3) [OF assms(1) c, of j] L by auto
  obtain p' bufs m t where sp: "spawn [0..<d + p] d (q, replicate (d + p) [], False, False) = (p', bufs, m, t)"
    by (cases "spawn [0..<d + p] d (q, replicate (d + p) [], False, False)") auto
  have spec: "same_geometry q p' \<and> length bufs = length ?files \<and>
    (\<forall>j < length ?files. bufs ! j = replicate (d + p) [] ! j \<or> bufs ! j = slice_at q (?files ! j)) \<and>
    filled (replicate (d + p) []) + min d (length (filter (reliable_at q) [0..<d + p])) \<le> filled bufs"
    by (rule spawn_spec [OF sp qs(6)]) (use slne qs(6) in \<open>auto simp: aligned_def\<close>)
  have fd: "d \<le> filled bufs" using spec rb qs(7) by simp
  have len: "length (pr_readers q) = d + p" using qs(6) by (simp add: aligned_def)
  have "canDecode p' bufs" using spec fd qs(3) by (simp add: canDecode_def same_geometry_def)
  then have read: "Reader_Read ord pr = (p'\<lparr>pr_offset := pr_offset p' + pr_shardSize p'\<rparr>, bufs,
      if m then Some errFileNotFound else if t then Some errFileCorrupt else None)"
    using sp L len qs(1,3) by (simp add: Reader_Read_def q_def [symmetric] Let_def)
  have "reads_block enc d p bs data (Suc b) (p'\<lparr>pr_offset := pr_offset p' + pr_shardSize p'\<rparr>)"
    if "Suc b * bs < length data"
  proof -
    have "length (chunk bs data b) = bs" using that by (simp add: chunk_length)
    moreover have "aligned ?files p'" using same_geometry_aligned spec qs(6) by blast
    moreover have "filter (reliable_at p') [0..<d + p] = filter (reliable_at pr) [0..<d + p]"
      using same_geometry_reliable [of q p'] spec qs(7) by (intro filter_cong) auto
    ultimately show ?thesis
      using rb spec qs(1-5) unfolding reads_block_def by (simp add: same_geometry_def)
  qed
  moreover have "bufs ! i = [] \<or> bufs ! i = shards_of enc (chunk bs data b) ! i" if "i < d + p" for i
    using spec sl [OF that] that by auto
  ultimately show ?thesis using read fd spec by auto
qed

subsection \<open>Decoding a range\<close>

lemma block_window_facts:
  assumes "e_blockSize e = int bs" and "0 < bs" and "0 < l"
    and "o' div bs \<le> b" and "b \<le> (o' + l) div bs"
  obtains bo bl where
    "block_window e (int (o' div bs)) (int ((o' + l) div bs)) (int b) (int o') (int l) = (int bo, int bl)"
    and "bo + bl \<le> bs" and "o' + range_pos bs o' l b = b * bs + bo \<or> bl = 0"
    and "range_pos bs o' l (Suc b) = range_pos bs o' l b + bl"
    and "bl = 0 \<Longrightarrow> range_pos bs o' l b = l"
proof -
  let ?sb = "o' div bs" and ?eb = "(o' + l) div bs"
  have o: "o' = ?sb * bs + o' mod bs" and ol: "o' + l = ?eb * bs + (o' + l) mod bs" by simp_all
  have m: "o' mod bs < bs" "(o' + l) mod bs < bs" using assms(2) by simp_all
  consider (single) "?sb = ?eb" | (first) "?sb \<noteq> ?eb" "b = ?sb"
    | (last) "?sb \<noteq> ?eb" "b \<noteq> ?sb" "b = ?eb" | (mid) "?sb < b" "b < ?eb"
    using assms(4,5) by linarith
  then show thesis
  proof cases
    case single
    then have b: "b = ?sb" using assms(4,5) by simp
    have "?eb * bs = ?sb * bs" using single by simp
    then have lt: "o' mod bs + l < bs" using o ol m by linarith
    have "block_window e (int ?sb) (int ?eb) (int b) (int o') (int l) = (int (o' mod bs), int l)"
      using single by (simp add: block_window_def assms(1) smod_nat)
    moreover have "?sb * bs \<le> o'" "o' + l \<le> Suc ?sb * bs"
      using o lt unfolding mult_Suc by linarith+
    then have "range_pos bs o' l b = 0" "range_pos bs o' l (Suc b) = l"
      unfolding range_pos_def b by simp_all
    ultimately show thesis using that [of "o' mod bs" l] lt o b assms(3) by simp
  next
    case first
    have "block_window e (int ?sb) (int ?eb) (int b) (int o') (int l)
        = (int (o' mod bs), int (bs - o' mod bs))"
      using first m by (simp add: block_window_def assms(1) smod_nat of_nat_diff)
    moreover have "Suc ?sb \<le> ?eb" using first assms(5) by simp
    then have "Suc ?sb * bs \<le> ?eb * bs" by (rule mult_le_mono1)
    then have "bs - o' mod bs \<le> l" "?sb * bs \<le> o'" "Suc ?sb * bs - o' = bs - o' mod bs"
      using o ol unfolding mult_Suc by linarith+
    then have "range_pos bs o' l b = 0" "range_pos bs o' l (Suc b) = bs - o' mod bs"
      unfolding range_pos_def first by simp_all
    ultimately show thesis using that [of "o' mod bs" "bs - o' mod bs"] m o first by simp
  next
    case last
    have "block_window e (int ?sb) (int ?eb) (int b) (int o') (int l) = (int 0, int ((o' + l) mod bs))"
      using last by (simp add: block_window_def assms(1) smod_nat flip: of_nat_add)
    moreover have "Suc ?sb * bs \<le> ?eb * bs" using last assms(4,5) by (intro mult_le_mono1) simp
    then have le: "o' \<le> ?eb * bs" "?eb * bs - o' + (o' + l) mod bs = l" "o' + l \<le> Suc ?eb * bs"
      "?eb * bs - o' \<le> l"
      using o ol m unfolding mult_Suc by linarith+
    then have "range_pos bs o' l b = ?eb * bs - o'" "range_pos bs o' l (Suc b) = l"
      unfolding range_pos_def last by simp_all
    ultimately show thesis using that [of 0 "(o' + l) mod bs"] m last le by simp
  next
    case mid
    have "block_window e (int ?sb) (int ?eb) (int b) (int o') (int l) = (int 0, int bs)"
      using mid by (simp add: block_window_def assms(1))
    moreover have "Suc ?sb * bs \<le> b * bs" "Suc b * bs \<le> ?eb * bs"
      using mid mult_le_mono1 [of "Suc ?sb" b bs] mult_le_mono1 [of "Suc b" ?eb bs] by simp_all
    then have "o' \<le> b * bs" "b * bs + bs \<le> o' + l"
      using o ol m unfolding mult_Suc by linarith+
    then have "range_pos bs o' l b = b * bs - o'" "range_pos bs o' l (Suc b) = b * bs - o' + bs"
      unfolding range_pos_def by simp_all
    ultimately show thesis using that [of 0 bs] assms(2) \<open>o' \<le> b * bs\<close> by simp
  qed
qed

lemma upto_map_int: "[int i..int j] = map int [i..<Suc j]"
proof (induction "Suc j - i" arbitrary: i)
  case 0
  then show ?case by simp
next
  case (Suc n)
  then have "i \<le> j" by simp
  moreover have "[int (Suc i)..int j] = map int [Suc i..<Suc j]"
    using Suc.hyps(2) by (intro Suc.hyps(1)) simp
  ultimately show ?case by (simp add: upto_rec1 upt_conv_Cons add.commute)
qed

lemma decode_data:
  assumes "rs_codec d p enc rec" and "c \<noteq> []" and "0 < d" and "length bufs = d + p"
    and "\<And>i. i < d + p \<Longrightarrow> bufs ! i = [] \<or> bufs ! i = shards_of enc c ! i"
    and "d \<le> filled bufs"
  shows "\<exists>blks. DecodeDataBlocks rec bufs = Inr blks \<and> d \<le> length blks \<and>
    take (length c) (concat (take d blks)) = c"
proof (cases "filter (\<lambda>b. b = []) bufs = []")
  case True
  then have ne: "b \<noteq> []" if "b \<in> set bufs" for b using that by (auto simp: filter_empty_conv)
  have "take d bufs = take d (shards_of enc c)"
  proof (rule nth_equalityI)
    show "length (take d bufs) = length (take d (shards_of enc c))"
      using assms(4) rs_codec_shards(2) [OF assms(1,2)] by simp
    fix i assume "i < length (take d bufs)"
    then have "i < d" "i < length bufs" by auto
    moreover have "bufs ! i \<noteq> []" using ne calculation(2) by simp
    ultimately show "take d bufs ! i = take d (shards_of enc c) ! i"
      using assms(4) assms(5) [of i] by simp
  qed
  then show ?thesis
    using True assms(4) rs_codec_shards(4) [OF assms(1,2)] by (simp add: DecodeDataBlocks_def)
next
  case False
  have "0 < filled bufs" using assms(3,6) by linarith
  moreover have "filled bufs + length (filter (\<lambda>b. b = []) bufs) = length bufs"
    using sum_length_filter_compl [of "\<lambda>b. b \<noteq> []" bufs] by simp
  ultimately have "length (filter (\<lambda>b. b = []) bufs) \<noteq> length bufs" by linarith
  then have "DecodeDataBlocks rec bufs = rec bufs" using False by (simp add: DecodeDataBlocks_def)
  with rs_codec_reconstruct [OF assms(1,2,4,5,6)] rs_codec_shards(4) [OF assms(1,2)] show ?thesis
    by auto
qed

lemma decode_loop_range:
  assumes "rs_codec d p enc rec" and "wr = (\<lambda>out c. None)" and "0 < d"
    and "e_dataBlocks e = int d" and "e_blockSize e = int bs" and "0 < bs" and "0 < l"
    and "o' + l \<le> length data" and "derr \<in> {None, Some errFileNotFound, Some errFileCorrupt}"
    and "o' div bs \<le> b" and "b \<le> Suc ((o' + l) div bs)"
    and "b * bs < length data \<longrightarrow> reads_block enc d p bs data b pr"
  shows "\<exists>derr' \<in> {None, Some errFileNotFound, Some errFileCorrupt}.
    decode_loop ord rec wr e (int (o' div bs)) (int ((o' + l) div bs)) (int o') (int l)
      (map int [b..<Suc ((o' + l) div bs)]) pr (int (range_pos bs o' l b)) derr
      (take (range_pos bs o' l b) (drop o' data)) = (int l, derr', take l (drop o' data))"
  using assms(9-12)
proof (induction "Suc ((o' + l) div bs) - b" arbitrary: b pr derr)
  case 0
  then have b: "b = Suc ((o' + l) div bs)" by simp
  have "o' + l < b * bs" unfolding b using assms(6) by (simp add: dividend_less_div_times)
  then have "range_pos bs o' l b = l" by (simp add: range_pos_def)
  then show ?case using 0 b by simp
next
  case (Suc n)
  let ?sb = "o' div bs" and ?eb = "(o' + l) div bs"
  have b: "b \<le> ?eb" using Suc.hyps(2) by simp
  obtain bo bl where w: "block_window e (int ?sb) (int ?eb) (int b) (int o') (int l) = (int bo, int bl)"
    and bb: "bo + bl \<le> bs" and pos: "o' + range_pos bs o' l b = b * bs + bo \<or> bl = 0"
    and nxt: "range_pos bs o' l (Suc b) = range_pos bs o' l b + bl"
    and zero: "bl = 0 \<Longrightarrow> range_pos bs o' l b = l"
    using block_window_facts [OF assms(5-7) Suc.prems(2) b] by metis
  have blocks: "map int [b..<Suc ?eb] = int b # map int [Suc b..<Suc ?eb]"
    using b by (simp add: upt_conv_Cons)
  show ?case
  proof (cases "bl = 0")
    case True
    then show ?thesis using Suc.prems(1) zero by (simp add: blocks w del: upt_Suc)
  next
    case False
    let ?out = "take (range_pos bs o' l b) (drop o' data)"
    have pos': "o' + range_pos bs o' l b = b * bs + bo" using pos False by simp
    have "range_pos bs o' l (Suc b) \<le> l" by (simp add: range_pos_def)
    then have le: "b * bs + bo + bl \<le> length data" using pos' nxt assms(8) by linarith
    then have lt: "b * bs < length data" using False by linarith
    have c: "chunk bs data b \<noteq> []" using assms(6) lt by (rule chunk_nonempty)
    have wc: "bo + bl \<le> length (chunk bs data b)" using bb le by (simp add: chunk_length)
    obtain pr' bufs err where r: "Reader_Read ord pr = (pr', bufs, err)" "length bufs = d + p"
      "\<forall>i < d + p. bufs ! i = [] \<or> bufs ! i = shards_of enc (chunk bs data b) ! i"
      "d \<le> filled bufs" "err \<in> {None, Some errFileNotFound, Some errFileCorrupt}"
      "Suc b * bs < length data \<longrightarrow> reads_block enc d p bs data (Suc b) pr'"
      using Reader_Read_block [OF assms(1,3,6) lt, of pr ord] Suc.prems(4) lt by blast
    obtain blks where dd: "DecodeDataBlocks rec bufs = Inr blks" "d \<le> length blks"
      "take (length (chunk bs data b)) (concat (take d blks)) = chunk bs data b"
      using decode_data [OF assms(1) c assms(3) r(2) _ r(4)] r(3) by blast
    have "take bl (drop bo (chunk bs data b)) = take bl (drop (range_pos bs o' l b) (drop o' data))"
      using chunk_window [OF bb, of data b] pos' by (simp add: add.commute)
    then have out: "?out @ take bl (drop bo (chunk bs data b)) =
        take (range_pos bs o' l (Suc b)) (drop o' data)"
      by (simp only: nxt take_add)
    have wd: "writeDataBlocks wr blks (e_dataBlocks e) (int bo) (int bl) ?out =
        (Inr (int bl), take (range_pos bs o' l (Suc b)) (drop o' data))"
      using writeDataBlocks_chunk [OF assms(2) dd(2,3) wc, of ?out] out assms(4) by simp
    have ne: "bufs \<noteq> []" using r(2) assms(3) by auto
    define derr2 where "derr2 = (if bufs \<noteq> [] \<and> derr = None then
        (case err of None \<Rightarrow> None
         | Some x \<Rightarrow> if errors_is x errFileNotFound \<or> errors_is x errFileCorrupt then err else None)
        else derr)"
    have d2: "derr2 \<in> {None, Some errFileNotFound, Some errFileCorrupt}"
      using r(5) Suc.prems(1) by (auto simp: derr2_def split: if_splits)
    have "decode_loop ord rec wr e (int ?sb) (int ?eb) (int o') (int l)
        (map int [b..<Suc ?eb]) pr (int (range_pos bs o' l b)) derr ?out =
      decode_loop ord rec wr e (int ?sb) (int ?eb) (int o') (int l)
        (map int [Suc b..<Suc ?eb]) pr' (int (range_pos bs o' l (Suc b))) derr2
        (take (range_pos bs o' l (Suc b)) (drop o' data))"
      using False ne
      by (simp add: blocks w r(1) dd(1) wd derr2_def Let_def nxt del: upt_Suc)
    moreover have "n = Suc ?eb - Suc b" "?sb \<le> Suc b" "Suc b \<le> Suc ?eb"
      using Suc.hyps(2) Suc.prems(2) b by auto
    ultimately show ?thesis
      using Suc.hyps(1) [OF _ d2 _ _ r(6)] by (simp del: upt_Suc)
  qed
qed

subsection \<open>Preferred readers\<close>

text \<open>The readers after \<open>preferReaders\<close> are those of the buffers they are mapped to.\<close>

definition prefer_aligned :: "reader option list \<Rightarrow> bool list \<Rightarrow> bool" where
  "prefer_aligned readers prefer =
     (case prefer_loop 0 prefer (readers, [0..<length readers], 0) of (rs, r2b, nxt) \<Rightarrow>
        length rs = length readers \<and> length r2b = length readers \<and> distinct r2b \<and>
        (\<forall>i < length readers. r2b ! i < length readers \<and> rs ! i = readers ! (r2b ! i)))"

lemma permuted_filter:
  assumes "length f = n" and "distinct f" and "\<forall>i < n. f ! i < n"
  shows "length (filter (\<lambda>i. P (f ! i)) [0..<n]) = length (filter P [0..<n])"
proof -
  have "set f \<subseteq> {..<n}" using assms by (auto simp: in_set_conv_nth)
  moreover have "card (set f) = card {..<n}" using assms(1,2) by (simp add: distinct_card)
  ultimately have "set f = {..<n}" by (simp add: card_subset_eq)
  then have "mset f = mset [0..<n]"
    using assms(2) set_eq_iff_mset_eq_distinct [of f "[0..<n]"] by (simp add: atLeast0LessThan)
  then have "mset (filter P f) = mset (filter P [0..<n])" by simp
  then have "length (filter P f) = length (filter P [0..<n])" by (metis size_mset)
  then show ?thesis using length_filter_nth [of P f] assms(1) by simp
qed

lemma prefer_loop_none:
  "True \<notin> set oks \<Longrightarrow> prefer_loop i oks (readers, r2b, nxt) = (readers, r2b, nxt)"
  by (induction oks arbitrary: i) auto

lemma prefer_none_aligned: "True \<notin> set prefer \<Longrightarrow> prefer_aligned readers prefer"
  by (simp add: prefer_aligned_def prefer_loop_none)

text \<open>The reader state in which decoding starts.\<close>

lemma start_reads_block:
  assumes "erasure_wf e" and "e_dataBlocks e = int d" and "e_blockSize e = int bs"
    and "length readers = d + p"
    and "\<forall>i < d + p. \<forall>r. readers ! i = Some r \<longrightarrow> faithful_reader (shard_file enc bs data i) r"
    and "d \<le> length (filter (\<lambda>i. \<exists>r. readers ! i = Some r \<and> reliable_reader r) [0..<d + p])"
    and "length prefer = length readers \<longrightarrow> prefer_aligned readers prefer"
  shows "\<exists>p0. newParallelReader readers e (int o') (int (length data)) = Some p0 \<and>
    reads_block enc d p bs data (o' div bs)
      (if length prefer = length readers then preferReaders p0 prefer else p0)"
proof -
  have bs: "0 < bs" "0 < d" using assms(1-3) by (simp_all add: erasure_wf_def)
  define p0 where "p0 = \<lparr>pr_readers = readers, pr_orgReaders = readers, pr_dataBlocks = int d,
     pr_errs = replicate (length readers) None, pr_offset = int (o' div bs * ceil_div d bs),
     pr_shardSize = int (ceil_div d bs),
     pr_shardFileSize = int (length data div bs * ceil_div d bs + ceil_div d (length data mod bs)),
     pr_readerToBuf = [0..<length readers]\<rparr>"
  have new: "newParallelReader readers e (int o') (int (length data)) = Some p0"
    using bs assms(2,3) ShardFileSize_nat [OF assms(1), of "length data"] ShardSize_nat [OF assms(1)]
    by (simp add: newParallelReader_def p0_def sdiv_nat)
  let ?files = "map (shard_file enc bs data) [0..<d + p]"
  have "reads_block enc d p bs data (o' div bs) p0"
    using assms(4-6) unfolding reads_block_def p0_def aligned_def reliable_at_def by simp
  moreover have "reads_block enc d p bs data (o' div bs) (preferReaders p0 prefer)"
    if len: "length prefer = length readers"
  proof -
    obtain rs r2b nxt where pl: "prefer_loop 0 prefer (readers, [0..<length readers], 0) = (rs, r2b, nxt)"
      by (cases "prefer_loop 0 prefer (readers, [0..<length readers], 0)") auto
    have pa: "length rs = d + p" "length r2b = d + p" "distinct r2b"
      "\<forall>i < d + p. r2b ! i < d + p" "\<forall>i < d + p. rs ! i = readers ! (r2b ! i)"
      using assms(4,7) len pl by (auto simp: prefer_aligned_def)
    have pr: "preferReaders p0 prefer = p0\<lparr>pr_readers := rs, pr_readerToBuf := r2b\<rparr>"
      using len pl by (simp add: preferReaders_def p0_def)
    have "length (filter (\<lambda>i. \<exists>r. rs ! i = Some r \<and> reliable_reader r) [0..<d + p]) =
        length (filter (\<lambda>i. \<exists>r. readers ! (r2b ! i) = Some r \<and> reliable_reader r) [0..<d + p])"
      using pa(5) by (intro arg_cong [where f = length] filter_cong) auto
    also have "\<dots> = length (filter (\<lambda>i. \<exists>r. readers ! i = Some r \<and> reliable_reader r) [0..<d + p])"
      by (rule permuted_filter [OF pa(2,3,4)])
    finally show ?thesis
      using assms(5,6) pa unfolding pr unfolding reads_block_def aligned_def reliable_at_def
      by (simp add: p0_def)
  qed
  ultimately show ?thesis using new by auto
qed

lemma Decode_returns_range:
  assumes "NewErasure (int d) (int p) (int bs) = Inr e" and "0 < bs" and "rs_codec d p enc rec"
    and "length readers = d + p"
    and "\<forall>i < d + p. \<forall>r. readers ! i = Some r \<longrightarrow> faithful_reader (shard_file enc bs data i) r"
    and "d \<le> length (filter (\<lambda>i. \<exists>r. readers ! i = Some r \<and> reliable_reader r) [0..<d + p])"
    and "length prefer = length readers \<longrightarrow> prefer_aligned readers prefer"
    and "0 < len" and "off + len \<le> length data"
  shows "\<exists>derr \<in> {None, Some errFileNotFound, Some errFileCorrupt}.
    Decode ord rec (\<lambda>out c. None) e readers (int off) (int len) (int (length data)) prefer =
      Some (int len, derr, take len (drop off data))"
proof -
  have e: "e_dataBlocks e = int d" "e_blockSize e = int bs" "erasure_wf e" "0 < d"
    using assms(1,2) by (auto simp: NewErasure_def erasure_wf_def split: if_splits)
  obtain p0 where p0: "newParallelReader readers e (int off) (int (length data)) = Some p0"
    "reads_block enc d p bs data (off div bs)
      (if length prefer = length readers then preferReaders p0 prefer else p0)"
    using start_reads_block [OF e(3,1,2) assms(4-7), of off] by blast
  let ?p = "if length prefer = length readers then preferReaders p0 prefer else p0"
  have "off div bs * bs \<le> off" by simp
  then have pos: "range_pos bs off len (off div bs) = 0" by (simp add: range_pos_def)
  have le: "off div bs \<le> Suc ((off + len) div bs)" by (simp add: div_le_mono le_SucI)
  from decode_loop_range [OF assms(3) refl e(4,1,2) assms(2,8,9), of None "off div bs" ?p ord]
  obtain derr where d: "derr \<in> {None, Some errFileNotFound, Some errFileCorrupt}"
    "decode_loop ord rec (\<lambda>out c. None) e (int (off div bs)) (int ((off + len) div bs)) (int off) (int len)
      (map int [off div bs..<Suc ((off + len) div bs)]) ?p 0 None [] = (int len, derr, take len (drop off data))"
    using p0(2) le by (auto simp: pos simp del: upt_Suc)
  have "Decode ord rec (\<lambda>out c. None) e readers (int off) (int len) (int (length data)) prefer =
      Some (decode_loop ord rec (\<lambda>out c. None) e (int off sdiv int bs) ((int off + int len) sdiv int bs)
        (int off) (int len) [int off sdiv int bs..(int off + int len) sdiv int bs] ?p 0 None [])"
    using assms(8,9) p0(1) by (simp add: Decode_def e(2) Let_def)
  also have "\<dots> = Some (int len, derr, take len (drop off data))"
    using d(2) sdiv_nat [of off bs] sdiv_nat [of "off + len" bs]
    by (simp add: upto_map_int del: upt_Suc)
  finally show ?thesis using d(1) by blast
qed


text \<open>A code with one data and one parity shard, which is a copy.\<close>

definition mirror_encode :: "bytes \<Rightarrow> goerr + bytes list" where
  "mirror_encode data = Inr [data, data]"

definition mirror_reconstruct :: "bytes list \<Rightarrow> goerr + bytes list" where
  "mirror_reconstruct bufs =
     (case filter (\<lambda>b. b \<noteq> []) bufs of [] \<Rightarrow> Inl ErrInvShardNum | b # _ \<Rightarrow> Inr [b, b])"

lemma mirror_codec: "rs_codec 1 1 mirror_encode mirror_reconstruct"
  unfolding rs_codec_def
proof (intro allI impI)
  fix data :: bytes
  assume ne: "data \<noteq> []"
  have "\<exists>out. mirror_reconstruct bufs = Inr out \<and> 1 \<le> length out \<and> take 1 out = take 1 [data, data]"
    if bl: "length bufs = 1 + 1" and bo: "\<forall>i < 1 + 1. bufs ! i = [] \<or> bufs ! i = [data, data] ! i"
      and bf: "1 \<le> length (filter (\<lambda>b. b \<noteq> []) bufs)" for bufs
  proof -
    obtain a b where ab: "bufs = [a, b]"
      using bl by (auto simp: numeral_2_eq_2 length_Suc_conv)
    then have "a = [] \<or> a = data" "b = [] \<or> b = data" using bo by (auto simp: All_less_Suc)
    then show ?thesis using bf ab by (auto simp: mirror_reconstruct_def split: if_splits)
  qed
  then show "\<exists>shards. mirror_encode data = Inr shards \<and> length shards = 1 + 1 \<and>
      (\<forall>s \<in> set shards. length s = ceil_div 1 (length data)) \<and>
      take (length data) (concat (take 1 shards)) = data \<and>
      (\<forall>bufs. length bufs = 1 + 1 \<and> (\<forall>i < 1 + 1. bufs ! i = [] \<or> bufs ! i = shards ! i) \<and>
         1 \<le> length (filter (\<lambda>b. b \<noteq> []) bufs) \<longrightarrow>
         (\<exists>out. mirror_reconstruct bufs = Inr out \<and> 1 \<le> length out \<and> take 1 out = take 1 shards))"
    by (intro exI [of _ "[data, data]"]) (auto simp: mirror_encode_def ceil_div_def)
qed

definition file_reader :: "bytes \<Rightarrow> reader" where
  "file_reader file n off = Inr (take (nat n) (drop (nat off) file))"

lemma file_reader_good: "faithful_reader file (file_reader file)" "reliable_reader (file_reader file)"
  by (simp_all add: faithful_reader_def reliable_reader_def file_reader_def)


definition one_byte_state :: "reader option list \<Rightarrow> parallelReader" where
  "one_byte_state rs = \<lparr>pr_readers = rs, pr_orgReaders = rs, pr_dataBlocks = 2,
     pr_errs = replicate (length rs) None, pr_offset = 0, pr_shardSize = 1, pr_shardFileSize = 1,
     pr_readerToBuf = [0..<length rs]\<rparr>"


end
