(* ===== verification/Erasure_Write.thy ===== *)
theory Erasure_Write
  imports Erasure_Coding
begin

text \<open>
  The write path of erasure coding (\<open>Encode\<close> and \<open>parallelWriter\<close> of \<^verbatim>\<open>cmd/erasure-encode.go\<close>,
  defined in \<open>Erasure_Coding\<close>): what ends up on the drives, when the write is acknowledged, the size
  of the shard files, and that what was written can be read back.
\<close>

subsection \<open>Shard files grow chunk by chunk\<close>

lemma shard_file_Nil [simp]: "0 < bs \<Longrightarrow> shard_file enc bs [] i = []"
  by (simp add: shard_file_def)

lemma shard_file_Cons:
  assumes "0 < bs" and "data \<noteq> []"
  shows "shard_file enc bs data i = shards_of enc (take bs data) ! i @ shard_file enc bs (drop bs data) i"
proof -
  let ?g = "\<lambda>b. shards_of enc (chunk bs data b) ! i"
  have n: "ceil_div bs (length data) = Suc (ceil_div bs (length (drop bs data)))"
    using ceil_div_Suc [OF assms(1), of "length data"] assms(2) by simp
  have "concat (map ?g [0..<Suc (ceil_div bs (length (drop bs data)))]) =
      ?g 0 @ concat (map (?g \<circ> Suc) [0..<ceil_div bs (length (drop bs data))])"
    by (simp add: upt_conv_Cons map_Suc_upt [symmetric] del: upt_Suc)
  then show ?thesis unfolding shard_file_def n by (simp add: chunk_Suc comp_def) (simp add: chunk_def)
qed

lemma shard_file_length:
  assumes "rs_codec d p enc rec" and "0 < d" and "0 < bs" and "i < d + p"
  shows "length (shard_file enc bs data i) =
    length data div bs * ceil_div d bs + ceil_div d (length data mod bs)"
proof (induction "length data" arbitrary: data rule: less_induct)
  case less
  show ?case
  proof (cases "data = []")
    case True
    then show ?thesis using assms(2,3) by simp
  next
    case False
    have h: "length (shards_of enc (take bs data) ! i) = ceil_div d (length (take bs data))"
      using rs_codec_shards(3) [OF assms(1) _ assms(4), of "take bs data"] False assms(3) by simp
    have IH: "length (shard_file enc bs (drop bs data) i) =
        (length data - bs) div bs * ceil_div d bs + ceil_div d ((length data - bs) mod bs)"
      using less [of "drop bs data"] False assms(3) by simp
    show ?thesis
    proof (cases "bs \<le> length data")
      case True
      then have "length data div bs = Suc ((length data - bs) div bs)"
        "length data mod bs = (length data - bs) mod bs"
        using le_div_geq [OF assms(3) True] le_mod_geq [OF True] by simp_all
      then show ?thesis using h IH True by (simp add: shard_file_Cons [OF assms(3) False])
    next
      case lt: False
      then show ?thesis using h IH assms(2) by (simp add: shard_file_Cons [OF assms(3) False])
    qed
  qed
qed

text \<open>
  The size that \<open>ShardFileSize\<close> predicts from the size of a part is the length of every shard
  file that encoding the part block by block produces, and \<open>ShardFileOffset\<close> never points past it.
\<close>

theorem ShardFileSize_correct:
  assumes "NewErasure (int d) (int p) (int bs) = Inr e" and "0 < bs" and "rs_codec d p enc rec"
    and "i < d + p" and "off + len \<le> length data"
  shows "ShardFileSize e (int (length data)) = Some (int (length (shard_file enc bs data i))) \<and>
    (\<exists>till. ShardFileOffset e (int off) (int len) (int (length data)) = Some till \<and>
       till \<le> int (length (shard_file enc bs data i)) \<and>
       (\<forall>b. b * bs < off + len \<longrightarrow>
          int (b * ceil_div d bs + ceil_div d (length (chunk bs data b))) \<le> till))"
proof -
  have e: "e_dataBlocks e = int d" "e_blockSize e = int bs" "erasure_wf e" "0 < d"
    using assms(1,2) by (auto simp: NewErasure_def erasure_wf_def split: if_splits)
  let ?S = "ceil_div d bs" and ?F = "length (shard_file enc bs data i)"
  have F: "?F = length data div bs * ?S + ceil_div d (length data mod bs)"
    by (rule shard_file_length [OF assms(3) e(4) assms(2,4)])
  have size: "ShardFileSize e (int (length data)) = Some (int ?F)"
    using ShardFileSize_nat [OF e(3), of "length data"] e(1,2) by (simp add: F)
  have off: "ShardFileOffset e (int off) (int len) (int (length data)) =
      Some (min (int ((off + len) div bs * ?S + ?S)) (int ?F))"
    using assms(2) ShardSize_nat [OF e(3)] size e(1,2) sdiv_nat [of "off + len" bs]
    by (simp add: ShardFileOffset_def Let_def min_def)
  have "int (b * ?S + ceil_div d (length (chunk bs data b))) \<le>
      min (int ((off + len) div bs * ?S + ?S)) (int ?F)" if b: "b * bs < off + len" for b
  proof -
    have lt: "b * bs < length data" using b assms(5) by simp
    have "b \<le> (off + len) div bs" using b assms(2) by (simp add: less_eq_div_iff_mult_less_eq)
    then have "b * ?S \<le> (off + len) div bs * ?S" by (rule mult_le_mono1)
    moreover have "ceil_div d (length (chunk bs data b)) \<le> ?S"
      by (rule ceil_div_mono) (simp add: chunk_length)
    moreover have "b * ?S + ceil_div d (length (chunk bs data b)) \<le> ?F"
    proof -
      have s: "length (take (ceil_div d (length (chunk bs data b))) (drop (b * ?S) (shard_file enc bs data i)))
          = ceil_div d (length (chunk bs data b))"
        using shard_file_slice [OF assms(3) e(4) assms(2) lt assms(4)]
          rs_codec_shards(3) [OF assms(3) chunk_nonempty [OF assms(2) lt] assms(4)] by simp
      have "0 < ceil_div d (length (chunk bs data b))"
        using chunk_nonempty [OF assms(2) lt] e(4) by (simp add: ceil_div_pos)
      with s show ?thesis by simp
    qed
    ultimately show ?thesis by (simp only: min.bounded_iff of_nat_le_iff simp_thms)
  qed
  with size off show ?thesis by auto
qed

theorem ShardFileSize_correct_witness:
  "ShardFileSize \<lparr>e_dataBlocks = 1, e_parityBlocks = 1, e_blockSize = 2\<rparr> 5 =
     Some (int (length (shard_file mirror_encode 2 [1, 2, 3, 4, 5] 0)))"
proof -
  have e: "NewErasure (int 1) (int 1) (int 2) = Inr \<lparr>e_dataBlocks = 1, e_parityBlocks = 1, e_blockSize = 2\<rparr>"
    by (simp add: NewErasure_def)
  from ShardFileSize_correct [OF e _ mirror_codec, of 0 1 3 "[1, 2, 3, 4, 5]"] show ?thesis by simp
qed

subsection \<open>What the writers have accepted\<close>

abbreviation writer_err :: "shard_writer \<Rightarrow> goerr option" where
  "writer_err w \<equiv> fst (snd w)"

abbreviation writer_out :: "shard_writer \<Rightarrow> bytes" where
  "writer_out w \<equiv> snd (snd w)"

definition sound_writer :: "shard_writer \<Rightarrow> bool" where
  "sound_writer w \<longleftrightarrow> (\<exists>s. fst w = Some s \<and> (\<forall>out c. s out c = None)) \<and> writer_err w = None"

lemma write_shard_ok:
  "writer_err (write_shard w block) = None \<Longrightarrow>
     writer_err w = None \<and> writer_out (write_shard w block) = writer_out w @ block"
  by (cases "(w, block)" rule: write_shard.cases) (auto split: option.splits)

lemma write_shard_sound: "sound_writer w \<Longrightarrow> sound_writer (write_shard w block)"
  by (cases "(w, block)" rule: write_shard.cases) (auto simp: sound_writer_def)

text \<open>One turn of the loop of \<open>Encode\<close> on a chunk that is not empty.\<close>

lemma encode_step:
  assumes "rs_codec d p enc rec" and "c \<noteq> []" and "length ws = d + p" and "map_order ord"
    and "0 < quorum" and "d + p \<le> 2 * quorum"
  shows "\<exists>ws1 err. EncodeData enc e c = Inr (shards_of enc c) \<and>
    parallelWriter_Write ord quorum ws (shards_of enc c) = Some (ws1, err) \<and>
    length ws1 = d + p \<and> ws1 = map2 write_shard ws (shards_of enc c) \<and>
    (err = None \<longleftrightarrow> quorum \<le> count_list (map writer_err ws1) None)"
proof -
  define ws1 where "ws1 = map2 write_shard ws (shards_of enc c)"
  have l: "length ws1 = d + p" using assms(3) rs_codec_shards(2) [OF assms(1,2)] by (simp add: ws1_def)
  have "reduceQuorumErrs ord (map writer_err ws1) objectOpIgnoredErrs quorum (Some errErasureWriteQuorum) = None
      \<longleftrightarrow> quorum \<le> count_list (map writer_err ws1) None"
    by (rule reduceQuorumErrs_nil [OF assms(4,5)]) (use l assms(6) in simp)
  then show ?thesis
    using assms(2,3) rs_codec_shards(1,2) [OF assms(1,2)] l
    by (simp add: EncodeData_def parallelWriter_Write_def Let_def ws1_def reduceWriteQuorumErrs_def)
qed

lemma sound_count:
  "length (filter sound_writer ws) \<le> count_list (map writer_err ws) None"
  by (induction ws) (auto simp: sound_writer_def)

lemma sound_step:
  "length bs = length ws \<Longrightarrow>
     length (filter sound_writer ws) \<le> length (filter sound_writer (map2 write_shard ws bs))"
  by (induction ws bs rule: list_induct2') (auto simp: write_shard_sound)

lemma encode_loop_spec:
  assumes "rs_codec d p enc rec" and "0 < bs" and "map_order ord" and "0 < quorum"
    and "d + p \<le> 2 * quorum" and "length ws = d + p"
  shows "\<exists>ws' res. encode_loop ord enc e quorum bs rerr src ws tot = Some (ws', res) \<and>
    length ws' = d + p \<and> (src = [] \<longrightarrow> ws' = ws) \<and>
    (\<forall>i < d + p. writer_err (ws' ! i) = None \<longrightarrow> writer_err (ws ! i) = None) \<and>
    (\<forall>n. res = Inr n \<longrightarrow> rerr = None \<and> n = tot + int (length src) \<and>
       (\<forall>i < d + p. writer_err (ws' ! i) = None \<longrightarrow>
          writer_out (ws' ! i) = writer_out (ws ! i) @ shard_file enc bs src i) \<and>
       (src \<noteq> [] \<longrightarrow> quorum \<le> count_list (map writer_err ws') None)) \<and>
    (rerr = None \<and> quorum \<le> length (filter sound_writer ws) \<longrightarrow> (\<exists>n. res = Inr n))"
  using assms(6)
proof (induction "length src" arbitrary: src ws tot rule: less_induct)
  case less
  show ?case
  proof (cases "src = []")
    case True
    then show ?thesis
      using assms(2) less.prems by (cases rerr) (simp_all add: encode_loop.simps)
  next
    case ne: False
    let ?c = "take bs src"
    have c: "?c \<noteq> []" using ne assms(2) by simp
    obtain ws1 err where st: "EncodeData enc e ?c = Inr (shards_of enc ?c)"
      "parallelWriter_Write ord quorum ws (shards_of enc ?c) = Some (ws1, err)"
      "length ws1 = d + p" "ws1 = map2 write_shard ws (shards_of enc ?c)"
      "err = None \<longleftrightarrow> quorum \<le> count_list (map writer_err ws1) None"
      using encode_step [OF assms(1) c less.prems assms(3-5)] by blast
    have ls: "length (shards_of enc ?c) = length ws"
      using rs_codec_shards(2) [OF assms(1) c] less.prems by simp
    have mono1: "writer_err (ws1 ! i) = None \<Longrightarrow> writer_err (ws ! i) = None" if "i < d + p" for i
      using that st(4) ls less.prems write_shard_ok [of "ws ! i" "shards_of enc ?c ! i"] by simp
    have out1: "writer_err (ws1 ! i) = None \<Longrightarrow>
        writer_out (ws1 ! i) = writer_out (ws ! i) @ shards_of enc ?c ! i" if "i < d + p" for i
      using that st(4) ls less.prems write_shard_ok [of "ws ! i" "shards_of enc ?c ! i"] by simp
    have sound1: "length (filter sound_writer ws) \<le> length (filter sound_writer ws1)"
      using sound_step [OF ls] st(4) by simp
    have sf: "shard_file enc bs src i = shards_of enc ?c ! i @ shard_file enc bs (drop bs src) i" for i
      by (rule shard_file_Cons [OF assms(2) ne])
    show ?thesis
    proof (cases err)
      case (Some x)
      then have "\<not> quorum \<le> length (filter sound_writer ws)"
        using st(5) sound1 sound_count [of ws1] by simp
      then show ?thesis
        using Some st(1-3) c assms(2) ne mono1 by (subst encode_loop.simps) (simp add: Let_def)
    next
      case None
      show ?thesis
      proof (cases "length src < bs")
        case True
        then have d: "drop bs src = []" "take bs src = src" by simp_all
        show ?thesis
          using True None st(1-3) c assms(2) out1 sf st(5) d ne mono1
          by (subst encode_loop.simps) (cases rerr; simp add: Let_def)
      next
        case ge: False
        have eq: "encode_loop ord enc e quorum bs rerr src ws tot =
            encode_loop ord enc e quorum bs rerr (drop bs src) ws1 (tot + int bs)"
          using ge None st(1-3) c assms(2) by (subst encode_loop.simps) (simp add: Let_def)
        have "length (drop bs src) < length src" using ne assms(2) by simp
        from less.hyps [OF this st(3), of "tot + int bs"]
        obtain ws' res where IH: "encode_loop ord enc e quorum bs rerr (drop bs src) ws1 (tot + int bs) = Some (ws', res)"
          "length ws' = d + p" and nil: "drop bs src = [] \<longrightarrow> ws' = ws1"
          and mono: "\<forall>i < d + p. writer_err (ws' ! i) = None \<longrightarrow> writer_err (ws1 ! i) = None"
          and ok: "\<forall>n. res = Inr n \<longrightarrow> rerr = None \<and> n = tot + int bs + int (length (drop bs src)) \<and>
             (\<forall>i < d + p. writer_err (ws' ! i) = None \<longrightarrow>
                writer_out (ws' ! i) = writer_out (ws1 ! i) @ shard_file enc bs (drop bs src) i) \<and>
             (drop bs src \<noteq> [] \<longrightarrow> quorum \<le> count_list (map writer_err ws') None)"
          and good: "rerr = None \<and> quorum \<le> length (filter sound_writer ws1) \<longrightarrow> (\<exists>n. res = Inr n)"
          by (elim exE conjE) (rule that, assumption+)
        have main: "rerr = None \<and> n = tot + int (length src) \<and>
           (\<forall>i < d + p. writer_err (ws' ! i) = None \<longrightarrow>
              writer_out (ws' ! i) = writer_out (ws ! i) @ shard_file enc bs src i) \<and>
           quorum \<le> count_list (map writer_err ws') None" if r: "res = Inr n" for n
        proof -
          note h = ok [rule_format, OF r]
          have "quorum \<le> count_list (map writer_err ws') None"
            using h nil st(5) None by (cases "drop bs src = []") simp_all
          moreover have "writer_out (ws' ! i) = writer_out (ws ! i) @ shard_file enc bs src i"
            if "i < d + p" "writer_err (ws' ! i) = None" for i
            using that h mono out1 [OF that(1)] sf [of i] by simp
          ultimately show ?thesis using h ge by simp
        qed
        have "rerr = None \<and> quorum \<le> length (filter sound_writer ws) \<longrightarrow> (\<exists>n. res = Inr n)"
          using good le_trans [OF _ sound1] by blast
        moreover have "\<forall>i < d + p. writer_err (ws' ! i) = None \<longrightarrow> writer_err (ws ! i) = None"
          using mono mono1 by blast
        moreover have "encode_loop ord enc e quorum bs rerr src ws tot = Some (ws', res)"
          using eq IH(1) by simp
        ultimately show ?thesis using IH(2) ne main by blast
      qed
    qed
  qed
qed

lemma Encode_contents:
  assumes "rs_codec d p enc rec" and "0 < bs" and "map_order ord" and "0 < quorum"
    and "d + p \<le> 2 * quorum" and "length writers = d + p"
  shows "\<exists>ws res. Encode ord enc e src rerr writers bs quorum = Some (ws, res) \<and> length ws = d + p \<and>
    (\<forall>n. res = Inr n \<longrightarrow> n = int (length src) \<and>
       (\<forall>i < d + p. writer_err (ws ! i) = None \<longrightarrow> writer_out (ws ! i) = shard_file enc bs src i) \<and>
       (src \<noteq> [] \<longrightarrow> quorum \<le> count_list (map writer_err ws) None)) \<and>
    (rerr = None \<and> quorum \<le> length (filter (\<lambda>w. \<exists>s. w = Some s \<and> (\<forall>out c. s out c = None)) writers)
       \<longrightarrow> (\<exists>n. res = Inr n))"
proof -
  let ?ws = "map (\<lambda>w. (w, None, [])) writers :: shard_writer list"
  have f: "length (filter sound_writer ?ws) =
      length (filter (\<lambda>w. \<exists>s. w = Some s \<and> (\<forall>out c. s out c = None)) writers)"
    by (induction writers) (auto simp: sound_writer_def)
  have out: "writer_out (?ws ! i) = []" if "i < d + p" for i using that assms(6) by simp
  from encode_loop_spec [OF assms(1-5), of ?ws e rerr src 0] assms(6) obtain ws res where
    r: "Encode ord enc e src rerr writers bs quorum = Some (ws, res)" "length ws = d + p"
    and ok: "\<forall>n. res = Inr n \<longrightarrow> rerr = None \<and> n = 0 + int (length src) \<and>
       (\<forall>i < d + p. writer_err (ws ! i) = None \<longrightarrow>
          writer_out (ws ! i) = writer_out (?ws ! i) @ shard_file enc bs src i) \<and>
       (src \<noteq> [] \<longrightarrow> quorum \<le> count_list (map writer_err ws) None)"
    and good: "rerr = None \<and> quorum \<le> length (filter sound_writer ?ws) \<longrightarrow> (\<exists>n. res = Inr n)"
    unfolding Encode_def by auto
  then show ?thesis using out f by (intro exI [of _ ws] exI [of _ res]) auto
qed

text \<open>
  Encoding a part always ends. If it reports success then the whole source was read, every
  drive that reported no error holds exactly its shard file, and when there was anything to write
  at least a quorum of the drives did. If a quorum of the writers never fails and the source ends
  normally, it does report success.
\<close>

theorem Encode_shards:
  assumes "rs_codec d p enc rec" and "0 < bs" and "map_order ord" and "0 < quorum"
    and "d + p \<le> 2 * quorum" and "length writers = d + p"
  shows "\<exists>ws res. Encode ord enc e src rerr writers bs quorum = Some (ws, res) \<and> length ws = d + p \<and>
    (\<forall>n. res = Inr n \<longrightarrow> n = int (length src) \<and>
       (\<forall>i < d + p. writer_err (ws ! i) = None \<longrightarrow> writer_out (ws ! i) = shard_file enc bs src i) \<and>
       (src \<noteq> [] \<longrightarrow> quorum \<le> count_list (map writer_err ws) None)) \<and>
    (rerr = None \<and> quorum \<le> length (filter (\<lambda>w. \<exists>s. w = Some s \<and> (\<forall>out c. s out c = None)) writers)
       \<longrightarrow> (\<exists>n. res = Inr n))"
  using assms by (rule Encode_contents)

theorem Encode_shards_witness:
  "\<exists>ws n. Encode rev mirror_encode \<lparr>e_dataBlocks = 1, e_parityBlocks = 1, e_blockSize = 2\<rparr>
     [1, 2, 3] None [Some (\<lambda>out c. None), Some (\<lambda>out c. None)] 2 2 = Some (ws, Inr n) \<and> n = 3"
  using Encode_shards [OF mirror_codec, of 2 rev 2 "[Some (\<lambda>out c. None), Some (\<lambda>out c. None)]"
      "\<lparr>e_dataBlocks = 1, e_parityBlocks = 1, e_blockSize = 2\<rparr>" "[1, 2, 3]" None]
  by auto

text \<open>The drives that accepted a part, as the readers of a later read.\<close>

definition readers_of :: "shard_writer list \<Rightarrow> reader option list" where
  "readers_of ws = map (\<lambda>w. if writer_err w = None then Some (file_reader (writer_out w)) else None) ws"

lemma readers_of_reliable:
  "length (filter (\<lambda>i. \<exists>r. readers_of ws ! i = Some r \<and> reliable_reader r) [0..<length ws]) =
     count_list (map writer_err ws) None"
proof -
  have "length (filter (\<lambda>i. \<exists>r. readers_of ws ! i = Some r \<and> reliable_reader r) [0..<length ws]) =
      length (filter (\<lambda>i. writer_err (ws ! i) = None) [0..<length ws])"
    by (intro arg_cong [where f = length] filter_cong)
      (auto simp: readers_of_def file_reader_good split: if_splits)
  also have "\<dots> = length (filter (\<lambda>w. writer_err w = None) ws)"
    by (rule length_filter_nth [symmetric])
  also have "\<dots> = count_list (map writer_err ws) None" by (induction ws) auto
  finally show ?thesis .
qed




end
