(* ===== verification/Block_Replication.thy ===== *)
theory Block_Replication
  imports Object_Quorum Chunks
begin

text \<open>
  Content-addressed block replication: chunking, block ranges and healing of
  \<^verbatim>\<open>cmd/erasure-utils.go\<close>, replicated reads and writes of \<^verbatim>\<open>cmd/erasure-decode.go\<close> and
  \<^verbatim>\<open>cmd/erasure-encode.go\<close>, the block store of a drive in \<^verbatim>\<open>cmd/xl-storage.go\<close>, and the put and get
  paths of \<^verbatim>\<open>cmd/erasure-object.go\<close> that use them.

  A drive is its stored blocks and the error its file system returns, if it is faulty. The errors
  of object operations are those before \<open>toObjectErr\<close> adds the bucket and the object.
\<close>

definition errFileParentIsFile :: goerr where
  "errFileParentIsFile = StorageErr ''parent is a file''"

text \<open>Errors that \<open>fmt.Errorf\<close> formats: a hash mismatch, a missing source and a failed heal.\<close>

definition errHashMismatch :: goerr where
  "errHashMismatch = ErrorsNew ''block hash mismatch''"

definition errNoSource :: goerr where
  "errNoSource = ErrorsNew ''no available source disks''"

definition errHealFailed :: goerr where
  "errHealFailed = ErrorsNew ''all target writes failed''"

definition errInvalidRange :: goerr where
  "errInvalidRange = ErrorsNew ''InvalidRange''"

subsection \<open>Blocks\<close>

record BlockReplicator =
  br_blockSize :: int
  br_replicaCount :: int

definition NewBlockReplicator :: "int \<Rightarrow> int \<Rightarrow> BlockReplicator" where
  "NewBlockReplicator blockSize replicaCount =
     \<lparr>br_blockSize = blockSize, br_replicaCount = replicaCount\<rparr>"

definition hashBlockData :: "bytes \<Rightarrow> string" where
  "hashBlockData data = hex_EncodeToString (sha256_Sum256 data)"

definition verifyBlockHash :: "bytes \<Rightarrow> string \<Rightarrow> goerr option" where
  "verifyBlockHash data expectedHash =
     (if hashBlockData data \<noteq> expectedHash then Some errHashMismatch else None)"

definition isValidBlockHash :: "string \<Rightarrow> bool" where
  "isValidBlockHash hash =
     (if length hash \<noteq> 64 then False
      else list_all (\<lambda>c. \<not> ((byte_of c < 48 \<or> byte_of c > 57) \<and> (byte_of c < 97 \<or> byte_of c > 102))) hash)"

text \<open>
  \<open>ChunkAndHash\<close> on a source with bytes \<open>src\<close> that ends with \<open>EOF\<close> or the error \<open>rerr\<close>. An empty
  buffer reads nothing, which ends the loop at once.
\<close>

function chunk_and_hash ::
  "nat \<Rightarrow> goerr option \<Rightarrow> bytes \<Rightarrow> nat \<Rightarrow> BlockRef list \<Rightarrow> bytes list \<Rightarrow> goerr + BlockRef list \<times> bytes list"
where
  "chunk_and_hash bs rerr src idx refs blocks =
     (let data = take bs src
      in if length src < bs \<and> rerr \<noteq> None then Inl (the rerr)
         else if data = [] then Inr (refs, blocks)
         else
           let refs' = refs @ [\<lparr>bl_Hash = hashBlockData data, bl_Size = int (length data), bl_Index = int idx\<rparr>];
               blocks' = blocks @ [data]
           in if length src < bs then Inr (refs', blocks')
              else chunk_and_hash bs rerr (drop bs src) (idx + 1) refs' blocks')"
  by auto
termination
  by (relation "measure (\<lambda>(bs, rerr, src, idx, refs, blocks). length src)") auto

declare chunk_and_hash.simps [simp del]

definition ChunkAndHash ::
  "BlockReplicator \<Rightarrow> bytes \<Rightarrow> goerr option \<Rightarrow> (goerr + BlockRef list \<times> bytes list) option" where
  "ChunkAndHash br src rerr =
     (if br_blockSize br < 0 then None
      else Some (chunk_and_hash (nat (br_blockSize br)) rerr src 0 [] []))"

definition BlockCount :: "BlockReplicator \<Rightarrow> int \<Rightarrow> int option" where
  "BlockCount br totalSize =
     (if totalSize \<le> 0 then Some 0
      else if br_blockSize br = 0 then None
      else
        let n = totalSize sdiv br_blockSize br
        in Some (if totalSize smod br_blockSize br \<noteq> 0 then n + 1 else n))"

definition BlockRange :: "BlockReplicator \<Rightarrow> int \<Rightarrow> int \<Rightarrow> int \<Rightarrow> (int \<times> int) option" where
  "BlockRange br offset len totalSize =
     (if len \<le> 0 \<or> totalSize \<le> 0 then Some (0, 0)
      else if br_blockSize br = 0 then None
      else
        let startBlock = offset sdiv br_blockSize br;
            e = offset + len - 1;
            e' = (if e \<ge> totalSize then totalSize - 1 else e)
        in Some (startBlock, e' sdiv br_blockSize br))"

subsection \<open>The block store of a drive\<close>

record BlockDrive =
  bd_blocks :: "string \<rightharpoonup> bytes"
  bd_fault :: "goerr option"

definition xl_WriteBlock :: "BlockDrive \<Rightarrow> string \<Rightarrow> bytes \<Rightarrow> BlockDrive \<times> goerr option" where
  "xl_WriteBlock s hash data =
     (if \<not> isValidBlockHash hash then (s, Some errInvalidArgument)
      else case verifyBlockHash data hash of
             Some err \<Rightarrow> (s, Some err)
           | None \<Rightarrow>
               (case bd_fault s of
                  Some err \<Rightarrow> (s, Some err)
                | None \<Rightarrow>
                    if bd_blocks s hash \<noteq> None then (s, None)
                    else (s\<lparr>bd_blocks := (bd_blocks s)(hash \<mapsto> data)\<rparr>, None)))"

definition xl_ReadBlock :: "BlockDrive \<Rightarrow> string \<Rightarrow> goerr + bytes" where
  "xl_ReadBlock s hash =
     (if \<not> isValidBlockHash hash then Inl errInvalidArgument
      else case bd_fault s of
             Some err \<Rightarrow> Inl err
           | None \<Rightarrow> (case bd_blocks s hash of None \<Rightarrow> Inl errFileNotFound | Some data \<Rightarrow> Inr data))"

definition xl_HasBlock :: "BlockDrive \<Rightarrow> string \<Rightarrow> goerr + bool" where
  "xl_HasBlock s hash =
     (if \<not> isValidBlockHash hash then Inl errInvalidArgument
      else case bd_fault s of
             Some err \<Rightarrow> Inl err
           | None \<Rightarrow> Inr (bd_blocks s hash \<noteq> None))"

definition xl_DeleteBlock :: "BlockDrive \<Rightarrow> string \<Rightarrow> BlockDrive \<times> goerr option" where
  "xl_DeleteBlock s hash =
     (if \<not> isValidBlockHash hash then (s, Some errInvalidArgument)
      else case bd_fault s of
             Some err \<Rightarrow> (s, Some err)
           | None \<Rightarrow> (s\<lparr>bd_blocks := (bd_blocks s)(hash := None)\<rparr>, None))"

subsection \<open>Replicated reads and writes\<close>

fun read_sources :: "string \<Rightarrow> BlockDrive option list \<Rightarrow> goerr option \<Rightarrow> goerr + bytes" where
  "read_sources blockHash [] lastErr =
     (case lastErr of Some err \<Rightarrow> Inl err | None \<Rightarrow> Inl errNoSource)"
| "read_sources blockHash (None # sources) lastErr = read_sources blockHash sources lastErr"
| "read_sources blockHash (Some disk # sources) lastErr =
     (case xl_ReadBlock disk blockHash of
        Inl err \<Rightarrow> read_sources blockHash sources (Some err)
      | Inr data \<Rightarrow>
          (case verifyBlockHash data blockHash of
             Some err \<Rightarrow> read_sources blockHash sources (Some err)
           | None \<Rightarrow> Inr data))"

definition ReadBlock :: "string \<Rightarrow> BlockDrive option list \<Rightarrow> goerr + bytes" where
  "ReadBlock blockHash sources = read_sources blockHash sources None"

definition write_target :: "string \<Rightarrow> bytes \<Rightarrow> BlockDrive option \<Rightarrow> BlockDrive option \<times> goerr option" where
  "write_target blockHash data disk =
     (case disk of
        None \<Rightarrow> (None, Some errDiskNotFound)
      | Some d \<Rightarrow> (case xl_WriteBlock d blockHash data of (d', err) \<Rightarrow> (Some d', err)))"

definition WriteBlock ::
  "(goerr option list \<Rightarrow> goerr option list) \<Rightarrow> string \<Rightarrow> bytes \<Rightarrow> BlockDrive option list \<Rightarrow> int \<Rightarrow>
     BlockDrive option list \<times> goerr option" where
  "WriteBlock ord blockHash data targets writeQuorum =
     (let results = map (write_target blockHash data) targets;
          errs = map snd results;
          successes = int (count_list errs None)
      in (map fst results,
          if successes \<ge> writeQuorum then None
          else reduceWriteQuorumErrs ord errs objectOpIgnoredErrs (nat writeQuorum)))"

definition has_block :: "string \<Rightarrow> BlockDrive option \<Rightarrow> bool" where
  "has_block blockHash disk =
     (case disk of None \<Rightarrow> False | Some d \<Rightarrow> xl_HasBlock d blockHash = Inr True)"

definition HasBlock :: "string \<Rightarrow> BlockDrive option list \<Rightarrow> bool" where
  "HasBlock blockHash sources = list_ex (has_block blockHash) sources"

definition CountBlockCopies :: "string \<Rightarrow> BlockDrive option list \<Rightarrow> nat" where
  "CountBlockCopies blockHash sources = length (filter (has_block blockHash) sources)"

fun heal_targets :: "string \<Rightarrow> bytes \<Rightarrow> BlockDrive option list \<Rightarrow> BlockDrive option list \<times> nat" where
  "heal_targets blockHash data [] = ([], 0)"
| "heal_targets blockHash data (None # targets) =
     (case heal_targets blockHash data targets of (ts, n) \<Rightarrow> (None # ts, n))"
| "heal_targets blockHash data (Some disk # targets) =
     (case heal_targets blockHash data targets of (ts, n) \<Rightarrow>
        (case xl_WriteBlock disk blockHash data of
           (d, Some err) \<Rightarrow> (Some d # ts, n)
         | (d, None) \<Rightarrow> (Some d # ts, Suc n)))"

definition HealBlock ::
  "string \<Rightarrow> BlockDrive option list \<Rightarrow> BlockDrive option list \<Rightarrow> BlockDrive option list \<times> (goerr + nat)" where
  "HealBlock blockHash sources targets =
     (case ReadBlock blockHash sources of
        Inl err \<Rightarrow> (targets, Inl err)
      | Inr data \<Rightarrow>
          (case heal_targets blockHash data targets of (ts, healed) \<Rightarrow>
             if healed = 0 \<and> length (filter (\<lambda>d. d \<noteq> None) targets) > 0
             then (ts, Inl errHealFailed) else (ts, Inr healed)))"


subsection \<open>Reading an object\<close>

definition blockSliceBounds :: "int \<Rightarrow> int \<Rightarrow> int \<Rightarrow> int \<Rightarrow> int \<Rightarrow> (int \<times> int) option" where
  "blockSliceBounds blockStart startOffset len written blkSize =
     (let readFrom = (if blockStart < startOffset then startOffset - blockStart else 0);
          remaining = len - written;
          readTo = (if blkSize - readFrom > remaining then readFrom + remaining else blkSize)
      in if readFrom > blkSize \<or> readTo > blkSize \<or> readTo < readFrom then None
         else Some (readFrom, readTo))"

text \<open>
  The loop over the blocks \<open>i\<close> to \<open>endBlock\<close>: what was written so far and the error, if any. The
  writer accepts everything; an index or a slice out of range is a panic (\<open>None\<close>).
\<close>

function read_blocks ::
  "int \<Rightarrow> BlockDrive option list \<Rightarrow> BlockRef list \<Rightarrow> int \<Rightarrow> int \<Rightarrow> int \<Rightarrow> int \<Rightarrow> bytes \<Rightarrow>
     (bytes \<times> goerr option) option" where
  "read_blocks blockSize disks blocks startOffset len endBlock i out =
     (if i \<le> endBlock \<and> i < int (length blocks)
      then do {
        blk \<leftarrow> go_nth blocks i;
        (case ReadBlock (bl_Hash blk) disks of
           Inl err \<Rightarrow> Some (out, Some err)
         | Inr data \<Rightarrow>
             if int (length data) \<noteq> bl_Size blk then Some (out, Some errFileCorrupt)
             else case blockSliceBounds (i * blockSize) startOffset len (int (length out)) (bl_Size blk) of
                    None \<Rightarrow> Some (out, Some errFileCorrupt)
                  | Some (readFrom, readTo) \<Rightarrow> do {
                      chunk \<leftarrow> go_slice data readFrom readTo;
                      read_blocks blockSize disks blocks startOffset len endBlock (i + 1) (out @ chunk)
                    })
      }
      else Some (out, None))"
  by auto
termination
  by (relation "measure (\<lambda>(bs, d, blocks, s, l, e, i, out). nat (int (length blocks) - i))") auto

declare read_blocks.simps [simp del]

definition default_block_size :: "int \<Rightarrow> int" where
  "default_block_size blockSize = (if blockSize \<le> 0 then 1048576 else blockSize)"

definition getBlockReplicatedObject ::
  "ReplicationConfig \<Rightarrow> FileInfo \<Rightarrow> BlockDrive option list \<Rightarrow> int \<Rightarrow> int \<Rightarrow> (bytes \<times> goerr option) option"
where
  "getBlockReplicatedObject cfg fi onlineDisks startOffset len0 =
     (let len = (if len0 < 0 then fi_Size fi - startOffset else len0)
      in if startOffset > fi_Size fi \<or> startOffset + len > fi_Size fi
         then Some ([], Some errInvalidRange)
         else
           let blockSize = default_block_size (rc_BlockSize cfg);
               replicator = NewBlockReplicator blockSize (rc_ReplicationFactor cfg)
           in do {
             (startBlock, endBlock) \<leftarrow> BlockRange replicator startOffset len (fi_Size fi);
             read_blocks blockSize onlineDisks (fi_Blocks fi) startOffset len endBlock startBlock []
           })"

subsection \<open>Writing an object\<close>

text \<open>
  The streaming loop of \<open>putBlockReplicatedObject\<close>: the drives after it, and the references and
  the total size, or an error.
\<close>

function put_blocks ::
  "(goerr option list \<Rightarrow> goerr option list) \<Rightarrow> nat \<Rightarrow> int \<Rightarrow> goerr option \<Rightarrow> bytes \<Rightarrow> BlockDrive option list \<Rightarrow>
     nat \<Rightarrow> BlockRef list \<Rightarrow> int \<Rightarrow> BlockDrive option list \<times> (goerr + BlockRef list \<times> int)" where
  "put_blocks ord bs writeQuorum rerr src disks idx blockRefs totalSize =
     (let data = take bs src
      in if length src < bs \<and> rerr \<noteq> None then (disks, Inl (the rerr))
         else if data = [] then (disks, Inr (blockRefs, totalSize))
         else
           let blockHash = hashBlockData data;
               refs' = blockRefs @ [\<lparr>bl_Hash = blockHash, bl_Size = int (length data), bl_Index = int idx\<rparr>];
               totalSize' = totalSize + int (length data)
           in case WriteBlock ord blockHash data disks writeQuorum of
                (disks', Some err) \<Rightarrow> (disks', Inl err)
              | (disks', None) \<Rightarrow>
                  if length src < bs then (disks', Inr (refs', totalSize'))
                  else put_blocks ord bs writeQuorum rerr (drop bs src) disks' (idx + 1) refs' totalSize')"
  by auto
termination
  by (relation "measure (\<lambda>(ord, bs, q, rerr, src, disks, idx, refs, t). length src)") auto

declare put_blocks.simps [simp del]

record PutOptions =
  po_UserDefined :: "string \<rightharpoonup> string"
  po_Versioned :: bool
  po_VersionID :: string
  po_MTime :: gotime

text \<open>
  What the put path reads from its surroundings: the size announced for the stream, the actual
  size, the check for a parent object, the clock, fresh identifiers, the digest of the stream, the
  type guessed from the name and the outcome of taking the lock.
\<close>

record PutEnv =
  pe_Size :: int
  pe_ActualSize :: int
  pe_ParentIsObject :: bool
  pe_UTCNow :: gotime
  pe_versionUUID :: string
  pe_dataDirUUID :: string
  pe_MD5 :: string
  pe_mime :: string
  pe_lockErr :: "goerr option"

definition metadata_default :: "(string \<rightharpoonup> string) \<Rightarrow> string \<Rightarrow> string \<Rightarrow> (string \<rightharpoonup> string)" where
  "metadata_default m k v = (case m k of Some x \<Rightarrow> if x = [] then m(k \<mapsto> v) else m | None \<Rightarrow> m(k \<mapsto> v))"

definition block_FileInfo ::
  "string \<Rightarrow> string \<Rightarrow> PutOptions \<Rightarrow> PutEnv \<Rightarrow> int \<Rightarrow> BlockRef list \<Rightarrow> int \<Rightarrow> FileInfo" where
  "block_FileInfo bucket object opts env blockSize blockRefs totalSize =
     AddObjectPart
       (empty_FileInfo\<lparr>fi_Volume := bucket, fi_Name := object, fi_Size := totalSize,
          fi_Blocks := blockRefs,
          fi_Erasure := empty_ErasureInfo\<lparr>er_Algorithm := ''block-replication'', er_DataBlocks := 1,
            er_ParityBlocks := 0, er_BlockSize := blockSize, er_Index := 1, er_Distribution := [1]\<rparr>,
          fi_ModTime := (if po_MTime opts = zero_time then pe_UTCNow env else po_MTime opts),
          fi_VersionID := (if po_Versioned opts
             then (if po_VersionID opts = [] then pe_versionUUID env else po_VersionID opts) else []),
          fi_DataDir := pe_dataDirUUID env,
          fi_Metadata := metadata_default (metadata_default (po_UserDefined opts) ''etag'' (pe_MD5 env))
             ''content-type'' (pe_mime env)\<rparr>)
       1 [] totalSize (pe_ActualSize env)"

definition putBlockReplicatedObject ::
  "(goerr option list \<Rightarrow> goerr option list) \<Rightarrow> (BlockDrive \<Rightarrow> FileInfo \<Rightarrow> goerr option) \<Rightarrow>
     ReplicationConfig \<Rightarrow> string \<Rightarrow> string \<Rightarrow> bytes \<Rightarrow> goerr option \<Rightarrow> PutOptions \<Rightarrow> PutEnv \<Rightarrow>
     BlockDrive option list \<Rightarrow> (BlockDrive option list \<times> (goerr + FileInfo)) option" where
  "putBlockReplicatedObject ord WriteMetadata cfg bucket object src rerr opts env storageDisks =
     (let blockSize = default_block_size (rc_BlockSize cfg);
          writeQuorum = WriteQuorum cfg
      in if pe_Size env < -1 then Some (storageDisks, Inl errInvalidArgument)
         else if pe_ParentIsObject env then Some (storageDisks, Inl errFileParentIsFile)
         else case put_blocks ord (nat blockSize) writeQuorum rerr src storageDisks 0 [] 0 of
                (disks, Inl err) \<Rightarrow> Some (disks, Inl err)
              | (disks, Inr (blockRefs, totalSize)) \<Rightarrow>
                  (case pe_lockErr env of
                     Some err \<Rightarrow> Some (disks, Inl err)
                   | None \<Rightarrow>
                       let fi = block_FileInfo bucket object opts env blockSize blockRefs totalSize
                       in case writeUniqueFileInfo ord WriteMetadata disks
                                 (replicate (length disks) fi) (nat writeQuorum) of
                            None \<Rightarrow> None
                          | Some (_, Some err) \<Rightarrow> Some (disks, Inl err)
                          | Some (_, None) \<Rightarrow> Some (disks, Inr fi)))"

subsection \<open>Interface of a block store\<close>

text \<open>
  What the replicator relies on: a store keeps only blocks that match their hash, a successful write
  makes the hash readable, and writes never remove a block.
\<close>

definition good_copy :: "('s \<Rightarrow> string \<Rightarrow> goerr + bytes) \<Rightarrow> string \<Rightarrow> 's \<Rightarrow> bool" where
  "good_copy rd h s \<longleftrightarrow> (\<exists>d. rd s h = Inr d \<and> hashBlockData d = h)"

locale block_store =
  fixes wr :: "'s \<Rightarrow> string \<Rightarrow> bytes \<Rightarrow> 's \<times> goerr option"
    and rd :: "'s \<Rightarrow> string \<Rightarrow> goerr + bytes"
    and inv :: "'s \<Rightarrow> bool"
  assumes write_inv: "inv s \<Longrightarrow> inv (fst (wr s h d))"
    and read_sound: "inv s \<Longrightarrow> rd s h = Inr d \<Longrightarrow> hashBlockData d = h"
    and write_read: "inv s \<Longrightarrow> wr s h d = (s', None) \<Longrightarrow> \<exists>d'. rd s' h = Inr d'"
    and write_keeps: "rd s h' = Inr d' \<Longrightarrow> rd (fst (wr s h d)) h' = Inr d'"
begin

lemma holds_written: "inv s \<Longrightarrow> wr s h d = (s', None) \<Longrightarrow> good_copy rd h s'"
  unfolding good_copy_def by (metis fst_conv read_sound write_inv write_read)

lemma holds_kept: "good_copy rd h' s \<Longrightarrow> good_copy rd h' (fst (wr s h d))"
  unfolding good_copy_def using write_keeps by blast

lemma holds_read: "inv s \<Longrightarrow> rd s h = Inr d \<Longrightarrow> good_copy rd h s"
  unfolding good_copy_def using read_sound by blast

end

definition store_ok :: "BlockDrive \<Rightarrow> bool" where
  "store_ok s \<longleftrightarrow> (\<forall>h d. bd_blocks s h = Some d \<longrightarrow> hashBlockData d = h)"

lemma hash_valid [simp]: "isValidBlockHash (hashBlockData d)"
proof -
  have "hex_char c" if "c \<in> set (hashBlockData d)" for c
    using that unfolding hashBlockData_def by (rule hex_EncodeToString_hex [rotated]) (use sha256_byte in blast)
  moreover have "hex_char c \<Longrightarrow> \<not> ((byte_of c < 48 \<or> byte_of c > 57) \<and> (byte_of c < 97 \<or> byte_of c > 102))"
    for c by (auto simp: hex_char_def)
  ultimately have "list_all (\<lambda>c. \<not> ((byte_of c < 48 \<or> byte_of c > 57) \<and> (byte_of c < 97 \<or> byte_of c > 102)))
      (hashBlockData d)"
    unfolding list_all_iff by blast
  then show ?thesis by (simp add: isValidBlockHash_def) (simp add: hashBlockData_def)
qed

interpretation xl: block_store xl_WriteBlock xl_ReadBlock store_ok
proof
  show "store_ok (fst (xl_WriteBlock s h d))" if "store_ok s" for s h d
    using that
    by (auto simp: xl_WriteBlock_def store_ok_def verifyBlockHash_def split: option.splits if_splits)
  show "hashBlockData d = h" if "store_ok s" "xl_ReadBlock s h = Inr d" for s h d
    using that by (auto simp: xl_ReadBlock_def store_ok_def split: option.splits if_splits)
  show "\<exists>d'. xl_ReadBlock s' h = Inr d'" if "store_ok s" "xl_WriteBlock s h d = (s', None)" for s h d s'
    using that by (auto simp: xl_WriteBlock_def xl_ReadBlock_def split: option.splits if_splits)
  show "xl_ReadBlock (fst (xl_WriteBlock s h d)) h' = Inr d'" if "xl_ReadBlock s h' = Inr d'" for s h h' d d'
    using that by (auto simp: xl_WriteBlock_def xl_ReadBlock_def split: option.splits if_splits)
qed

definition copy_on :: "string \<Rightarrow> BlockDrive option \<Rightarrow> bool" where
  "copy_on h disk = (case disk of None \<Rightarrow> False | Some d \<Rightarrow> good_copy xl_ReadBlock h d)"

lemma copy_on_simps [simp]: "\<not> copy_on h None" "copy_on h (Some d) = good_copy xl_ReadBlock h d"
  by (simp_all add: copy_on_def)

definition drives_ok :: "BlockDrive option list \<Rightarrow> bool" where
  "drives_ok disks \<longleftrightarrow> (\<forall>d. Some d \<in> set disks \<longrightarrow> store_ok d)"

subsection \<open>Reading a block\<close>

lemma read_sources_Inr:
  "read_sources h disks e = Inr d \<Longrightarrow> hashBlockData d = h \<and> list_ex (copy_on h) disks"
proof (induction disks arbitrary: e)
  case Nil
  then show ?case by (simp split: option.splits)
next
  case (Cons a disks)
  show ?case
  proof (cases a)
    case None
    then show ?thesis using Cons by simp
  next
    case (Some dk)
    show ?thesis
    proof (cases "xl_ReadBlock dk h")
      case (Inl err)
      then show ?thesis using Cons.IH [of "Some err"] Cons.prems Some by simp
    next
      case (Inr d')
      show ?thesis
      proof (cases "hashBlockData d' = h")
        case True
        then have "good_copy xl_ReadBlock h dk" using Inr by (simp add: good_copy_def)
        then show ?thesis using True Inr Cons.prems Some by (simp add: verifyBlockHash_def)
      next
        case False
        then show ?thesis
          using Inr Cons.IH [of "Some errHashMismatch"] Cons.prems Some by (simp add: verifyBlockHash_def)
      qed
    qed
  qed
qed

lemma read_sources_found:
  "list_ex (copy_on h) disks \<Longrightarrow> \<exists>d. read_sources h disks e = Inr d"
proof (induction disks arbitrary: e)
  case (Cons a disks)
  then show ?case
    by (cases a) (auto simp: good_copy_def verifyBlockHash_def split: sum.split)
qed simp

text \<open>
  (C25) A replicated read never returns bytes that do not hash to the block's name, and it succeeds
  exactly when some online drive holds a good copy, whatever the other drives return.
\<close>

theorem ReadBlock_correct:
  "(\<exists>d. ReadBlock h disks = Inr d) = list_ex (copy_on h) disks \<and>
   (case ReadBlock h disks of Inl err \<Rightarrow> True | Inr d \<Rightarrow> hashBlockData d = h)"
proof -
  have "list_ex (copy_on h) disks" if "ReadBlock h disks = Inr d" for d
    using read_sources_Inr [OF that [unfolded ReadBlock_def]] by simp
  then show ?thesis
    using read_sources_found [of h disks None] read_sources_Inr [of h disks None]
    unfolding ReadBlock_def by (cases "read_sources h disks None") auto
qed

subsection \<open>Writing a block\<close>

lemma count_None_write:
  "drives_ok disks \<Longrightarrow>
     count_list (map snd (map (write_target h d) disks)) None \<le>
     length (filter (copy_on h) (map fst (map (write_target h d) disks)))"
proof (induction disks)
  case (Cons a disks)
  then have "drives_ok disks" and a: "\<And>x. a = Some x \<Longrightarrow> store_ok x" by (auto simp: drives_ok_def)
  with Cons.IH show ?case
    by (cases a) (auto simp: write_target_def split: prod.splits dest: xl.holds_written)
qed simp

lemma reduce_nil_count:
  assumes "map_order ord" and "0 < q" and "reduceWriteQuorumErrs ord errs ign q = None"
  shows "q \<le> count_list errs None"
proof -
  obtain m e where r: "reduceErrs ord errs ign = (m, e)" by (cases "reduceErrs ord errs ign")
  have "q \<le> m" "e = None"
    using assms(3) by (auto simp: reduceWriteQuorumErrs_def reduceQuorumErrs_def r split: if_splits)
  then show ?thesis
    using reduceErrs_spec(2) [OF assms(1) r] assms(2) counted_errs_nil [of errs ign] by simp
qed

lemma WriteBlock_copies:
  assumes "map_order ord" and "0 < q" and "drives_ok disks"
    and "WriteBlock ord h d disks q = (disks', None)"
  shows "q \<le> int (length (filter (copy_on h) disks'))"
proof -
  let ?errs = "map snd (map (write_target h d) disks)"
  have "q \<le> int (count_list ?errs None)"
    using assms(4) reduce_nil_count [OF assms(1), of "nat q" ?errs objectOpIgnoredErrs] assms(2)
    by (auto simp: WriteBlock_def Let_def split: if_splits)
  moreover have "disks' = map fst (map (write_target h d) disks)"
    using assms(4) by (simp add: WriteBlock_def Let_def)
  ultimately show ?thesis using count_None_write [OF assms(3), of h d] by simp
qed

lemma write_target_kept: "copy_on h' disk \<Longrightarrow> copy_on h' (fst (write_target h d disk))"
  using xl.holds_kept [of h' _ h d] by (cases disk) (auto simp: write_target_def split_beta)

lemma WriteBlock_drives:
  assumes "WriteBlock ord h d disks q = (disks', r)"
  shows "length disks' = length disks" and "drives_ok disks \<Longrightarrow> drives_ok disks'"
    and "length (filter (copy_on h') disks) \<le> length (filter (copy_on h') disks')"
proof -
  have eq: "disks' = map (\<lambda>disk. fst (write_target h d disk)) disks"
    using assms by (auto simp: WriteBlock_def Let_def)
  then show "length disks' = length disks" by simp
  show "drives_ok disks'" if "drives_ok disks"
  proof -
    have "store_ok x" if a: "a \<in> set disks" and w: "fst (write_target h d a) = Some x" for a x
    proof -
      obtain y where y: "a = Some y" using w by (cases a) (auto simp: write_target_def)
      then have "store_ok y" using a \<open>drives_ok disks\<close> by (auto simp: drives_ok_def)
      then show ?thesis using w y xl.write_inv by (auto simp: write_target_def split_beta)
    qed
    then show ?thesis unfolding eq drives_ok_def by auto
  qed
  show "length (filter (copy_on h') disks) \<le> length (filter (copy_on h') disks')"
    unfolding eq by (induction disks) (auto simp: le_SucI dest: write_target_kept [of h' _ h d])
qed

subsection \<open>Putting an object\<close>

definition block_ref :: "nat \<Rightarrow> bytes \<Rightarrow> nat \<Rightarrow> BlockRef" where
  "block_ref bs src b = \<lparr>bl_Hash = hashBlockData (chunk bs src b),
     bl_Size = int (length (chunk bs src b)), bl_Index = int b\<rparr>"

definition block_refs :: "nat \<Rightarrow> bytes \<Rightarrow> nat \<Rightarrow> BlockRef list" where
  "block_refs bs src idx =
     map (\<lambda>b. block_ref bs src b\<lparr>bl_Index := int (idx + b)\<rparr>) [0..<ceil_div bs (length src)]"

lemma block_refs_Nil [simp]: "0 < bs \<Longrightarrow> block_refs bs [] idx = []"
  by (simp add: block_refs_def)

lemma block_refs_Cons:
  assumes "0 < bs" and "src \<noteq> []"
  shows "block_refs bs src idx =
    \<lparr>bl_Hash = hashBlockData (take bs src), bl_Size = int (length (take bs src)), bl_Index = int idx\<rparr>
      # block_refs bs (drop bs src) (idx + 1)"
proof -
  let ?g = "\<lambda>b. block_ref bs src b\<lparr>bl_Index := int (idx + b)\<rparr>"
  have "ceil_div bs (length src) = Suc (ceil_div bs (length (drop bs src)))"
    using ceil_div_Suc [OF assms(1), of "length src"] assms(2) by simp
  then have "block_refs bs src idx = ?g 0 # map (?g \<circ> Suc) [0..<ceil_div bs (length (drop bs src))]"
    unfolding block_refs_def by (simp add: upt_conv_Cons map_Suc_upt [symmetric] del: upt_Suc)
  moreover have "(?g \<circ> Suc) = (\<lambda>b. block_ref bs (drop bs src) b\<lparr>bl_Index := int (idx + 1 + b)\<rparr>)"
    by (simp add: fun_eq_iff block_ref_def chunk_Suc)
  ultimately show ?thesis by (simp add: block_refs_def block_ref_def chunk_def)
qed

text \<open>The chunker and the put loop produce these references.\<close>

lemma chunk_and_hash_refs:
  assumes "0 < bs"
  shows "chunk_and_hash bs None src idx refs blocks =
    Inr (refs @ block_refs bs src idx, blocks @ map (chunk bs src) [0..<ceil_div bs (length src)])"
proof (induction "length src" arbitrary: src idx refs blocks rule: less_induct)
  case less
  show ?case
  proof (cases "src = []")
    case True
    then show ?thesis using assms by (simp add: chunk_and_hash.simps)
  next
    case False
    have n: "ceil_div bs (length src) = Suc (ceil_div bs (length (drop bs src)))"
      using ceil_div_Suc [OF assms, of "length src"] False by simp
    have m: "map (chunk bs src) [0..<Suc k] = take bs src # map (chunk bs (drop bs src)) [0..<k]" for k
      by (simp add: upt_conv_Cons map_Suc_upt [symmetric] chunk_Suc comp_def del: upt_Suc)
        (simp add: chunk_def)
    show ?thesis
    proof (cases "length src < bs")
      case True
      then have "drop bs src = []" by simp
      then show ?thesis
        using True False assms block_refs_Cons [OF assms False, of idx] m [of 0] n
        by (subst chunk_and_hash.simps) (simp add: Let_def)
    next
      case ge: False
      have "length (drop bs src) < length src" using False assms by simp
      from less [OF this, of "idx + 1"] show ?thesis
        using ge False assms block_refs_Cons [OF assms False, of idx]
        by (subst chunk_and_hash.simps) (simp add: Let_def n m del: upt_Suc)
    qed
  qed
qed

lemma put_blocks_spec:
  assumes "0 < bs" and "map_order ord" and "0 < q"
    and "put_blocks ord bs q rerr src disks idx refs tot = (disks', Inr (refs', tot'))"
    and "drives_ok disks"
  shows "refs' = refs @ block_refs bs src idx \<and> tot' = tot + int (length src) \<and>
    length disks' = length disks \<and> drives_ok disks' \<and>
    (\<forall>h. length (filter (copy_on h) disks) \<le> length (filter (copy_on h) disks')) \<and>
    (\<forall>r \<in> set (block_refs bs src idx). q \<le> int (length (filter (copy_on (bl_Hash r)) disks')))"
  using assms(4,5)
proof (induction "length src" arbitrary: src disks idx refs tot rule: less_induct)
  case less
  show ?case
  proof (cases "src = []")
    case True
    then show ?thesis
      using less.prems assms(1) by (simp add: put_blocks.simps split: if_splits)
  next
    case False
    let ?c = "take bs src"
    let ?r = "\<lparr>bl_Hash = hashBlockData ?c, bl_Size = int (length ?c), bl_Index = int idx\<rparr>"
    obtain disks1 err where w: "WriteBlock ord (hashBlockData ?c) ?c disks q = (disks1, err)"
      by (cases "WriteBlock ord (hashBlockData ?c) ?c disks q")
    have c: "?c \<noteq> []" using False assms(1) by simp
    have err: "err = None" and re: "\<not> (length src < bs \<and> rerr \<noteq> None)"
      using less.prems(1) c w by (subst (asm) put_blocks.simps, auto simp: Let_def split: if_splits option.splits)+
    note d1 = WriteBlock_drives [OF w]
    have q1: "q \<le> int (length (filter (copy_on (hashBlockData ?c)) disks1))"
      using WriteBlock_copies [OF assms(2,3) less.prems(2)] w err by simp
    note cons = block_refs_Cons [OF assms(1) False, of idx]
    show ?thesis
    proof (cases "length src < bs")
      case True
      then have "drop bs src = []" by simp
      moreover have "disks' = disks1" "refs' = refs @ [?r]" "tot' = tot + int (length ?c)"
        using less.prems(1) c w err re True
        by (subst (asm) put_blocks.simps, simp add: Let_def)+
      ultimately show ?thesis
        using True assms(1) cons d1 q1 less.prems(2) by simp
    next
      case ge: False
      have rec: "put_blocks ord bs q rerr (drop bs src) disks1 (idx + 1) (refs @ [?r])
          (tot + int (length ?c)) = (disks', Inr (refs', tot'))"
        using less.prems(1) c w err re ge by (subst (asm) put_blocks.simps) (simp add: Let_def)
      have "length (drop bs src) < length src" using False assms(1) by simp
      note IH = less.hyps [OF this rec d1(2) [OF less.prems(2)]]
      have kept: "length (filter (copy_on h) disks) \<le> length (filter (copy_on h) disks')" for h
        using IH d1(3) [of h] le_trans by blast
      have "q \<le> int (length (filter (copy_on (bl_Hash ?r)) disks'))"
        using q1 IH [THEN conjunct2, THEN conjunct2, THEN conjunct2, THEN conjunct2, THEN conjunct1,
            rule_format, of "hashBlockData ?c"] by simp
      then show ?thesis using IH cons d1(1) kept ge by auto
    qed
  qed
qed

subsection \<open>Getting a range\<close>

lemma blockSliceBounds_nat:
  assumes "0 < bs" and "0 < l" and "o' div bs \<le> i" and "i \<le> (o' + l - 1) div bs" and "o' + l \<le> n"
  obtains rf w where
    "blockSliceBounds (int i * int bs) (int o') (int l) (int (range_pos bs o' l i))
       (int (min bs (n - i * bs))) = Some (int rf, int (rf + w))"
    and "o' + range_pos bs o' l i = i * bs + rf" and "rf + w \<le> bs" and "i * bs + rf + w \<le> n"
    and "range_pos bs o' l (Suc i) = range_pos bs o' l i + w"
proof -
  let ?sb = "o' div bs" and ?eb = "(o' + l - 1) div bs"
  have o: "o' = ?sb * bs + o' mod bs" and e: "o' + l - 1 = ?eb * bs + (o' + l - 1) mod bs" by simp_all
  have m: "o' mod bs < bs" "(o' + l - 1) mod bs < bs" using assms(1) by simp_all
  have ib: "?sb * bs \<le> i * bs" "i * bs \<le> ?eb * bs" using assms(3,4) by (auto intro: mult_le_mono1)
  have i_lt: "i * bs < o' + l" using ib(2) e assms(2) by linarith
  define rf where "rf = o' - i * bs"
  define w where "w = min (min bs (n - i * bs) - rf) (l - range_pos bs o' l i)"
  have rf: "rf < bs" unfolding rf_def using ib(1) o m(1) assms(1) by linarith
  have pos: "range_pos bs o' l i = i * bs - o'" using i_lt by (simp add: range_pos_def)
  have a: "o' + range_pos bs o' l i = i * bs + rf" using pos by (simp add: rf_def)
  have rfb: "rf < min bs (n - i * bs)" 
  proof -
    have "rf < n - i * bs" unfolding rf_def using i_lt assms(2,5) by linarith
    then show ?thesis using rf by simp
  qed
  have b: "rf + w \<le> bs" "i * bs + rf + w \<le> n" using rfb by (auto simp: w_def)
  have nx: "range_pos bs o' l (Suc i) = range_pos bs o' l i + w"
  proof (cases "i = ?eb")
    case True
    have "o' + l \<le> Suc i * bs" unfolding True mult_Suc using e m(2) assms(2) by linarith
    then have "range_pos bs o' l (Suc i) = l" by (simp add: range_pos_def)
    moreover have "l - range_pos bs o' l i \<le> min bs (n - i * bs) - rf"
      using \<open>o' + l \<le> Suc i * bs\<close> a assms(5) i_lt rfb pos by simp
    moreover have "range_pos bs o' l i \<le> l" by (simp add: range_pos_def)
    ultimately show ?thesis by (simp add: w_def)
  next
    case False
    then have "Suc i * bs \<le> ?eb * bs" using assms(4) by (intro mult_le_mono1) simp
    then have "Suc i * bs \<le> o' + l - 1" using e by linarith
    then have "min bs (n - i * bs) = bs" "bs - rf \<le> l - range_pos bs o' l i"
      "range_pos bs o' l (Suc i) = Suc i * bs - o'"
      using assms(2,5) a pos rf by (simp_all add: range_pos_def)
    moreover have "Suc i * bs - o' = i * bs - o' + (bs - rf)"
      using rf unfolding rf_def mult_Suc by linarith
    ultimately show ?thesis using pos by (simp add: w_def)
  qed
  have "blockSliceBounds (int i * int bs) (int o') (int l) (int (range_pos bs o' l i))
       (int (min bs (n - i * bs))) = Some (int rf, int (rf + w))"
  proof -
    have r: "(if int i * int bs < int o' then int o' - int i * int bs else 0) = int rf"
    proof -
      have "int i * int bs = int (i * bs)" by simp
      then show ?thesis unfolding rf_def by (simp only: of_nat_less_iff) (simp add: of_nat_diff)
    qed
    have "range_pos bs o' l i \<le> l" by (simp add: range_pos_def)
    then have t: "(if int (min bs (n - i * bs)) - int rf > int l - int (range_pos bs o' l i)
        then int rf + (int l - int (range_pos bs o' l i)) else int (min bs (n - i * bs))) = int (rf + w)"
      using rfb by (simp add: w_def of_nat_diff split: if_splits)
    have "\<not> int (min bs (n - i * bs)) < int rf" "\<not> int (min bs (n - i * bs)) < int (rf + w)"
      "\<not> int (rf + w) < int rf"
      unfolding of_nat_less_iff using rfb by (auto simp: w_def)
    then show ?thesis
      unfolding blockSliceBounds_def Let_def r t by (simp only: simp_thms if_False)
  qed
  then show thesis using that a b nx by blast
qed

lemma read_blocks_range:
  assumes "0 < bs" and "0 < l" and "o' + l \<le> length data"
    and "\<And>b. b * bs < length data \<Longrightarrow> ReadBlock (hashBlockData (chunk bs data b)) disks = Inr (chunk bs data b)"
    and "o' div bs \<le> i" and "i \<le> Suc ((o' + l - 1) div bs)"
  shows "read_blocks (int bs) disks (block_refs bs data 0) (int o') (int l) (int ((o' + l - 1) div bs))
     (int i) (take (range_pos bs o' l i) (drop o' data)) = Some (take l (drop o' data), None)"
  using assms(5,6)
proof (induction "Suc ((o' + l - 1) div bs) - i" arbitrary: i)
  case 0
  let ?eb = "(o' + l - 1) div bs"
  have i: "i = Suc ?eb" using 0 by simp
  have "o' + l - 1 < Suc ?eb * bs" using assms(1) by (simp add: dividend_less_div_times)
  then have "range_pos bs o' l i = l" using i by (simp add: range_pos_def)
  then show ?case using i by (simp add: read_blocks.simps)
next
  case (Suc n)
  let ?eb = "(o' + l - 1) div bs"
  have i: "i \<le> ?eb" using Suc.hyps(2) by simp
  obtain rf w where bnd: "blockSliceBounds (int i * int bs) (int o') (int l) (int (range_pos bs o' l i))
       (int (min bs (length data - i * bs))) = Some (int rf, int (rf + w))"
    and pos: "o' + range_pos bs o' l i = i * bs + rf" and w: "rf + w \<le> bs" "i * bs + rf + w \<le> length data"
    and nx: "range_pos bs o' l (Suc i) = range_pos bs o' l i + w"
    using blockSliceBounds_nat [OF assms(1,2) Suc.prems(1) i assms(3)] by blast
  have "i * bs \<le> ?eb * bs" using i by (rule mult_le_mono1)
  moreover have "?eb * bs \<le> o' + l - 1" by simp
  ultimately have lt: "i * bs < length data" using assms(2,3) by linarith
  then have il: "i < ceil_div bs (length data)" using assms(1) by (simp add: ceil_div_index)
  have ref: "go_nth (block_refs bs data 0) (int i) = Some (block_ref bs data i)"
    using il by (simp add: block_refs_def block_ref_def)
  let ?out = "take (range_pos bs o' l i) (drop o' data)"
  have lout: "length ?out = range_pos bs o' l i"
  proof -
    have "range_pos bs o' l i \<le> l" "l \<le> length data - o'" using assms(3) by (simp_all add: range_pos_def)
    then show ?thesis by simp
  qed
  have sl: "go_slice (chunk bs data i) (int rf) (int rf + int w) = Some (take w (drop rf (chunk bs data i)))"
    using w by (simp add: go_slice_def chunk_length nat_add_distrib)
  have out: "?out @ take w (drop rf (chunk bs data i)) = take (range_pos bs o' l (Suc i)) (drop o' data)"
    using chunk_window [OF w(1), of data i] pos
    unfolding nx take_add drop_drop by (simp add: add.commute)
  have "n = Suc ?eb - Suc i" "o' div bs \<le> Suc i" "Suc i \<le> Suc ?eb"
    using Suc.hyps(2) Suc.prems(1) i by auto
  note IH = Suc.hyps(1) [OF this]
  show ?case
    using i il lout IH
    by (subst read_blocks.simps)
      (simp add: ref assms(4) [OF lt] block_ref_def chunk_length bnd sl out add.commute
        block_refs_def [of bs data 0] del: of_nat_min)
qed

lemma copies_survive:
  assumes "finite L" and "card L < length (filter P xs)"
  shows "\<exists>i<length xs. i \<notin> L \<and> P (xs ! i)"
proof (rule ccontr)
  assume "\<not> ?thesis"
  then have "{i. i < length xs \<and> P (xs ! i)} \<subseteq> L" by blast
  then have "card {i. i < length xs \<and> P (xs ! i)} \<le> card L" by (rule card_mono [OF assms(1)])
  then show False using assms(2) by (simp add: length_filter_conv_card)
qed

text \<open>The drives whose positions are in the set are gone.\<close>

definition lose :: "nat set \<Rightarrow> BlockDrive option list \<Rightarrow> BlockDrive option list" where
  "lose L disks = map (\<lambda>(i, disk). if i \<in> L then None else disk) (enumerate 0 disks)"

lemma lose_nth [simp]: "i < length disks \<Longrightarrow> lose L disks ! i = (if i \<in> L then None else disks ! i)"
  and lose_length [simp]: "length (lose L disks) = length disks"
  by (simp_all add: lose_def nth_enumerate_eq)

lemma lose_copy:
  "finite L \<Longrightarrow> card L < length (filter (copy_on h) disks) \<Longrightarrow> list_ex (copy_on h) (lose L disks)"
  using copies_survive [of L "copy_on h" disks] by (auto simp: list_ex_length)

text \<open>No block is stored under a hash it shares with a different block of the object.\<close>

definition no_collision :: "nat \<Rightarrow> bytes \<Rightarrow> BlockDrive option list \<Rightarrow> bool" where
  "no_collision bs src disks \<longleftrightarrow>
     (\<forall>b dk d. b * bs < length src \<and> Some dk \<in> set disks \<and>
        xl_ReadBlock dk (hashBlockData (chunk bs src b)) = Inr d \<longrightarrow>
        hashBlockData d = hashBlockData (chunk bs src b) \<longrightarrow> d = chunk bs src b)"

lemma read_sources_origin:
  "read_sources h disks e = Inr d \<Longrightarrow> \<exists>dk. Some dk \<in> set disks \<and> xl_ReadBlock dk h = Inr d"
proof (induction disks arbitrary: e)
  case Nil
  then show ?case by (simp split: option.splits)
next
  case (Cons a disks)
  show ?case
  proof (cases a)
    case None
    then show ?thesis using Cons by auto
  next
    case (Some dk)
    then show ?thesis
      using Cons by (cases "xl_ReadBlock dk h") (auto split: option.splits)
  qed
qed

lemma lose_subset: "Some dk \<in> set (lose L disks) \<Longrightarrow> Some dk \<in> set disks"
  by (auto simp: in_set_conv_nth split: if_splits)

lemma WriteQuorum_pos: "0 < WriteQuorum c"
  by (auto simp: WriteQuorum_def signed_divide_int_def)

lemma default_block_size_pos: "0 < default_block_size n"
  by (simp add: default_block_size_def)

lemma block_ref_in:
  "0 < bs \<Longrightarrow> b * bs < length src \<Longrightarrow> hashBlockData (chunk bs src b) \<in> bl_Hash ` set (block_refs bs src 0)"
  by (force simp: block_refs_def block_ref_def ceil_div_index)

lemma put_object_spec:
  assumes "map_order ord" and "drives_ok disks"
    and "putBlockReplicatedObject ord WriteMetadata cfg bucket object src rerr opts env disks = Some (disks', Inr fi)"
  shows "fi = block_FileInfo bucket object opts env (default_block_size (rc_BlockSize cfg))
      (block_refs (nat (default_block_size (rc_BlockSize cfg))) src 0) (int (length src)) \<and>
    length disks' = length disks \<and>
    (\<forall>b. b * nat (default_block_size (rc_BlockSize cfg)) < length src \<longrightarrow> WriteQuorum cfg
       \<le> int (length (filter (copy_on (hashBlockData (chunk (nat (default_block_size (rc_BlockSize cfg))) src b))) disks')))"
proof -
  let ?bs = "nat (default_block_size (rc_BlockSize cfg))"
  have bs: "0 < ?bs" using default_block_size_pos by simp
  obtain refs tot where p: "put_blocks ord ?bs (WriteQuorum cfg) rerr src disks 0 [] 0 = (disks', Inr (refs, tot))"
    and fi: "fi = block_FileInfo bucket object opts env (default_block_size (rc_BlockSize cfg)) refs tot"
    using assms(3)
    by (auto simp: putBlockReplicatedObject_def Let_def split: if_splits prod.splits sum.splits option.splits)
  show ?thesis
    using put_blocks_spec [OF bs assms(1) WriteQuorum_pos p assms(2)] fi block_ref_in [OF bs] by fastforce
qed

lemma AddObjectPart_fields [simp]:
  "fi_Size (AddObjectPart fi n e s a) = fi_Size fi" "fi_Blocks (AddObjectPart fi n e s a) = fi_Blocks fi"
  by (auto simp: AddObjectPart_def Let_def split: option.splits)

lemma get_object_range:
  assumes "0 < l" and "o' + l \<le> length src" and "bs = nat (default_block_size (rc_BlockSize cfg))"
    and "fi_Size fi = int (length src)" and "fi_Blocks fi = block_refs bs src 0"
    and "\<And>b. b * bs < length src \<Longrightarrow> ReadBlock (hashBlockData (chunk bs src b)) disks = Inr (chunk bs src b)"
  shows "getBlockReplicatedObject cfg fi disks (int o') (int l) = Some (take l (drop o' src), None)"
proof -
  have bs: "0 < bs" "default_block_size (rc_BlockSize cfg) = int bs"
    using default_block_size_pos [of "rc_BlockSize cfg"] assms(3) by auto
  have e: "int o' + int l - 1 = int (o' + l - 1)" using assms(1) by simp
  have r: "BlockRange (NewBlockReplicator (int bs) f) (int o') (int l) (int (length src))
      = Some (int (o' div bs), int ((o' + l - 1) div bs))" for f
  proof -
    have "\<not> int (length src) \<le> int (o' + l - 1)" using assms(1,2) by linarith
    moreover have "src \<noteq> []" using assms(1,2) by auto
    ultimately show ?thesis
      using bs assms(1) unfolding BlockRange_def Let_def e NewBlockReplicator_def
      by (simp add: sdiv_nat del: of_nat_diff of_nat_add)
  qed
  have p: "range_pos bs o' l (o' div bs) = 0" by (simp add: range_pos_def)
  have le: "o' div bs \<le> Suc ((o' + l - 1) div bs)" using assms(1) by (simp add: div_le_mono le_SucI)
  show ?thesis
    using read_blocks_range [OF bs(1) assms(1,2,6) order_refl le] assms(2)
    by (simp add: getBlockReplicatedObject_def bs(2) assms(4,5) r p)
qed

lemma put_get_range:
  assumes "map_order ord" and "drives_ok disks"
    and "putBlockReplicatedObject ord WriteMetadata cfg bucket object src rerr opts env disks = Some (disks', Inr fi)"
    and "no_collision (nat (default_block_size (rc_BlockSize cfg))) src disks'"
    and "finite L" and "int (card L) < WriteQuorum cfg"
    and "0 < l" and "o' + l \<le> length src"
  shows "getBlockReplicatedObject cfg fi (lose L disks') (int o') (int l) = Some (take l (drop o' src), None)"
proof (rule get_object_range [OF assms(7,8) refl])
  let ?bs = "nat (default_block_size (rc_BlockSize cfg))"
  note spec = put_object_spec [OF assms(1-3)]
  show "fi_Size fi = int (length src)" "fi_Blocks fi = block_refs ?bs src 0"
    using spec by (simp_all add: block_FileInfo_def)
  show "ReadBlock (hashBlockData (chunk ?bs src b)) (lose L disks') = Inr (chunk ?bs src b)"
    if b: "b * ?bs < length src" for b
  proof -
    let ?h = "hashBlockData (chunk ?bs src b)"
    have "card L < length (filter (copy_on ?h) disks')" using spec b assms(6) by force
    then obtain d where d: "read_sources ?h (lose L disks') None = Inr d"
      using read_sources_found [OF lose_copy [OF assms(5)]] by blast
    then obtain dk where "Some dk \<in> set disks'" "xl_ReadBlock dk ?h = Inr d"
      using read_sources_origin lose_subset by blast
    moreover have "hashBlockData d = ?h" using read_sources_Inr [OF d] by simp
    ultimately have "d = chunk ?bs src b" using assms(4) b unfolding no_collision_def by blast
    then show ?thesis using d by (simp add: ReadBlock_def)
  qed
qed

text \<open>
  (C3) An object written with block replication is read back exactly, for every range, from the
  drives that are left after any loss of fewer drives than the write quorum.
\<close>

theorem put_get_replicated:
  assumes "map_order ord" and "drives_ok disks"
    and "putBlockReplicatedObject ord WriteMetadata cfg bucket object src rerr opts env disks = Some (disks', Inr fi)"
    and "no_collision (nat (default_block_size (rc_BlockSize cfg))) src disks'"
    and "finite L" and "int (card L) < WriteQuorum cfg"
    and "0 < l" and "o' + l \<le> length src"
  shows "getBlockReplicatedObject cfg fi (lose L disks') (int o') (int l) = Some (take l (drop o' src), None)"
  using assms by (rule put_get_range)

definition sample_drives :: "BlockDrive option list" where
  "sample_drives = replicate 3 (Some \<lparr>bd_blocks = Map.empty, bd_fault = None\<rparr>)"

definition sample_replication :: "int \<Rightarrow> ReplicationConfig" where
  "sample_replication bs = \<lparr>rc_ReplicationFactor = 3, rc_Consistency = ''consistent'', rc_BlockSize = bs,
     rc_Zone = [], rc_NodeCapacity = 0, rc_SyncQueueSize = 0, rc_SyncWorkers = 0, rc_MaxSyncRetries = 0\<rparr>"

definition sample_env :: PutEnv where
  "sample_env = \<lparr>pe_Size = 3, pe_ActualSize = 3, pe_ParentIsObject = False, pe_UTCNow = 7,
     pe_versionUUID = ''v'', pe_dataDirUUID = ''d'', pe_MD5 = ''m'', pe_mime = ''t'', pe_lockErr = None\<rparr>"

definition sample_opts :: PutOptions where
  "sample_opts = \<lparr>po_UserDefined = Map.empty, po_Versioned = False, po_VersionID = [], po_MTime = zero_time\<rparr>"


subsection \<open>Healing a block\<close>

lemma heal_targets_count:
  "hashBlockData d = h \<Longrightarrow> drives_ok targets \<Longrightarrow> heal_targets h d targets = (ts, n) \<Longrightarrow>
     n = length (filter (copy_on h) ts) \<and> length ts = length targets"
proof (induction targets arbitrary: ts n)
  case (Cons a targets)
  obtain ts1 n1 where r: "heal_targets h d targets = (ts1, n1)" by (cases "heal_targets h d targets")
  have ok: "drives_ok targets" "\<And>x. a = Some x \<Longrightarrow> store_ok x" using Cons.prems(2) by (auto simp: drives_ok_def)
  note IH = Cons.IH [OF Cons.prems(1) ok(1) r]
  show ?case
  proof (cases a)
    case None
    then show ?thesis using IH Cons.prems(3) r by auto
  next
    case (Some x)
    have v: "isValidBlockHash h" using Cons.prems(1) hash_valid by metis
    obtain y e where w: "xl_WriteBlock x h d = (y, e)" by (cases "xl_WriteBlock x h d")
    show ?thesis
    proof (cases e)
      case None
      then have "copy_on h (Some y)" using xl.holds_written [OF ok(2) [OF Some]] w by simp
      then show ?thesis using IH Cons.prems(3) r Some w None by auto
    next
      case err: (Some z)
      then have "\<not> copy_on h (Some y)"
        using w v Cons.prems(1)
        by (auto simp: xl_WriteBlock_def xl_ReadBlock_def verifyBlockHash_def good_copy_def
            split: option.splits if_splits)
      then show ?thesis using IH Cons.prems(3) r Some w err by auto
    qed
  qed
qed simp

text \<open>
  On drives whose stored blocks match their names, a heal that succeeds reports exactly the
  number of targets that hold a good copy afterwards.
\<close>

theorem HealBlock_count:
  assumes "drives_ok targets" and "HealBlock h sources targets = (ts, Inr n)"
  shows "n = length (filter (copy_on h) ts) \<and> length ts = length targets"
proof -
  obtain d where d: "ReadBlock h sources = Inr d" "heal_targets h d targets = (ts, n)"
    using assms(2) by (auto simp: HealBlock_def split: sum.splits prod.splits if_splits)
  then show ?thesis
    using heal_targets_count [OF _ assms(1) d(2)] read_sources_Inr [of h sources None d]
    by (simp add: ReadBlock_def)
qed

text \<open>
  A target that already stores other bytes under the hash is skipped by the write, so the heal
  counts it as healed and its copy stays bad.
\<close>

lemma HealBlock_corrupt_copy:
  assumes "bd_blocks dk h = Some bad" and "hashBlockData bad \<noteq> h" and "bd_fault dk = None"
    and "ReadBlock h sources = Inr d"
  shows "HealBlock h sources [Some dk] = ([Some dk], Inr 1) \<and> \<not> copy_on h (Some dk)"
proof -
  have "hashBlockData d = h" using read_sources_Inr assms(4) unfolding ReadBlock_def by blast
  moreover have "isValidBlockHash h" using calculation hash_valid by metis
  ultimately show ?thesis
    using assms by (simp add: HealBlock_def xl_WriteBlock_def verifyBlockHash_def good_copy_def xl_ReadBlock_def)
qed


lemma sample_put:
  "\<exists>fi. putBlockReplicatedObject rev (\<lambda>_ _. None) (sample_replication 4) ''b'' ''o'' [7, 8, 9] None
     sample_opts sample_env sample_drives =
   Some (replicate 3 (Some \<lparr>bd_blocks = [hashBlockData [7, 8, 9] \<mapsto> [7, 8, 9]], bd_fault = None\<rparr>), Inr fi)"
proof -
  let ?dk = "Some \<lparr>bd_blocks = [hashBlockData [7, 8, 9] \<mapsto> [7, 8, 9]], bd_fault = None\<rparr>"
  have bs: "nat (default_block_size (rc_BlockSize (sample_replication 4))) = 4"
    and wq: "WriteQuorum (sample_replication 4) = 2"
    by (simp_all add: sample_replication_def default_block_size_def WriteQuorum_def signed_divide_int_def)
  have w: "WriteBlock rev (hashBlockData [7, 8, 9]) [7, 8, 9] sample_drives 2 = (replicate 3 ?dk, None)"
    by (simp add: WriteBlock_def sample_drives_def write_target_def xl_WriteBlock_def verifyBlockHash_def
        numeral_3_eq_3)
  have p: "put_blocks rev 4 2 None [7, 8, 9] sample_drives 0 [] 0 = (replicate 3 ?dk,
      Inr ([\<lparr>bl_Hash = hashBlockData [7, 8, 9], bl_Size = 3, bl_Index = 0\<rparr>], 3))"
    by (subst put_blocks.simps) (simp add: w Let_def)
  have m: "writeUniqueFileInfo rev (\<lambda>_ _. None) (replicate 3 ?dk) (replicate 3 fi) 2 =
      Some (evalDisks (replicate 3 ?dk) [None, None, None], None)" if "fi_Blocks fi \<noteq> []" for fi
    using that
    by (simp add: writeUniqueFileInfo_def write_one_def unique_FileInfo_def FileInfo_IsValid_def
        numeral_3_eq_3 upt_conv_Cons reduceWriteQuorumErrs_def reduceQuorumErrs_def reduceErrs_def
        counted_errs_def IsErrIgnored_def IsErr_def)
  have env: "pe_Size sample_env = 3" "\<not> pe_ParentIsObject sample_env" "pe_lockErr sample_env = None"
    by (simp_all add: sample_env_def)
  show ?thesis
    by (simp add: putBlockReplicatedObject_def Let_def bs wq p m env block_FileInfo_def)
qed

theorem put_get_replicated_witness:
  "\<exists>disks fi. putBlockReplicatedObject rev (\<lambda>_ _. None) (sample_replication 4) ''b'' ''o'' [7, 8, 9] None
     sample_opts sample_env sample_drives = Some (disks, Inr fi) \<and>
   getBlockReplicatedObject (sample_replication 4) fi (lose {0} disks) 1 2 = Some ([8, 9], None)"
proof -
  let ?disks = "replicate 3 (Some \<lparr>bd_blocks = [hashBlockData [7, 8, 9] \<mapsto> [7, 8, 9]], bd_fault = None\<rparr>)"
  obtain fi where p: "putBlockReplicatedObject rev (\<lambda>_ _. None) (sample_replication 4) ''b'' ''o'' [7, 8, 9] None
     sample_opts sample_env sample_drives = Some (?disks, Inr fi)"
    using sample_put by blast
  have ok: "drives_ok sample_drives" by (simp add: drives_ok_def sample_drives_def store_ok_def)
  have "no_collision 4 [7, 8, 9] ?disks"
    unfolding no_collision_def
  proof (intro allI impI)
    fix b dk d
    assume a: "b * 4 < length [7, 8, 9::nat] \<and> Some dk \<in> set ?disks \<and>
      xl_ReadBlock dk (hashBlockData (chunk 4 [7, 8, 9] b)) = Inr d"
    then have "b = 0" by simp
    then show "d = chunk 4 [7, 8, 9] b" using a by (auto simp: xl_ReadBlock_def chunk_def)
  qed
  then have nc: "no_collision (nat (default_block_size (rc_BlockSize (sample_replication 4)))) [7, 8, 9] ?disks"
    by (simp add: sample_replication_def default_block_size_def)
  from put_get_replicated [OF map_order_rev ok p nc, of "{0}" 2 1]
  have "getBlockReplicatedObject (sample_replication 4) fi (lose {0} ?disks) 1 2 = Some ([8, 9], None)"
    by (simp add: sample_replication_def WriteQuorum_def signed_divide_int_def)
  with p show ?thesis by blast
qed


text \<open>
  The read path takes the block size of the configuration, not the one recorded with the object:
  once the configured size has grown past the object, a read of the whole object returns its first
  block alone, and no error.
\<close>

lemma get_after_block_size_grew:
  assumes "0 < bs" and "bs < length src" and "int (length src) \<le> default_block_size (rc_BlockSize cfg)"
    and "fi_Size fi = int (length src)" and "fi_Blocks fi = block_refs bs src 0"
    and "ReadBlock (hashBlockData (chunk bs src 0)) disks = Inr (chunk bs src 0)"
  shows "getBlockReplicatedObject cfg fi disks 0 (int (length src)) = Some (take bs src, None)"
proof -
  let ?B = "default_block_size (rc_BlockSize cfg)"
  have ne: "src \<noteq> []" using assms(1,2) by auto
  define B where "B = nat ?B"
  have B: "?B = int B" using default_block_size_pos [of "rc_BlockSize cfg"] by (simp add: B_def)
  have e: "int (length src) - 1 = int (length src - 1)" using ne by (simp add: of_nat_diff Suc_le_eq)
  have r: "BlockRange (NewBlockReplicator ?B f) 0 (int (length src)) (int (length src)) = Some (0, 0)" for f
  proof -
    have "length src \<le> B" using assms(3) unfolding B by simp
    then have "int (length src - 1) sdiv int B = 0" using ne unfolding sdiv_nat
      by (cases src) (simp_all add: div_less)
    moreover have "0 < B" using \<open>length src \<le> B\<close> ne by (cases B) auto
    ultimately show ?thesis
      using ne unfolding BlockRange_def NewBlockReplicator_def Let_def B add_0 e by simp
  qed
  have c: "chunk bs src 0 = take bs src" by (simp add: chunk_def)
  have n: "read_blocks ?B disks bl 0 l 0 1 out = Some (out, None)" for bl l out
    by (subst read_blocks.simps) simp
  have "blockSliceBounds 0 0 (int (length src)) 0 (int bs) = Some (0, int bs)"
    using assms(2) by (simp add: blockSliceBounds_def)
  then have "read_blocks ?B disks (block_refs bs src 0) 0 (int (length src)) 0 0 [] = Some (take bs src, None)"
    using assms(2,6)
    by (subst read_blocks.simps) (simp add: block_refs_Cons [OF assms(1) ne] n c go_slice_def go_nth_def)
  then show ?thesis by (simp add: getBlockReplicatedObject_def assms(4,5) r)
qed

theorem HealBlock_count_witness:
  "HealBlock (hashBlockData [5]) [None, Some \<lparr>bd_blocks = [hashBlockData [5] \<mapsto> [5]], bd_fault = None\<rparr>]
     (None # sample_drives) =
   (None # replicate 3 (Some \<lparr>bd_blocks = [hashBlockData [5] \<mapsto> [5]], bd_fault = None\<rparr>), Inr 3) \<and>
   length (filter (copy_on (hashBlockData [5]))
     (None # replicate 3 (Some \<lparr>bd_blocks = [hashBlockData [5] \<mapsto> [5]], bd_fault = None\<rparr>))) = 3"
proof -
  have ok: "drives_ok (None # sample_drives)" by (simp add: drives_ok_def sample_drives_def store_ok_def)
  have h: "HealBlock (hashBlockData [5]) [None, Some \<lparr>bd_blocks = [hashBlockData [5] \<mapsto> [5]], bd_fault = None\<rparr>]
     (None # sample_drives) =
   (None # replicate 3 (Some \<lparr>bd_blocks = [hashBlockData [5] \<mapsto> [5]], bd_fault = None\<rparr>), Inr 3)"
    by (simp add: HealBlock_def ReadBlock_def xl_ReadBlock_def verifyBlockHash_def sample_drives_def
        xl_WriteBlock_def numeral_3_eq_3)
  show ?thesis using HealBlock_count [OF ok h] h by simp
qed

end
