(* ===== verification/XL_Format.thy ===== *)
theory XL_Format
  imports XL_Journal
begin

text \<open>
  The metadata file of an object: \<open>checkXL2V1\<close>, \<open>Load\<close>, \<open>AppendTo\<close> and \<open>xlMetaV2TrimData\<close> of
  \<^verbatim>\<open>cmd/xl-storage-format-v2.go\<close>, and \<open>getFileInfo\<close> and \<open>getFileInfoVersions\<close> of
  \<^verbatim>\<open>cmd/xl-storage-format-utils.go\<close>.

  The encoding of the journal itself is generated code, and the checksum is that of
  \<^verbatim>\<open>github.com/minio/highwayhash\<close>; with the MessagePack integers they are the fields of
  \<open>xl_codec\<close>, and \<open>xl_codec_laws\<close> says what is relied on.
\<close>

record xl_codec =
  xc_lib :: xl_lib
  MarshalMsg :: "xlMetaV2Version list \<Rightarrow> goerr + nat list"
  UnmarshalMsg :: "nat list \<Rightarrow> goerr + xlMetaV2Version list"
  ReadUint32Bytes :: "nat list \<Rightarrow> nat \<times> nat list \<times> goerr option"
  EncUint32 :: "nat \<Rightarrow> nat list"
  Sum64 :: "nat list \<Rightarrow> nat"
  unmarshal_v1 :: "nat list \<Rightarrow> xlMetaV1Object option"

abbreviation xc_msgp :: "xl_codec \<Rightarrow> msgp" where
  "xc_msgp C \<equiv> xl_msgp (xc_lib C)"

subsection \<open>The header\<close>

definition xlHeader :: "nat list" where
  "xlHeader = [88, 76, 50, 32]"

definition xlVersionMajor :: nat where
  "xlVersionMajor = 1"

definition xlVersionMinor :: nat where
  "xlVersionMinor = 2"

definition xlVersionCurrent :: "nat list" where
  "xlVersionCurrent = [xlVersionMajor mod 256, xlVersionMajor div 256, xlVersionMinor mod 256, xlVersionMinor div 256]"

text \<open>The payload, the major and the minor version, and the error.\<close>

definition checkXL2V1 :: "nat list \<Rightarrow> nat list \<times> nat \<times> nat \<times> goerr option" where
  "checkXL2V1 buf =
     (if length buf \<le> 8 then ([], 0, 0, Some (ErrorsNew ''xlMeta: no data''))
      else if take 4 buf \<noteq> xlHeader then ([], 0, 0, Some (ErrorsNew ''xlMeta: unknown XLv2 header''))
      else
        let (major, minor) = (if take 4 (drop 4 buf) = [49, 32, 32, 32] then (1, 0)
              else (buf ! 4 + 256 * buf ! 5, buf ! 6 + 256 * buf ! 7))
        in if major > xlVersionMajor
           then (drop 8 buf, major, minor, Some (ErrorsNew ''xlMeta: unknown major version''))
           else (drop 8 buf, major, minor, None))"

definition isXL2V1Format :: "nat list \<Rightarrow> bool" where
  "isXL2V1Format buf = (case checkXL2V1 buf of (_, _, _, err) \<Rightarrow> err = None)"

subsection \<open>Loading and writing\<close>

definition Load_data :: "xl_codec \<Rightarrow> nat list \<Rightarrow> nat list option" where
  "Load_data C data =
     (if inline_validate (xc_msgp C) data \<noteq> None then inline_repair (xc_msgp C) data else Some data)"

definition Load :: "xl_codec \<Rightarrow> xlMetaV2 \<Rightarrow> nat list \<Rightarrow> (xlMetaV2 \<times> goerr option) option" where
  "Load C z buf =
     (case checkXL2V1 buf of
        (_, _, _, Some err) \<Rightarrow> Some (z, Some (Wrapped 10 err))
      | (buf, major, minor, None) \<Rightarrow>
          if major \<noteq> 1 then Some (z, Some (ErrorsNew ''unknown major metadata version''))
          else if minor = 0 then
            (case UnmarshalMsg C buf of
               Inl err \<Rightarrow> Some (z, Some (Wrapped 11 err))
             | Inr vs \<Rightarrow> Some (z\<lparr>xm_Versions := vs\<rparr>, None))
          else if minor = 1 \<or> minor = 2 then
            (case ReadBytesZC (xc_msgp C) buf of
               (_, _, Some err) \<Rightarrow> Some (z, Some (Wrapped 12 err))
             | (v, buf, None) \<Rightarrow>
                 let v = val_bytes v;
                     (buf', bad) = (if minor \<ge> 2 then
                        (case ReadUint32Bytes C buf of
                           (_, _, Some err) \<Rightarrow> (buf, Some (Wrapped 13 err))
                         | (crc, nbuf, None) \<Rightarrow>
                             (nbuf, if Sum64 C v mod 2 ^ 32 \<noteq> crc
                                    then Some (ErrorsNew ''xlMetaV2.Load: CRC mismatch'') else None))
                       else (buf, None))
                 in (case bad of
                       Some err \<Rightarrow> Some (z, Some err)
                     | None \<Rightarrow>
                         (case UnmarshalMsg C v of
                            Inl err \<Rightarrow> Some (z, Some (Wrapped 14 err))
                          | Inr vs \<Rightarrow>
                              map_option (\<lambda>data. (\<lparr>xm_Versions = vs, xm_data = data\<rparr>, None)) (Load_data C buf'))))
          else Some (z, Some (ErrorsNew ''unknown minor metadata version'')))"

definition AppendTo :: "xl_codec \<Rightarrow> xlMetaV2 \<Rightarrow> nat list \<Rightarrow> goerr + nat list" where
  "AppendTo C z dst =
     (case inline_validate (xc_msgp C) (xm_data z) of
        Some err \<Rightarrow> Inl err
      | None \<Rightarrow>
          (case MarshalMsg C (xm_Versions z) of
             Inl err \<Rightarrow> Inl err
           | Inr body \<Rightarrow>
               Inr (dst @ xlHeader @ xlVersionCurrent @ (198 # be32 (length body mod 2 ^ 32)) @ body @
                 EncUint32 C (Sum64 C body mod 2 ^ 32) @ xm_data z)))"

text \<open>
  The code names the two version numbers the wrong way round: its \<open>min\<close> is the major and its \<open>maj\<close>
  the minor version.
\<close>

definition xlMetaV2TrimData :: "xl_codec \<Rightarrow> nat list \<Rightarrow> nat list" where
  "xlMetaV2TrimData C buf =
     (case checkXL2V1 buf of
        (_, _, _, Some err) \<Rightarrow> buf
      | (metaBuf, mn, mj, None) \<Rightarrow>
          if mj = 1 \<and> mn < 1 then buf
          else (case ReadBytesZC (xc_msgp C) metaBuf of
                  (_, _, Some err) \<Rightarrow> buf
                | (_, metaBuf, None) \<Rightarrow>
                    let metaBuf = (if mj > 1 \<or> mn \<ge> 2 then fst (snd (ReadUint32Bytes C metaBuf)) else metaBuf);
                        ends = length buf - length metaBuf
                    in if length metaBuf > length buf then buf else take ends buf))"

subsection \<open>File information from a metadata file\<close>

definition getFileInfo ::
  "xl_codec \<Rightarrow> (meta_map \<Rightarrow> string list) \<Rightarrow>
     ((xlMetaV2Version \<Rightarrow> xlMetaV2Version \<Rightarrow> bool) \<Rightarrow> xlMetaV2Version list \<Rightarrow> xlMetaV2Version list) \<Rightarrow>
     nat list \<Rightarrow> string \<Rightarrow> string \<Rightarrow> string \<Rightarrow> bool \<Rightarrow> (goerr + FileInfo) option" where
  "getFileInfo C keys srt xlMetaBuf volume path versionID data =
     (if isXL2V1Format xlMetaBuf then do {
        (z, err) \<leftarrow> Load C \<lparr>xm_Versions = [], xm_data = []\<rparr> xlMetaBuf;
        (case err of
           Some e \<Rightarrow> Some (Inl e)
         | None \<Rightarrow> do {
             r \<leftarrow> xlMetaV2_ToFileInfo (xc_lib C) keys srt z volume path versionID;
             (case r of
                Inl e \<Rightarrow> Some (Inl e)
              | Inr fi \<Rightarrow>
                  if \<not> data then Some (Inr fi)
                  else
                    let vid = (if fi_VersionID fi = [] then nullVersionID else fi_VersionID fi);
                        found = val_bytes (inline_find (xc_msgp C) (xm_data z) (map byte_of vid));
                        found' = (if found = []
                          then val_bytes (inline_find (xc_msgp C) (xm_data z) (map byte_of (fi_DataDir fi)))
                          else found)
                    in Some (Inr (fi\<lparr>fi_Data := found'\<rparr>)))
           })
      }
      else (case unmarshal_v1 C xlMetaBuf of
              None \<Rightarrow> Some (Inl errFileCorrupt)
            | Some m \<Rightarrow>
                (case v1_ToFileInfo volume path m of
                   Inl e \<Rightarrow> Some (Inl (if e = errFileNotFound \<and> versionID \<noteq> [] then errFileVersionNotFound else e))
                 | Inr fi \<Rightarrow> Some (Inr (fi\<lparr>fi_XLV1 := True\<rparr>)))))"

record FileInfoVersions =
  fv_Volume :: string
  fv_Name :: string
  fv_IsEmptyDir :: bool
  fv_LatestModTime :: gotime
  fv_Versions :: "FileInfo list"

definition getFileInfoVersions ::
  "xl_codec \<Rightarrow> (meta_map \<Rightarrow> string list) \<Rightarrow> ((FileInfo \<Rightarrow> FileInfo \<Rightarrow> bool) \<Rightarrow> FileInfo list \<Rightarrow> FileInfo list) \<Rightarrow>
     nat list \<Rightarrow> string \<Rightarrow> string \<Rightarrow> (goerr + FileInfoVersions) option" where
  "getFileInfoVersions C keys srt xlMetaBuf volume path =
     (if isXL2V1Format xlMetaBuf then do {
        (z, err) \<leftarrow> Load C \<lparr>xm_Versions = [], xm_data = []\<rparr> xlMetaBuf;
        (case err of
           Some e \<Rightarrow> Some (Inl e)
         | None \<Rightarrow> do {
             r \<leftarrow> ListVersions (xc_lib C) keys srt z volume path;
             Some (case r of
                     Inl e \<Rightarrow> Inl e
                   | Inr (versions, latest) \<Rightarrow>
                       Inr \<lparr>fv_Volume = volume, fv_Name = path, fv_IsEmptyDir = False,
                         fv_LatestModTime = latest, fv_Versions = versions\<rparr>)
           })
      }
      else (case unmarshal_v1 C xlMetaBuf of
              None \<Rightarrow> Some (Inl errFileCorrupt)
            | Some m \<Rightarrow>
                (case v1_ToFileInfo volume path m of
                   Inl e \<Rightarrow> Some (Inl e)
                 | Inr fi \<Rightarrow>
                     let fi' = fi\<lparr>fi_IsLatest := True, fi_XLV1 := True\<rparr>
                     in Some (Inr \<lparr>fv_Volume = volume, fv_Name = path, fv_IsEmptyDir = False,
                          fv_LatestModTime = fi_ModTime fi', fv_Versions = [fi']\<rparr>))))"

definition findVersionIndex :: "FileInfoVersions \<Rightarrow> string \<Rightarrow> int" where
  "findVersionIndex f v =
     (if v = [] then -1
      else case index_of (\<lambda>ver. fi_VersionID ver = v) 0 (fv_Versions f) of
             None \<Rightarrow> -1 | Some (i, _) \<Rightarrow> int i)"

subsection \<open>What was written is loaded\<close>

text \<open>
  The generated encoder is inverted by its decoder, \<open>bin 32\<close> is the MessagePack form the code
  writes by hand, and a 32-bit integer that was appended is read back.
\<close>

definition xl_codec_laws :: "xl_codec \<Rightarrow> bool" where
  "xl_codec_laws C \<longleftrightarrow> msgp_laws (xc_msgp C) \<and>
     (\<forall>v rest. length v < 2 ^ 32 \<longrightarrow>
        ReadBytesZC (xc_msgp C) (198 # be32 (length v) @ v @ rest) = (Some v, rest, None)) \<and>
     (\<forall>n rest. n < 2 ^ 32 \<longrightarrow> ReadUint32Bytes C (EncUint32 C n @ rest) = (n, rest, None)) \<and>
     (\<forall>vs b. MarshalMsg C vs = Inr b \<longrightarrow> UnmarshalMsg C b = Inr vs)"

lemma check_current:
  "checkXL2V1 (xlHeader @ xlVersionCurrent @ x # rest) = (x # rest, 1, 2, None)"
  by (simp add: checkXL2V1_def xlHeader_def xlVersionCurrent_def xlVersionMajor_def xlVersionMinor_def)

lemma AppendTo_shape:
  assumes "AppendTo C z [] = Inr buf" and "MarshalMsg C (xm_Versions z) = Inr body" and "length body < 2 ^ 32"
  shows "buf = xlHeader @ xlVersionCurrent @ (198 # be32 (length body)) @ body @
      EncUint32 C (Sum64 C body mod 2 ^ 32) @ xm_data z"
    and "inline_validate (xc_msgp C) (xm_data z) = None"
  using assms by (auto simp: AppendTo_def split: option.splits)

lemma Load_AppendTo:
  assumes "xl_codec_laws C" and "AppendTo C z [] = Inr buf" and "MarshalMsg C (xm_Versions z) = Inr body"
    and "length body < 2 ^ 32"
  shows "Load C z0 buf = Some (z, None)" and "isXL2V1Format buf"
proof -
  note b = AppendTo_shape [OF assms(2-4)]
  have c: "checkXL2V1 buf = (198 # be32 (length body) @ body @ EncUint32 C (Sum64 C body mod 2 ^ 32) @ xm_data z, 1, 2, None)"
    using check_current b(1) by simp
  have r: "ReadBytesZC (xc_msgp C) (198 # be32 (length body) @ body @ EncUint32 C (Sum64 C body mod 2 ^ 32) @ xm_data z)
      = (Some body, EncUint32 C (Sum64 C body mod 2 ^ 32) @ xm_data z, None)"
    using assms(1,4) unfolding xl_codec_laws_def by blast
  have u: "ReadUint32Bytes C (EncUint32 C (Sum64 C body mod 2 ^ 32) @ xm_data z) = (Sum64 C body mod 2 ^ 32, xm_data z, None)"
    using assms(1) unfolding xl_codec_laws_def by simp
  have m: "UnmarshalMsg C body = Inr (xm_Versions z)" using assms(1,3) unfolding xl_codec_laws_def by blast
  show "Load C z0 buf = Some (z, None)"
    unfolding Load_def c prod.case option.case r
    by (simp add: u [simplified] m val_bytes_def Load_data_def b(2))
  show "isXL2V1Format buf" by (simp add: isXL2V1Format_def c)
qed


subsection \<open>Damaged files\<close>

lemma checkXL2V1_payload:
  "checkXL2V1 buf = (p, mj, mn, None) \<Longrightarrow> length p \<le> length buf"
  by (auto simp: checkXL2V1_def Let_def split: if_splits)

text \<open>
  (C29) Whatever bytes a metadata file holds, the inline data of a successfully loaded journal
  passes validation, so the operations on it do not meet a malformed buffer.
\<close>

theorem Load_inline_valid:
  assumes "msgp_laws (xc_msgp C)" and "\<forall>b n r. ReadUint32Bytes C b = (n, r, None) \<longrightarrow> length r \<le> length b"
    and "length buf < 2 ^ 32" and "Load C \<lparr>xm_Versions = [], xm_data = []\<rparr> buf = Some (z, None)"
  shows "inline_validate (xc_msgp C) (xm_data z) = None"
proof -
  obtain p mj mn e where c: "checkXL2V1 buf = (p, mj, mn, e)" by (cases "checkXL2V1 buf")
  have e: "e = None" and mj: "mj = 1" using assms(4) by (auto simp: Load_def c split: option.splits if_splits)
  have pl: "length p \<le> length buf" using checkXL2V1_payload c e by simp
  show ?thesis
  proof (cases "mn = 0")
    case True
    then have "xm_data z = []" using assms(4) by (auto simp: Load_def c e mj split: sum.splits)
    then show ?thesis by (simp add: inline_validate_def)
  next
    case False
    then have mn: "mn = 1 \<or> mn = 2" using assms(4) by (auto simp: Load_def c e mj split: if_splits)
    obtain v b err where r: "ReadBytesZC (xc_msgp C) p = (v, b, err)" by (cases "ReadBytesZC (xc_msgp C) p")
    have err: "err = None" using assms(4) mn by (auto simp: Load_def c e mj r split: option.splits)
    have bl: "length b \<le> length p" using msgp_bounds(3) [OF assms(1)] r err by blast
    obtain n nb ne where u: "ReadUint32Bytes C b = (n, nb, ne)" by (cases "ReadUint32Bytes C b")
    have "\<exists>d. length d \<le> length b \<and> Load_data C d = Some (xm_data z)"
    proof (cases "mn = 1")
      case True
      then have "Load_data C b = Some (xm_data z)"
        using assms(4) by (auto simp: Load_def Let_def c e mj r err split: sum.splits)
      then show ?thesis by blast
    next
      case False
      then have mn2: "mn = 2" using mn by simp
      have ne: "ne = None" using assms(4) by (auto simp: Load_def Let_def c e mj mn2 r err u split: option.splits)
      have "Load_data C nb = Some (xm_data z)"
        using assms(4) by (auto simp: Load_def Let_def c e mj mn2 r err u ne split: sum.splits if_splits)
      moreover have "length nb \<le> length b" using assms(2) u ne by blast
      ultimately show ?thesis by blast
    qed
    then obtain d where d: "length d \<le> length b" "Load_data C d = Some (xm_data z)" by blast
    then have "length d < 2 ^ 32" using bl pl assms(3) by linarith
    then show ?thesis
      using d(2) repair_valid [OF assms(1)] by (fastforce simp: Load_data_def split: if_splits)
  qed
qed

subsection \<open>A version through the file\<close>

lemma AddVersion_data:
  assumes "AddVersion L z fi = Some (z', None)" and "vid = (if fi_VersionID fi = [] then nullVersionID else fi_VersionID fi)"
    and "\<not> fi_Deleted fi" and "fi_Data fi \<noteq> []"
  shows "inline_replace (xl_msgp L) (xm_data z) (map byte_of vid) (fi_Data fi) = Some (xm_data z')"
proof -
  note a = assms(1) [unfolded AddVersion_def Let_def, folded assms(2)]
  obtain uv where uv: "version_uuid L vid = Inr uv" using a by (cases "version_uuid L vid") auto
  obtain dd where dd: "(if fi_DataDir fi \<noteq> [] then uuid_Parse L (fi_DataDir fi) else Inr uuid_Nil) = Inr dd"
    using a uv by (cases "if fi_DataDir fi \<noteq> [] then uuid_Parse L (fi_DataDir fi) else Inr uuid_Nil") auto
  obtain d where d: "inline_replace (xl_msgp L) (xm_data z) (map byte_of vid) (fi_Data fi) = Some d"
    using inline_replace_total by blast
  have "if Version_Valid (new_version L fi uv dd)
      then (case add_loop vid uv (new_version L fi uv dd) (xm_Versions z) of
              Inl err \<Rightarrow> False | Inr vs \<Rightarrow> z' = \<lparr>xm_Versions = vs, xm_data = d\<rparr>) else False"
    using a unfolding uv dd sum.case using assms(3,4) d by (auto split: sum.splits if_splits)
  then show ?thesis using d by (auto split: if_splits sum.splits)
qed


subsection \<open>A concrete codec\<close>

text \<open>The generated encoder is instantiated on the journal with one given version.\<close>

definition sample_inline :: FileInfo where
  "sample_inline = (sample_version [] [] 5)\<lparr>fi_Data := [4, 5]\<rparr>"

definition sample_entries :: "xlMetaV2Version list" where
  "sample_entries = [new_version sample_lib sample_inline uuid_Nil uuid_Nil]"

definition sample_codec :: xl_codec where
  "sample_codec = \<lparr>xc_lib = sample_lib,
     MarshalMsg = (\<lambda>vs. if vs = sample_entries then Inr [1] else if vs = [] then Inr [2] else Inl (ErrorsNew ''msgp'')),
     UnmarshalMsg = (\<lambda>b. if b = [1] then Inr sample_entries else if b = [2] then Inr [] else Inl (ErrorsNew ''msgp'')),
     ReadUint32Bytes = (\<lambda>b. case read32 206 b of Some (n, r) \<Rightarrow> (n, r, None) | None \<Rightarrow> (0, b, Some (ErrorsNew ''msgp''))),
     EncUint32 = (\<lambda>n. 206 # be32 n), Sum64 = sum_list, unmarshal_v1 = (\<lambda>_. None)\<rparr>"

lemma sample_codec_laws: "xl_codec_laws sample_codec"
proof -
  have "sample_entries \<noteq> []" by (simp add: sample_entries_def)
  then show ?thesis
    by (auto simp: xl_codec_laws_def sample_codec_def sample_lib_def wide_msgp_laws read32_be32)
      (simp add: wide_msgp_def read_blob_enc)
qed

lemma sample_uint32:
  "\<forall>b n r. ReadUint32Bytes sample_codec b = (n, r, None) \<longrightarrow> length r \<le> length b"
  by (auto simp: sample_codec_def split: option.splits dest: read32_bounds)


theorem Load_inline_valid_witness:
  "\<exists>z. Load sample_codec \<lparr>xm_Versions = [], xm_data = []\<rparr>
       (xlHeader @ [1, 0, 1, 0, 198, 0, 0, 0, 1, 2, 1, 9]) = Some (z, None) \<and>
     inline_validate (xc_msgp sample_codec) (xm_data z) = None"
proof -
  let ?buf = "xlHeader @ [1, 0, 1, 0, 198, 0, 0, 0, 1, 2, 1, 9]"
  have c: "checkXL2V1 ?buf = ([198, 0, 0, 0, 1, 2, 1, 9], 1, 1, None)"
    by (simp add: checkXL2V1_def xlHeader_def xlVersionMajor_def)
  have m: "msgp_laws (xc_msgp sample_codec)" by (simp add: sample_codec_def sample_lib_def wide_msgp_laws)
  have r: "ReadBytesZC (xc_msgp sample_codec) [198, 0, 0, 0, 1, 2, 1, 9] = (Some [2], [1, 9], None)"
    by (simp add: sample_codec_def sample_lib_def wide_msgp_def read_blob_def read32_def of_be32_def)
  obtain d where d: "Load_data sample_codec [1, 9] = Some d"
    using repair_valid [OF m, of "[1, 9]"]
    by (cases "inline_validate (xc_msgp sample_codec) [1, 9]") (auto simp: Load_data_def)
  have u: "UnmarshalMsg sample_codec [2] = Inr []" by (simp add: sample_codec_def)
  have l: "Load sample_codec \<lparr>xm_Versions = [], xm_data = []\<rparr> ?buf = Some (\<lparr>xm_Versions = [], xm_data = d\<rparr>, None)"
    unfolding Load_def c prod.case option.case r by (simp add: val_bytes_def d [simplified] u)
  show ?thesis using l Load_inline_valid [OF m sample_uint32 _ l] by (auto simp: xlHeader_def)
qed


end
