(* ===== verification/Local_Locker.thy ===== *)
theory Local_Locker
  imports File_Info
begin

text \<open>
  The lock server of a node: \<^verbatim>\<open>localLocker\<close> of \<^verbatim>\<open>cmd/local-locker.go\<close> with every operation
  of the \<^verbatim>\<open>NetLocker\<close> interface (\<^verbatim>\<open>pkg/dsync/rpc-client-interface.go\<close>). The state is the
  lock map; each operation runs under the mutex of the locker and is one function here. The clock
  (\<open>UTCNow\<close>) and the error of the context, if it is done, are inputs. \<open>None\<close> is the panic of an
  index into an empty slice of resources.
\<close>

record LockArgs =
  la_UID :: string
  la_Resources :: "string list"
  la_Source :: string
  la_Owner :: string
  la_Quorum :: int

record lockRequesterInfo =
  lr_Name :: string
  lr_Writer :: bool
  lr_UID :: string
  lr_Timestamp :: gotime
  lr_TimeLastRefresh :: gotime
  lr_Source :: string
  lr_Group :: bool
  lr_Owner :: string
  lr_Quorum :: int

type_synonym lock_map = "string \<rightharpoonup> lockRequesterInfo list"

definition errUnlockRead :: goerr where
  "errUnlockRead = ErrorsNew ''unlock attempted on a read locked entity''"

definition errRUnlockWrite :: goerr where
  "errRUnlockWrite = ErrorsNew ''RUnlock attempted on a write locked entity''"

definition errForceUID :: goerr where
  "errForceUID = ErrorsNew ''forceUnlock called with non-empty UID''"

definition entries_of :: "lock_map \<Rightarrow> string \<Rightarrow> lockRequesterInfo list" where
  "entries_of m r = (case m r of None \<Rightarrow> [] | Some lri \<Rightarrow> lri)"

definition isWriteLock :: "lockRequesterInfo list \<Rightarrow> bool" where
  "isWriteLock lri \<longleftrightarrow> length lri = 1 \<and> lr_Writer (lri ! 0)"

definition canTakeUnlock :: "lock_map \<Rightarrow> string list \<Rightarrow> bool" where
  "canTakeUnlock m resources \<longleftrightarrow>
     length (filter (\<lambda>r. isWriteLock (entries_of m r)) resources) = length resources"

definition canTakeLock :: "lock_map \<Rightarrow> string list \<Rightarrow> bool" where
  "canTakeLock m resources \<longleftrightarrow> length (filter (\<lambda>r. m r = None) resources) = length resources"

definition write_info :: "gotime \<Rightarrow> LockArgs \<Rightarrow> string \<Rightarrow> lockRequesterInfo" where
  "write_info now args resource =
     \<lparr>lr_Name = resource, lr_Writer = True, lr_UID = la_UID args, lr_Timestamp = now,
      lr_TimeLastRefresh = now, lr_Source = la_Source args, lr_Group = length (la_Resources args) > 1,
      lr_Owner = la_Owner args, lr_Quorum = la_Quorum args\<rparr>"

definition Lock :: "gotime \<Rightarrow> lock_map \<Rightarrow> LockArgs \<Rightarrow> lock_map \<times> bool" where
  "Lock now m args =
     (if \<not> canTakeLock m (la_Resources args) then (m, False)
      else (fold (\<lambda>r m. m(r \<mapsto> [write_info now args r])) (la_Resources args) m, True))"

text \<open>The entry of a lock request, and the loop that removes it.\<close>

definition is_entry :: "LockArgs \<Rightarrow> lockRequesterInfo \<Rightarrow> bool" where
  "is_entry args e \<longleftrightarrow> lr_UID e = la_UID args \<and> lr_Owner e = la_Owner args"

fun remove_first :: "('a \<Rightarrow> bool) \<Rightarrow> 'a list \<Rightarrow> 'a list" where
  "remove_first P [] = []"
| "remove_first P (x # xs) = (if P x then xs else x # remove_first P xs)"

text \<open>The map, the caller's slice and the result.\<close>

definition removeEntry ::
  "lock_map \<Rightarrow> string \<Rightarrow> LockArgs \<Rightarrow> lockRequesterInfo list \<Rightarrow> lock_map \<times> lockRequesterInfo list \<times> bool" where
  "removeEntry m name args lri =
     (if list_ex (is_entry args) lri then
        (if length lri = 1 then (m(name := None), lri, True)
         else let lri' = remove_first (is_entry args) lri in (m(name \<mapsto> lri'), lri', True))
      else (m, lri, False))"

definition unlock_one :: "LockArgs \<Rightarrow> string \<Rightarrow> lock_map \<Rightarrow> lock_map" where
  "unlock_one args r m = (case m r of None \<Rightarrow> m | Some lri \<Rightarrow> fst (removeEntry m r args lri))"

definition Unlock :: "lock_map \<Rightarrow> LockArgs \<Rightarrow> lock_map \<times> bool \<times> goerr option" where
  "Unlock m args =
     (if \<not> canTakeUnlock m (la_Resources args) then (m, False, Some errUnlockRead)
      else (fold (unlock_one args) (la_Resources args) m, True, None))"

definition RLock :: "gotime \<Rightarrow> lock_map \<Rightarrow> LockArgs \<Rightarrow> (lock_map \<times> bool) option" where
  "RLock now m args =
     (case la_Resources args of
        [] \<Rightarrow> None
      | resource # _ \<Rightarrow>
          let lrInfo = (write_info now args resource)\<lparr>lr_Writer := False, lr_Group := False\<rparr>
          in Some (case m resource of
                     Some lri \<Rightarrow> if \<not> isWriteLock lri then (m(resource \<mapsto> lri @ [lrInfo]), True) else (m, False)
                   | None \<Rightarrow> (m(resource \<mapsto> [lrInfo]), True)))"

definition RUnlock :: "lock_map \<Rightarrow> LockArgs \<Rightarrow> (lock_map \<times> bool \<times> goerr option) option" where
  "RUnlock m args =
     (case la_Resources args of
        [] \<Rightarrow> None
      | resource # _ \<Rightarrow>
          Some (case m resource of
                  None \<Rightarrow> (m, True, None)
                | Some lri \<Rightarrow>
                    if isWriteLock lri then (m, False, Some errRUnlockWrite)
                    else (fst (removeEntry m resource args lri), True, None)))"

definition ForceUnlock :: "goerr option \<Rightarrow> lock_map \<Rightarrow> LockArgs \<Rightarrow> lock_map \<times> bool \<times> goerr option" where
  "ForceUnlock ctxErr m args =
     (case ctxErr of
        Some err \<Rightarrow> (m, False, Some err)
      | None \<Rightarrow>
          if la_UID args \<noteq> [] then (m, False, Some errForceUID)
          else (fold (\<lambda>r m. m(r := None)) (la_Resources args) m, True, None))"

fun refresh_first :: "gotime \<Rightarrow> LockArgs \<Rightarrow> lockRequesterInfo list \<Rightarrow> lockRequesterInfo list" where
  "refresh_first now args [] = []"
| "refresh_first now args (e # es) =
     (if is_entry args e then e\<lparr>lr_TimeLastRefresh := now\<rparr> # es else e # refresh_first now args es)"

definition Refresh ::
  "gotime \<Rightarrow> goerr option \<Rightarrow> lock_map \<Rightarrow> LockArgs \<Rightarrow> (lock_map \<times> bool \<times> goerr option) option" where
  "Refresh now ctxErr m args =
     (case ctxErr of
        Some err \<Rightarrow> Some (m, False, Some err)
      | None \<Rightarrow>
          (case la_Resources args of
             [] \<Rightarrow> None
           | resource # _ \<Rightarrow>
               Some (case m resource of
                       None \<Rightarrow> (m, False, None)
                     | Some lri \<Rightarrow>
                         if list_ex (is_entry args) lri
                         then (m(resource \<mapsto> refresh_first now args lri), True, None)
                         else (m, False, None))))"

text \<open>
  The inner loop of \<open>expireOldLocks\<close> ranges over a slice whose array \<open>removeEntry\<close> shifts in place:
  \<open>arr\<close> is that array, \<open>cur\<close> the slice of the entries that are left, a prefix of it. The loop reads
  the array at the positions of the original slice.
\<close>

fun expire_loop ::
  "gotime \<Rightarrow> int \<Rightarrow> nat \<Rightarrow> nat \<Rightarrow> lockRequesterInfo list \<Rightarrow> lockRequesterInfo list \<Rightarrow> lock_map \<Rightarrow> lock_map" where
  "expire_loop now interval 0 i arr cur m = m"
| "expire_loop now interval (Suc n) i arr cur m =
     (let lri = arr ! i in
      if now - lr_TimeLastRefresh lri > interval then
        (case removeEntry m (lr_Name lri)
               \<lparr>la_UID = lr_UID lri, la_Resources = [], la_Source = [], la_Owner = lr_Owner lri, la_Quorum = 0\<rparr> cur of
           (m', cur', _) \<Rightarrow>
             expire_loop now interval n (Suc i) (cur' @ drop (length cur') arr) cur' m')
      else expire_loop now interval n (Suc i) arr cur m)"

definition expire_key :: "gotime \<Rightarrow> int \<Rightarrow> string \<Rightarrow> lock_map \<Rightarrow> lock_map" where
  "expire_key now interval k m =
     (case m k of None \<Rightarrow> m | Some lris \<Rightarrow> expire_loop now interval (length lris) 0 lris lris m)"

definition expireOldLocks :: "string list \<Rightarrow> gotime \<Rightarrow> int \<Rightarrow> lock_map \<Rightarrow> lock_map" where
  "expireOldLocks keys now interval m = fold (expire_key now interval) keys m"

subsection \<open>The invariant of a lock map\<close>

text \<open>
  Each locked resource has entries under its own name: one writer, or readers only.
\<close>

definition entries_wf :: "string \<Rightarrow> lockRequesterInfo list \<Rightarrow> bool" where
  "entries_wf r es \<longleftrightarrow> es \<noteq> [] \<and> (\<forall>e \<in> set es. lr_Name e = r) \<and>
     ((\<exists>e. es = [e] \<and> lr_Writer e) \<or> (\<forall>e \<in> set es. \<not> lr_Writer e))"

definition locker_wf :: "lock_map \<Rightarrow> bool" where
  "locker_wf m \<longleftrightarrow> (\<forall>r es. m r = Some es \<longrightarrow> entries_wf r es)"

lemma locker_wf_empty [simp]: "locker_wf Map.empty"
  by (simp add: locker_wf_def)

lemma locker_wfD: "locker_wf m \<Longrightarrow> m r = Some es \<Longrightarrow> entries_wf r es"
  by (simp add: locker_wf_def)

lemma locker_wf_upd [intro]: "locker_wf m \<Longrightarrow> entries_wf r es \<Longrightarrow> locker_wf (m(r \<mapsto> es))"
  and locker_wf_del [intro]: "locker_wf m \<Longrightarrow> locker_wf (m(r := None))"
  by (simp_all add: locker_wf_def)

lemma isWriteLock_wf: "entries_wf r es \<Longrightarrow> isWriteLock es \<longleftrightarrow> (\<exists>e. es = [e] \<and> lr_Writer e)"
  by (auto simp: isWriteLock_def length_Suc_conv)

lemma reader_wf: "entries_wf r es \<Longrightarrow> \<not> isWriteLock es \<Longrightarrow> e \<in> set es \<Longrightarrow> \<not> lr_Writer e"
  by (auto simp: entries_wf_def isWriteLock_def)

lemma filter_all_length: "length (filter P xs) = length xs \<longleftrightarrow> (\<forall>x \<in> set xs. P x)"
proof (induction xs)
  case (Cons x xs)
  have "length (filter P xs) \<noteq> Suc (length xs)" using length_filter_le [of P xs] by linarith
  with Cons show ?case by simp
qed simp

lemma canTakeLock_iff: "canTakeLock m rs \<longleftrightarrow> (\<forall>r \<in> set rs. m r = None)"
  by (simp add: canTakeLock_def filter_all_length)

lemma canTakeUnlock_iff: "canTakeUnlock m rs \<longleftrightarrow> (\<forall>r \<in> set rs. isWriteLock (entries_of m r))"
  by (simp add: canTakeUnlock_def filter_all_length)

lemma remove_first_set: "set (remove_first P xs) \<subseteq> set xs"
  by (induction xs) auto

lemma remove_first_keeps: "x \<in> set xs \<Longrightarrow> \<not> P x \<Longrightarrow> x \<in> set (remove_first P xs)"
  by (induction xs) auto

lemma remove_first_length: "list_ex P xs \<Longrightarrow> length (remove_first P xs) = length xs - 1"
proof (induction xs)
  case (Cons x xs)
  then show ?case by (cases xs) auto
qed simp

lemma removeEntry_wf:
  assumes "locker_wf m" and "entries_wf r es" and "removeEntry m r args es = (m', es', b)"
  shows "locker_wf m' \<and> entries_wf r es'"
proof (cases "list_ex (is_entry args) es \<and> length es \<noteq> 1")
  case False
  then show ?thesis using assms by (auto simp: removeEntry_def split: if_splits)
next
  case True
  let ?es = "remove_first (is_entry args) es"
  have "es \<noteq> []" using assms(2) by (simp add: entries_wf_def)
  then have "?es \<noteq> []" using True remove_first_length [of "is_entry args" es] by (cases es) auto
  moreover have "\<forall>e \<in> set es. \<not> lr_Writer e" using assms(2) True by (auto simp: entries_wf_def)
  ultimately have "entries_wf r ?es"
    using assms(2) remove_first_set [of "is_entry args" es] by (auto simp: entries_wf_def)
  then show ?thesis using assms(1,3) True by (auto simp: removeEntry_def Let_def)
qed


lemma fold_inv:
  "P s \<Longrightarrow> (\<And>x s. x \<in> set xs \<Longrightarrow> P s \<Longrightarrow> P (f x s)) \<Longrightarrow> P (fold f xs s)"
  by (induction xs arbitrary: s) auto

lemma Lock_wf: "locker_wf m \<Longrightarrow> locker_wf (fst (Lock now m args))"
proof -
  assume m: "locker_wf m"
  have "entries_wf r [write_info now args r]" for r by (simp add: entries_wf_def write_info_def)
  then have "locker_wf (fold (\<lambda>r m. m(r \<mapsto> [write_info now args r])) (la_Resources args) m)"
    by (intro fold_inv [of locker_wf] m locker_wf_upd)
  then show ?thesis using m by (simp add: Lock_def)
qed

lemma unlock_one_wf: "locker_wf m \<Longrightarrow> locker_wf (unlock_one args r m)"
proof (cases "m r")
  case (Some es)
  assume m: "locker_wf m"
  obtain m' es' b where e: "removeEntry m r args es = (m', es', b)" by (cases "removeEntry m r args es")
  show ?thesis
    using removeEntry_wf [OF m locker_wfD [OF m Some] e] Some by (simp add: unlock_one_def e)
qed (simp add: unlock_one_def)

lemma Unlock_wf: "locker_wf m \<Longrightarrow> locker_wf (fst (Unlock m args))"
  using fold_inv [of locker_wf m "la_Resources args" "unlock_one args"] unlock_one_wf by (auto simp: Unlock_def)

lemma append_reader_wf:
  "entries_wf r es \<Longrightarrow> \<not> isWriteLock es \<Longrightarrow> lr_Name e = r \<Longrightarrow> \<not> lr_Writer e \<Longrightarrow> entries_wf r (es @ [e])"
proof -
  assume wf: "entries_wf r es" and n: "\<not> isWriteLock es" and e: "lr_Name e = r" "\<not> lr_Writer e"
  have "\<forall>x \<in> set es. \<not> lr_Writer x" using reader_wf [OF wf n] by blast
  then show ?thesis using wf e by (simp add: entries_wf_def)
qed

lemma RLock_wf: "locker_wf m \<Longrightarrow> RLock now m args = Some (m', b) \<Longrightarrow> locker_wf m'"
proof -
  assume m: "locker_wf m" and r: "RLock now m args = Some (m', b)"
  then obtain res rest where rs: "la_Resources args = res # rest" by (auto simp: RLock_def split: list.splits)
  let ?e = "(write_info now args res)\<lparr>lr_Writer := False, lr_Group := False\<rparr>"
  have e: "lr_Name ?e = res" "\<not> lr_Writer ?e" by (simp_all add: write_info_def)
  show ?thesis
  proof (cases "m res")
    case None
    then have "m' = m(res \<mapsto> [?e])" using r by (simp add: RLock_def rs)
    moreover have "entries_wf res [?e]" using e by (simp add: entries_wf_def)
    ultimately show ?thesis using m by auto
  next
    case (Some es)
    then have "m' = m \<or> (\<not> isWriteLock es \<and> m' = m(res \<mapsto> es @ [?e]))"
      using r by (auto simp: RLock_def rs split: if_splits)
    then show ?thesis
    proof (elim disjE conjE)
      assume "\<not> isWriteLock es" and m': "m' = m(res \<mapsto> es @ [?e])"
      then have "entries_wf res (es @ [?e])" using append_reader_wf [OF locker_wfD [OF m Some] _ e] by simp
      then show ?thesis using m by (simp add: m' locker_wf_upd)
    qed (simp add: m)
  qed
qed

lemma RUnlock_wf: "locker_wf m \<Longrightarrow> RUnlock m args = Some (m', r) \<Longrightarrow> locker_wf m'"
proof -
  assume m: "locker_wf m" and r: "RUnlock m args = Some (m', r)"
  then obtain res rest where rs: "la_Resources args = res # rest" by (auto simp: RUnlock_def split: list.splits)
  have "m' = m \<or> m' = unlock_one args res m"
    using r by (auto simp: RUnlock_def rs unlock_one_def split: option.splits if_splits)
  then show ?thesis using unlock_one_wf m by auto
qed

lemma ForceUnlock_wf: "locker_wf m \<Longrightarrow> locker_wf (fst (ForceUnlock e m args))"
  using fold_inv [of locker_wf m "la_Resources args" "\<lambda>r m. m(r := None)"]
  by (auto simp: ForceUnlock_def split: option.split)

lemma refresh_first_names:
  "map lr_Name (refresh_first now args es) = map lr_Name es"
  "map lr_Writer (refresh_first now args es) = map lr_Writer es"
  by (induction es) auto

lemma entries_wf_map:
  "entries_wf r es \<longleftrightarrow> es \<noteq> [] \<and> list_all (\<lambda>n. n = r) (map lr_Name es) \<and>
     (map lr_Writer es = [True] \<or> list_all Not (map lr_Writer es))"
  unfolding entries_wf_def list_all_iff
  by (cases es rule: list.exhaust [case_names Nil Cons], simp, cases "tl es", auto)

lemma refresh_first_wf: "entries_wf r es \<Longrightarrow> entries_wf r (refresh_first now args es)"
  unfolding entries_wf_map refresh_first_names by (cases es) auto

lemma Refresh_wf: "locker_wf m \<Longrightarrow> Refresh now e m args = Some (m', r) \<Longrightarrow> locker_wf m'"
proof -
  assume m: "locker_wf m" and r: "Refresh now e m args = Some (m', r)"
  then have "m' = m \<or> (\<exists>res es. m res = Some es \<and> m' = m(res \<mapsto> refresh_first now args es))"
    by (auto simp: Refresh_def split: option.splits list.splits if_splits)
  then show ?thesis
  proof (elim disjE exE conjE)
    fix res es assume "m res = Some es" and "m' = m(res \<mapsto> refresh_first now args es)"
    then show ?thesis using locker_wf_upd [OF m refresh_first_wf [OF locker_wfD [OF m]]] by simp
  qed (simp add: m)
qed

subsection \<open>Taking and giving back a lock\<close>

lemma fold_write_info:
  "fold (\<lambda>r m. m(r \<mapsto> [write_info now args r])) rs m x =
     (if x \<in> set rs then Some [write_info now args x] else m x)"
  by (induction rs arbitrary: m) auto

lemma is_entry_write_info [simp]: "is_entry args (write_info now args r)"
  by (simp add: is_entry_def write_info_def)

lemma write_info_Writer [simp]: "lr_Writer (write_info now args r)"
  by (simp add: write_info_def)

lemma Lock_granted_iff: "snd (Lock now m args) \<longleftrightarrow> (\<forall>r \<in> set (la_Resources args). m r = None)"
  by (auto simp: Lock_def canTakeLock_iff)

lemma Lock_refused: "\<not> snd (Lock now m args) \<Longrightarrow> fst (Lock now m args) = m"
  by (auto simp: Lock_def split: if_splits)

lemma Lock_granted:
  "Lock now m args = (m', True) \<Longrightarrow>
     m' x = (if x \<in> set (la_Resources args) then Some [write_info now args x] else m x)"
  by (auto simp: Lock_def fold_write_info split: if_splits)

text \<open>Releasing entries that are all of the request's own writers.\<close>

lemma unlock_one_own:
  "m r = Some [e] \<Longrightarrow> is_entry args e \<Longrightarrow> unlock_one args r m = m(r := None)"
  by (simp add: unlock_one_def removeEntry_def)

lemma unlock_one_none [simp]: "m r = None \<Longrightarrow> unlock_one args r m = m"
  by (simp add: unlock_one_def)

lemma unlock_one_other: "x \<noteq> r \<Longrightarrow> unlock_one args r m x = m x"
  by (simp add: unlock_one_def removeEntry_def Let_def split: option.split)

lemma fold_unlock_own:
  assumes "\<forall>r \<in> set rs. m r = None \<or> (\<exists>e. m r = Some [e] \<and> is_entry args e)"
  shows "fold (unlock_one args) rs m x = (if x \<in> set rs then None else m x)"
  using assms
proof (induction rs arbitrary: m)
  case (Cons r rs)
  have *: "unlock_one args r m = m(r := None)"
    using Cons.prems unlock_one_own [of m r _ args] by (cases "m r") auto
  have "\<forall>q \<in> set rs. (m(r := None)) q = None \<or> (\<exists>e. (m(r := None)) q = Some [e] \<and> is_entry args e)"
    using Cons.prems by auto
  then have "fold (unlock_one args) rs (m(r := None)) x = (if x \<in> set rs then None else (m(r := None)) x)"
    by (rule Cons.IH)
  then show ?case unfolding fold_simps * by auto
qed simp

lemma Lock_Unlock_back:
  assumes "Lock now m args = (m', True)"
  shows "Unlock m' args = (m, True, None)"
proof -
  note m' = Lock_granted [OF assms]
  have free: "\<forall>r \<in> set (la_Resources args). m r = None" using Lock_granted_iff [of now m args] assms by simp
  have "canTakeUnlock m' (la_Resources args)"
    by (simp add: canTakeUnlock_iff entries_of_def m' isWriteLock_def)
  moreover have "fold (unlock_one args) (la_Resources args) m' x = m x" for x
    using fold_unlock_own [of "la_Resources args" m' args x] free by (auto simp: m')
  ultimately show ?thesis by (auto simp: Unlock_def)
qed

lemma remove_first_append_last:
  "\<forall>x \<in> set xs. \<not> P x \<Longrightarrow> P y \<Longrightarrow> remove_first P (xs @ [y]) = xs"
  by (induction xs) auto

text \<open>The entry that \<open>RLock\<close> adds.\<close>

definition read_info :: "gotime \<Rightarrow> LockArgs \<Rightarrow> string \<Rightarrow> lockRequesterInfo" where
  "read_info now args r = (write_info now args r)\<lparr>lr_Writer := False, lr_Group := False\<rparr>"

lemma is_entry_read_info [simp]: "is_entry args (read_info now args r)"
  and read_info_Writer [simp]: "\<not> lr_Writer (read_info now args r)"
  by (simp_all add: is_entry_def read_info_def write_info_def)

lemma RLock_granted:
  assumes "RLock now m args = Some (m', True)" "la_Resources args = r # rs"
  shows "m' = m(r \<mapsto> entries_of m r @ [read_info now args r])"
    and "m r = Some es \<Longrightarrow> \<not> isWriteLock es"
  using assms by (auto simp: RLock_def entries_of_def read_info_def split: option.splits if_splits)

lemma RLock_RUnlock_back:
  assumes g: "RLock now m args = Some (m', True)" and wf: "locker_wf m"
    and fresh: "\<forall>r es. m r = Some es \<longrightarrow> (\<forall>e \<in> set es. \<not> is_entry args e)"
  shows "RUnlock m' args = Some (m, True, None)"
proof -
  obtain r rs where rs: "la_Resources args = r # rs" using g by (auto simp: RLock_def split: list.splits)
  note m' = RLock_granted [OF g rs]
  let ?e = "read_info now args r"
  show ?thesis
  proof (cases "m r")
    case None
    then show ?thesis by (auto simp: RUnlock_def rs m'(1) entries_of_def isWriteLock_def removeEntry_def)
  next
    case (Some es)
    have es: "es \<noteq> []" using locker_wfD [OF wf Some] by (simp add: entries_wf_def)
    then have "length (es @ [?e]) \<noteq> 1" by simp
    moreover have "remove_first (is_entry args) (es @ [?e]) = es"
      by (rule remove_first_append_last) (use fresh Some in auto)
    moreover have "m(r \<mapsto> es) = m" using Some by auto
    ultimately show ?thesis using es
      by (simp add: RUnlock_def rs m'(1) entries_of_def Some isWriteLock_def removeEntry_def Let_def)
  qed
qed

subsection \<open>Expiry\<close>

definition expired :: "gotime \<Rightarrow> int \<Rightarrow> lockRequesterInfo \<Rightarrow> bool" where
  "expired now interval e \<longleftrightarrow> now - lr_TimeLastRefresh e > interval"

text \<open>
  While the loop runs, the map holds the slice of the remaining entries, or nothing when the last
  one has been deleted.
\<close>

definition expire_inv :: "string \<Rightarrow> lockRequesterInfo set \<Rightarrow> lockRequesterInfo list \<Rightarrow> lockRequesterInfo list \<Rightarrow> lock_map \<Rightarrow> bool" where
  "expire_inv k S arr cur m \<longleftrightarrow>
     locker_wf m \<and> entries_wf k cur \<and> set cur \<subseteq> S \<and> set arr \<subseteq> S \<and> length cur \<le> length arr \<and>
     (m k = Some cur \<or> m k = None \<and> length cur = 1)"

definition entry_args :: "lockRequesterInfo \<Rightarrow> LockArgs" where
  "entry_args e = \<lparr>la_UID = lr_UID e, la_Resources = [], la_Source = [], la_Owner = lr_Owner e, la_Quorum = 0\<rparr>"

lemma is_entry_self [simp]: "is_entry (entry_args e) e"
  by (simp add: is_entry_def entry_args_def)

lemma expire_loop_Suc:
  "expire_loop now interval (Suc n) i arr cur m =
     (if expired now interval (arr ! i) then
        (case removeEntry m (lr_Name (arr ! i)) (entry_args (arr ! i)) cur of
           (m', cur', _) \<Rightarrow> expire_loop now interval n (Suc i) (cur' @ drop (length cur') arr) cur' m')
      else expire_loop now interval n (Suc i) arr cur m)"
  by (simp add: Let_def expired_def entry_args_def)

lemma removeEntry_step:
  assumes inv: "expire_inv k S arr cur m" and r: "removeEntry m k args cur = (m', cur', b)"
  shows "expire_inv k S (cur' @ drop (length cur') arr) cur' m'"
    and "length cur' \<le> length cur" and "\<And>x. x \<noteq> k \<Longrightarrow> m' x = m x"
    and "set cur' \<subseteq> set cur"
proof -
  note i = inv [unfolded expire_inv_def]
  have wf: "locker_wf m' \<and> entries_wf k cur'" using removeEntry_wf [of m k cur args m' cur' b] i r by blast
  have s: "set cur' \<subseteq> set cur" and l: "length cur' \<le> length cur"
    using r remove_first_set [of "is_entry args" cur] remove_first_length [of "is_entry args" cur]
    by (auto simp: removeEntry_def Let_def split: if_splits)
  have "m' k = Some cur' \<or> m' k = None \<and> length cur' = 1"
    using r i by (auto simp: removeEntry_def Let_def split: if_splits)
  moreover have "set (drop (length cur') arr) \<subseteq> S" using i set_drop_subset [of "length cur'" arr] by blast
  ultimately show "expire_inv k S (cur' @ drop (length cur') arr) cur' m'"
    using i s l wf by (auto simp: expire_inv_def)
  show "length cur' \<le> length cur" by (rule l)
  show "set cur' \<subseteq> set cur" by (rule s)
  show "m' x = m x" if "x \<noteq> k" for x
    using r that by (auto simp: removeEntry_def Let_def split: if_splits)
qed

lemma length_expire_arr:
  "length cur' \<le> length cur \<Longrightarrow> length cur \<le> length arr \<Longrightarrow>
     length (cur' @ drop (length cur') arr) = length (arr :: 'a list)"
  by simp

lemma expire_loop_keeps:
  assumes "expire_inv k S arr cur m" and "i + n \<le> length arr" and "\<forall>e \<in> S. lr_Name e = k"
  shows "locker_wf (expire_loop now interval n i arr cur m) \<and>
    (\<forall>x. x \<noteq> k \<longrightarrow> expire_loop now interval n i arr cur m x = m x) \<and>
    length (entries_of (expire_loop now interval n i arr cur m) k) \<le> length (entries_of m k)"
  using assms
proof (induction n arbitrary: i arr cur m)
  case (Suc n)
  show ?case
  proof (cases "expired now interval (arr ! i)")
    case False
    then show ?thesis using Suc by (simp add: expire_loop_Suc del: expire_loop.simps(2))
  next
    case True
    have "arr ! i \<in> S" using nth_mem [of i arr] Suc.prems by (auto simp: expire_inv_def)
    then have nm: "lr_Name (arr ! i) = k" using Suc.prems(3) by blast
    obtain m' cur' b where r: "removeEntry m k (entry_args (arr ! i)) cur = (m', cur', b)"
      by (cases "removeEntry m k (entry_args (arr ! i)) cur")
    note st = removeEntry_step [OF Suc.prems(1) r]
    have len: "length (cur' @ drop (length cur') arr) = length arr"
      using st(2) Suc.prems(1) by (simp add: expire_inv_def)
    have le: "length (entries_of m' k) \<le> length (entries_of m k)"
      using st(2) Suc.prems(1) r
      by (auto simp: expire_inv_def entries_of_def removeEntry_def Let_def remove_first_length split: if_splits option.splits)
    have "Suc i + n \<le> length (cur' @ drop (length cur') arr)" using Suc.prems(2) len by simp
    from Suc.IH [OF st(1) this Suc.prems(3)] st(3) le True nm r
    show ?thesis by (auto simp: expire_loop_Suc simp del: expire_loop.simps(2))
  qed
qed (simp add: expire_inv_def)

lemma expire_inv_start:
  "locker_wf m \<Longrightarrow> m k = Some es \<Longrightarrow> expire_inv k (set es) es es m \<and> (\<forall>e \<in> set es. lr_Name e = k)"
  using locker_wfD [of m k es] by (simp add: expire_inv_def entries_wf_def)

lemma expire_key_keeps:
  "locker_wf m \<Longrightarrow> locker_wf (expire_key now interval k m) \<and>
     (\<forall>x. x \<noteq> k \<longrightarrow> expire_key now interval k m x = m x) \<and>
     length (entries_of (expire_key now interval k m) k) \<le> length (entries_of m k)"
proof (cases "m k")
  case (Some es)
  assume m: "locker_wf m"
  show ?thesis
    using expire_loop_keeps [of k "set es" es es m 0 "length es"] expire_inv_start [OF m Some]
    by (simp add: expire_key_def Some)
qed (simp add: expire_key_def)

lemma expireOldLocks_wf: "locker_wf m \<Longrightarrow> locker_wf (expireOldLocks keys now interval m)"
  unfolding expireOldLocks_def by (rule fold_inv [of locker_wf]) (simp_all add: expire_key_keeps)

text \<open>A request whose entries are all fresh keeps them.\<close>

lemma filter_remove_first: "\<forall>x \<in> set xs. P x \<longrightarrow> \<not> Q x \<Longrightarrow> filter Q (remove_first P xs) = filter Q xs"
  by (induction xs) auto

lemma is_entry_cong:
  "is_entry args e \<Longrightarrow> is_entry (entry_args e) x \<longleftrightarrow> is_entry args x"
  by (simp add: is_entry_def entry_args_def)

lemma expire_loop_own:
  assumes "expire_inv k S arr cur m" and "i + n \<le> length arr" and "\<forall>e \<in> S. lr_Name e = k"
    and "\<forall>e \<in> S. is_entry args e \<longrightarrow> \<not> expired now interval e"
    and "filter (is_entry args) (entries_of m k) = filter (is_entry args) cur"
  shows "filter (is_entry args) (entries_of (expire_loop now interval n i arr cur m) k) =
    filter (is_entry args) (entries_of m k)"
  using assms
proof (induction n arbitrary: i arr cur m)
  case (Suc n)
  show ?case
  proof (cases "expired now interval (arr ! i)")
    case False
    then show ?thesis
      using Suc.IH [OF Suc.prems(1) _ Suc.prems(3,4,5), of "Suc i"] Suc.prems(2)
      by (simp add: expire_loop_Suc del: expire_loop.simps(2))
  next
    case True
    have mem: "arr ! i \<in> S" using nth_mem [of i arr] Suc.prems by (auto simp: expire_inv_def)
    then have nm: "lr_Name (arr ! i) = k" and other: "\<not> is_entry args (arr ! i)" using Suc.prems(3,4) True by auto
    let ?x = "entry_args (arr ! i)"
    obtain m' cur' b where r: "removeEntry m k ?x cur = (m', cur', b)" by (cases "removeEntry m k ?x cur")
    note st = removeEntry_step [OF Suc.prems(1) r]
    have len: "Suc i + n \<le> length (cur' @ drop (length cur') arr)"
      using Suc.prems(1,2) st(2) by (simp add: expire_inv_def)
    have no: "\<forall>x \<in> set cur. is_entry ?x x \<longrightarrow> \<not> is_entry args x"
      using other by (auto simp: is_entry_def entry_args_def)
    have keep: "filter (is_entry args) cur' = filter (is_entry args) cur"
      using r filter_remove_first [OF no] by (auto simp: removeEntry_def Let_def split: if_splits)
    have "filter (is_entry args) (entries_of m' k) = filter (is_entry args) cur'"
    proof (cases "list_ex (is_entry ?x) cur \<and> length cur = 1")
      case True
      then have m': "m' = m(k := None)" "cur' = cur" using r by (simp_all add: removeEntry_def)
      have "\<forall>x \<in> set cur. \<not> is_entry args x" using True no by (cases cur) auto
      then have "filter (is_entry args) cur = []" by (simp add: filter_empty_conv)
      then show ?thesis by (simp add: m' entries_of_def)
    next
      case False
      then have "m' = m \<and> cur' = cur \<or> m' = m(k \<mapsto> cur')" using r by (auto simp: removeEntry_def Let_def split: if_splits)
      then show ?thesis
      proof
        assume "m' = m(k \<mapsto> cur')"
        then have "entries_of m' k = cur'" by (simp add: entries_of_def)
        then show ?thesis by simp
      qed (simp add: Suc.prems(5))
    qed
    note ih = Suc.IH [OF st(1) len Suc.prems(3,4) this]
    have "expire_loop now interval (Suc n) i arr cur m =
      expire_loop now interval n (Suc i) (cur' @ drop (length cur') arr) cur' m'"
      by (simp only: expire_loop_Suc True nm r if_True prod.case)
    then show ?thesis using ih keep Suc.prems(5) \<open>filter _ (entries_of m' k) = _\<close> by (simp only:)
  qed
qed (simp only: expire_loop.simps)

lemma expire_key_own:
  assumes m: "locker_wf m"
    and fresh: "\<forall>e \<in> set (entries_of m r). is_entry args e \<longrightarrow> \<not> expired now interval e"
  shows "filter (is_entry args) (entries_of (expire_key now interval k m) r) =
    filter (is_entry args) (entries_of m r)"
proof (cases "m k")
  case (Some es)
  note st = expire_inv_start [OF m Some]
  show ?thesis
  proof (cases "r = k")
    case True
    then show ?thesis
      using expire_loop_own [of k "set es" es es m 0 "length es" args now interval] st fresh Some
      by (simp add: expire_key_def entries_of_def)
  next
    case False
    then show ?thesis using expire_key_keeps [OF m, of now interval k] by (simp add: entries_of_def)
  qed
qed (simp add: expire_key_def)

lemma expireOldLocks_own:
  assumes "locker_wf m" and "\<forall>e \<in> set (entries_of m r). is_entry args e \<longrightarrow> \<not> expired now interval e"
  shows "filter (is_entry args) (entries_of (expireOldLocks keys now interval m) r) =
    filter (is_entry args) (entries_of m r)"
  using assms unfolding expireOldLocks_def
proof (induction keys arbitrary: m)
  case (Cons k keys)
  let ?m = "expire_key now interval k m"
  note own = expire_key_own [OF Cons.prems, of k]
  have "e \<in> set (entries_of m r)" if "e \<in> set (entries_of ?m r)" "is_entry args e" for e
    using that arg_cong [OF own, of set] by auto
  then have "\<forall>e \<in> set (entries_of ?m r). is_entry args e \<longrightarrow> \<not> expired now interval e"
    using Cons.prems(2) by blast
  from Cons.IH [OF _ this] expire_key_keeps [OF Cons.prems(1)] own show ?case by simp
qed simp

text \<open>A pass shortens every slice that has an expired entry.\<close>

lemma expire_loop_shrinks:
  assumes "expire_inv k S es es m" and "m k = Some es" and "i + n \<le> length es" and "\<forall>e \<in> S. lr_Name e = k"
    and "i \<le> j" and "j < i + n" and "expired now interval (es ! j)"
  shows "length (entries_of (expire_loop now interval n i es es m) k) < length es"
  using assms
proof (induction n arbitrary: i)
  case (Suc n)
  have mem: "es ! i \<in> S" and mem': "es ! i \<in> set es"
    using nth_mem [of i es] Suc.prems(1,3) by (auto simp: expire_inv_def)
  then have nm: "lr_Name (es ! i) = k" using Suc.prems(4) by blast
  show ?case
  proof (cases "expired now interval (es ! i)")
    case False
    then have "Suc i \<le> j" using Suc.prems(5,7) by (cases "i = j") auto
    then have "length (entries_of (expire_loop now interval n (Suc i) es es m) k) < length es"
      using Suc.IH [OF Suc.prems(1,2) _ Suc.prems(4) _ _ Suc.prems(7), of "Suc i"] Suc.prems(3,6) by simp
    then show ?thesis by (simp only: expire_loop_Suc False if_False)
  next
    case True
    let ?x = "entry_args (es ! i)"
    obtain m' cur' b where r: "removeEntry m k ?x es = (m', cur', b)" by (cases "removeEntry m k ?x es")
    note st = removeEntry_step [OF Suc.prems(1) r]
    have ex: "list_ex (is_entry ?x) es" unfolding list_ex_iff using mem' is_entry_self by blast
    have less: "length (entries_of m' k) < length es"
    proof (cases "length es = 1")
      case True
      then show ?thesis using r ex by (auto simp: removeEntry_def entries_of_def)
    next
      case False
      then have "entries_of m' k = remove_first (is_entry ?x) es"
        using r ex by (auto simp: removeEntry_def Let_def entries_of_def)
      moreover have "length es > 0" using mem' by (cases es) auto
      ultimately show ?thesis using remove_first_length [OF ex] by simp
    qed
    have "Suc i + n \<le> length (cur' @ drop (length cur') es)" using Suc.prems(3) st(2) by simp
    from expire_loop_keeps [OF st(1) this Suc.prems(4)] less
    have "length (entries_of (expire_loop now interval n (Suc i) (cur' @ drop (length cur') es) cur' m') k) < length es"
      using le_less_trans by blast
    then show ?thesis by (simp only: expire_loop_Suc True nm r if_True prod.case)
  qed
qed simp

lemma expire_key_shrinks:
  assumes m: "locker_wf m" and e: "e \<in> set (entries_of m k)" "expired now interval e"
  shows "length (entries_of (expire_key now interval k m) k) < length (entries_of m k)"
proof (cases "m k")
  case (Some es)
  obtain j where "j < length es" "es ! j = e" using e Some by (auto simp: entries_of_def in_set_conv_nth)
  then show ?thesis
    using expire_loop_shrinks [of k "set es" es m 0 "length es" j now interval] expire_inv_start [OF m Some] e(2)
    by (simp add: expire_key_def Some entries_of_def)
qed (use e in \<open>simp add: entries_of_def\<close>)

lemma expire_key_le:
  "locker_wf m \<Longrightarrow> length (entries_of (expire_key now interval k m) r) \<le> length (entries_of m r)"
  using expire_key_keeps [of m now interval k] by (cases "r = k") (simp_all add: entries_of_def)

lemma expireOldLocks_le:
  "locker_wf m \<Longrightarrow> length (entries_of (expireOldLocks keys now interval m) r) \<le> length (entries_of m r)"
  unfolding expireOldLocks_def
proof (induction keys arbitrary: m)
  case (Cons k keys)
  show ?case
    using Cons.IH [of "expire_key now interval k m"] expire_key_keeps [OF Cons.prems, of now interval k]
      expire_key_le [OF Cons.prems, of now interval k r] by simp
qed simp

lemma expireOldLocks_shrinks:
  assumes "locker_wf m" "r \<in> set keys" "e \<in> set (entries_of m r)" "expired now interval e"
  shows "length (entries_of (expireOldLocks keys now interval m) r) < length (entries_of m r)"
  using assms
proof (induction keys arbitrary: m)
  case (Cons k keys)
  let ?m = "expire_key now interval k m"
  have wf: "locker_wf ?m" using expire_key_keeps [OF Cons.prems(1)] by simp
  have st: "expireOldLocks (k # keys) now interval m = expireOldLocks keys now interval ?m"
    by (simp add: expireOldLocks_def)
  show ?case
  proof (cases "r = k")
    case True
    then show ?thesis
      using expire_key_shrinks [of m e k now interval] expireOldLocks_le [OF wf, of keys now interval k] Cons.prems st by simp
  next
    case False
    then have "entries_of ?m r = entries_of m r" using expire_key_keeps [OF Cons.prems(1)] by (simp add: entries_of_def)
    then show ?thesis using Cons.IH [OF wf] Cons.prems(2-4) False st by simp
  qed
qed simp

lemma expire_passes:
  assumes "locker_wf m" and "\<forall>ks \<in> set kss. r \<in> set ks" and "length (entries_of m r) \<le> length kss"
  shows "\<forall>e \<in> set (entries_of (fold (\<lambda>ks. expireOldLocks ks now interval) kss m) r). \<not> expired now interval e"
  using assms
proof (induction kss arbitrary: m)
  case (Cons ks kss)
  let ?m = "expireOldLocks ks now interval m"
  have wf: "locker_wf ?m" by (rule expireOldLocks_wf [OF Cons.prems(1)])
  show ?case
  proof (cases "\<exists>e \<in> set (entries_of m r). expired now interval e")
    case True
    then have "length (entries_of ?m r) < length (entries_of m r)"
      using expireOldLocks_shrinks [OF Cons.prems(1)] Cons.prems(2) by auto
    then show ?thesis using Cons.IH [OF wf] Cons.prems(2,3) by simp
  next
    case False
    have "\<not> expired now interval e" if "e \<in> set (entries_of (fold (\<lambda>ks. expireOldLocks ks now interval) kss' m') r)"
      "locker_wf m'" "\<forall>e \<in> set (entries_of m' r). \<not> expired now interval e" for e kss' m'
      using that
    proof (induction kss' arbitrary: m')
      case (Cons k' kss')
      let ?m' = "expireOldLocks k' now interval m'"
      have "\<forall>x \<in> set (entries_of ?m' r). \<not> expired now interval x"
      proof
        fix x assume x: "x \<in> set (entries_of ?m' r)"
        have "filter (is_entry (entry_args x)) (entries_of ?m' r) = filter (is_entry (entry_args x)) (entries_of m' r)"
          using expireOldLocks_own [OF Cons.prems(2), of r "entry_args x"] Cons.prems(3) by simp
        moreover have "x \<in> set (filter (is_entry (entry_args x)) (entries_of ?m' r))" using x by simp
        ultimately have "x \<in> set (entries_of m' r)" by simp
        then show "\<not> expired now interval x" using Cons.prems(3) by blast
      qed
      then show ?case using Cons.IH [of ?m'] Cons.prems(1) expireOldLocks_wf [OF Cons.prems(2)] by simp
    qed simp
    from this [OF _ Cons.prems(1), of _ "ks # kss"] False show ?thesis by blast
  qed
qed (simp add: entries_of_def)

subsection \<open>Runs of the locker\<close>

text \<open>A call to the locker, with its inputs.\<close>

datatype locker_call =
    CallLock gotime LockArgs
  | CallUnlock LockArgs
  | CallRLock gotime LockArgs
  | CallRUnlock LockArgs
  | CallForceUnlock "goerr option" LockArgs
  | CallRefresh gotime "goerr option" LockArgs
  | CallExpire "string list" gotime int

fun locker_exec :: "locker_call \<Rightarrow> lock_map \<Rightarrow> lock_map option" where
  "locker_exec (CallLock now args) m = Some (fst (Lock now m args))"
| "locker_exec (CallUnlock args) m = Some (fst (Unlock m args))"
| "locker_exec (CallRLock now args) m = map_option fst (RLock now m args)"
| "locker_exec (CallRUnlock args) m = map_option fst (RUnlock m args)"
| "locker_exec (CallForceUnlock e args) m = Some (fst (ForceUnlock e m args))"
| "locker_exec (CallRefresh now e args) m = map_option fst (Refresh now e m args)"
| "locker_exec (CallExpire keys now interval) m = Some (expireOldLocks keys now interval m)"

fun locker_run :: "locker_call list \<Rightarrow> lock_map \<Rightarrow> lock_map option" where
  "locker_run [] m = Some m"
| "locker_run (c # cs) m = Option.bind (locker_exec c m) (locker_run cs)"

definition newLocker :: lock_map where
  "newLocker = Map.empty"

lemma locker_exec_wf: "locker_wf m \<Longrightarrow> locker_exec c m = Some m' \<Longrightarrow> locker_wf m'"
  by (cases c) (auto simp: Lock_wf Unlock_wf ForceUnlock_wf expireOldLocks_wf
    intro: RLock_wf RUnlock_wf Refresh_wf)

lemma locker_run_wf: "locker_wf m \<Longrightarrow> locker_run cs m = Some m' \<Longrightarrow> locker_wf m'"
  by (induction cs arbitrary: m) (auto simp: bind_eq_Some_conv dest: locker_exec_wf)

text \<open>
  (C12) Whatever calls a lock server gets, in whatever order, a resource of its lock map always has
  entries under its own name, and a writer among them is the only entry: a resource is held by one
  writer or by readers only. The calls include the expiry that shifts the slice it ranges over.
\<close>

theorem locker_exclusive:
  assumes "locker_run cs newLocker = Some m" and "m r = Some es"
  shows "es \<noteq> [] \<and> list_all (\<lambda>e. lr_Name e = r) es \<and> (list_ex lr_Writer es \<longrightarrow> length es = 1)"
proof -
  have "entries_wf r es" using locker_wfD [OF locker_run_wf [OF _ assms(1)] assms(2)] by (simp add: newLocker_def)
  then show ?thesis by (auto simp: entries_wf_def list_all_iff list_ex_iff)
qed

definition sample_args :: "string \<Rightarrow> string list \<Rightarrow> LockArgs" where
  "sample_args uid rs = \<lparr>la_UID = uid, la_Resources = rs, la_Source = ''src'', la_Owner = ''node1'', la_Quorum = 3\<rparr>"

theorem locker_exclusive_witness:
  "\<exists>es. the (locker_run [CallRLock 5 (sample_args ''u1'' [''b/o'']), CallRLock 7 (sample_args ''u2'' [''b/o'']),
      CallRLock 50 (sample_args ''u3'' [''b/o'']), CallLock 8 (sample_args ''w'' [''b/o'', ''b/p'']), CallExpire [''b/o''] 60 20] newLocker) ''b/o'' = Some es \<and>
    map lr_UID es = [''u2'', ''u3''] \<and> es \<noteq> [] \<and> list_all (\<lambda>e. lr_Name e = ''b/o'') es"
proof -
  let ?cs = "[CallRLock 5 (sample_args ''u1'' [''b/o'']), CallRLock 7 (sample_args ''u2'' [''b/o'']),
    CallRLock 50 (sample_args ''u3'' [''b/o'']), CallLock 8 (sample_args ''w'' [''b/o'', ''b/p'']), CallExpire [''b/o''] 60 20]"
  obtain m es where m: "locker_run ?cs newLocker = Some m" "m ''b/o'' = Some es" "map lr_UID es = [''u2'', ''u3'']"
    by (simp add: newLocker_def sample_args_def RLock_def Lock_def canTakeLock_def write_info_def isWriteLock_def
      expireOldLocks_def expire_key_def Let_def removeEntry_def is_entry_def)
  then show ?thesis using locker_exclusive [OF m(1,2)] by simp
qed


definition sample_readers :: "locker_call list" where
  "sample_readers = [CallRLock 5 (sample_args ''u1'' [''b/o'']), CallRLock 7 (sample_args ''u2'' [''b/o'']),
     CallRLock 50 (sample_args ''u3'' [''b/o''])]"

lemmas locker_eval = newLocker_def sample_readers_def sample_args_def RLock_def Lock_def canTakeLock_def write_info_def
  isWriteLock_def expireOldLocks_def expire_key_def Let_def removeEntry_def is_entry_def entries_of_def


text \<open>
  Stale locks go away: a pass may skip expired entries, because the slice shifts under the loop,
  but each pass over a resource with an expired entry removes one, so as many passes as the resource
  has entries leave none that was expired when they started.
\<close>

theorem expiry_clears:
  assumes "locker_run cs newLocker = Some m" and "list_all (\<lambda>keys. r \<in> set keys) passes"
    and "length (entries_of m r) \<le> length passes"
  shows "list_all (\<lambda>e. now - lr_TimeLastRefresh e \<le> interval)
    (entries_of (fold (\<lambda>keys. expireOldLocks keys now interval) passes m) r)"
  using expire_passes [of m passes r now interval] locker_run_wf [OF _ assms(1)] assms(2,3)
  by (auto simp: list_all_iff expired_def newLocker_def)

theorem expiry_clears_witness:
  "\<exists>m. locker_run sample_readers newLocker = Some m \<and>
    map lr_UID (entries_of (expireOldLocks [''b/o''] 60 20 m) ''b/o'') = [''u2'', ''u3''] \<and>
    list_all (\<lambda>e. 60 - lr_TimeLastRefresh e \<le> 20)
      (entries_of (fold (\<lambda>keys. expireOldLocks keys 60 20) (replicate 3 [''b/o'']) m) ''b/o'')"
proof -
  obtain m where m: "locker_run sample_readers newLocker = Some m" by (simp add: locker_eval)
  then have "length (entries_of m ''b/o'') \<le> length (replicate 3 [''b/o''])"
    and skip: "map lr_UID (entries_of (expireOldLocks [''b/o''] 60 20 m) ''b/o'') = [''u2'', ''u3'']"
    by (auto simp: locker_eval)
  moreover have "list_all (\<lambda>keys. ''b/o'' \<in> set keys) (replicate 3 [''b/o''])" by (simp add: list_all_iff)
  ultimately have "list_all (\<lambda>e. 60 - lr_TimeLastRefresh e \<le> 20)
      (entries_of (fold (\<lambda>keys. expireOldLocks keys 60 20) (replicate 3 [''b/o'']) m) ''b/o'')"
    using expiry_clears [OF m, of "''b/o''" "replicate 3 [''b/o'']" 60 20] by simp
  then show ?thesis using m skip by (intro exI conjI)
qed

lemma Refresh_first_name:
  assumes l: "Lock now m args = (m1, True)" and rs: "la_Resources args = a # rs"
  shows "Refresh now2 None m1 args = Some (m1(a \<mapsto> [(write_info now args a)\<lparr>lr_TimeLastRefresh := now2\<rparr>]), True, None)"
  using Lock_granted [OF l, of a] by (simp add: Refresh_def rs)

text \<open>
  (C31) A write lock over several names does not stay alive by refreshing: \<open>Refresh\<close> renews the entry of
  the first name only. After a successful refresh of a lock on \<open>a\<close> and \<open>b\<close>, a pass of the expiry that
  comes within the interval of the refresh but later than the interval after the lock was taken
  removes the entry of \<open>b\<close> and keeps that of \<open>a\<close>. The next request for \<open>b\<close> is then granted while
  the first one still holds its lock.
\<close>

theorem group_refresh_loses_lock:
  assumes "Lock now m args = (m1, True)" and "locker_run cs newLocker = Some m"
    and "la_Resources args = [a, b]" and "a \<noteq> b"
    and "Refresh now2 None m1 args = Some (m2, True, None)"
    and "t - now2 \<le> interval" and "t - now > interval" and "{a, b} \<subseteq> set keys"
    and "la_Resources args' = [b]"
  shows "entries_of (expireOldLocks keys t interval m2) a \<noteq> []
    \<and> snd (Lock t (expireOldLocks keys t interval m2) args')"
proof -
  let ?m = "expireOldLocks keys t interval m2"
  have m2: "m2 = m1(a \<mapsto> [(write_info now args a)\<lparr>lr_TimeLastRefresh := now2\<rparr>])"
    using Refresh_first_name [OF assms(1), of a "[b]" now2] assms(3,5) by simp
  have m1b: "m1 b = Some [write_info now args b]" using Lock_granted [OF assms(1), of b] assms(3) by simp
  have wfm: "locker_wf m" using locker_run_wf [OF _ assms(2)] by (simp add: newLocker_def)
  have wf: "locker_wf m2" using Refresh_wf [OF _ assms(5)] Lock_wf [OF wfm, of now args] assms(1) by simp
  have "filter (is_entry args) (entries_of ?m a) = filter (is_entry args) (entries_of m2 a)"
    by (rule expireOldLocks_own [OF wf]) (use assms(6) in \<open>simp add: m2 entries_of_def expired_def\<close>)
  moreover have "filter (is_entry args) (entries_of m2 a) \<noteq> []"
    by (simp add: m2 entries_of_def is_entry_def write_info_def)
  ultimately have "entries_of ?m a \<noteq> []" by auto
  moreover have "length (entries_of ?m b) < length (entries_of m2 b)"
    by (rule expireOldLocks_shrinks [OF wf, of b keys "write_info now args b"])
      (use assms(4,7,8) in \<open>auto simp: m2 m1b entries_of_def expired_def write_info_def\<close>)
  then have "entries_of ?m b = []" using assms(4) by (simp add: m2 m1b entries_of_def)
  then have "?m b = None"
    using locker_wfD [OF expireOldLocks_wf [OF wf], of keys t interval b]
    by (cases "?m b") (auto simp: entries_of_def entries_wf_def)
  ultimately show ?thesis using assms(9) by (simp add: Lock_granted_iff)
qed

theorem group_refresh_loses_lock_witness:
  "\<exists>m1 m2. Lock 0 newLocker (sample_args ''u1'' [''b/o'', ''b/p'']) = (m1, True) \<and>
    Refresh 15 None m1 (sample_args ''u1'' [''b/o'', ''b/p'']) = Some (m2, True, None) \<and>
    entries_of (expireOldLocks [''b/p'', ''b/o''] 25 20 m2) ''b/o'' \<noteq> [] \<and>
    snd (Lock 25 (expireOldLocks [''b/p'', ''b/o''] 25 20 m2) (sample_args ''u2'' [''b/p'']))"
proof -
  let ?a = "sample_args ''u1'' [''b/o'', ''b/p'']"
  obtain m1 where m1: "Lock 0 newLocker ?a = (m1, True)"
    by (simp add: Lock_def canTakeLock_def newLocker_def)
  obtain m2 where m2: "Refresh 15 None m1 ?a = Some (m2, True, None)"
    using Refresh_first_name [OF m1, of "''b/o''" "[''b/p'']" 15] by (simp add: sample_args_def)
  have "locker_run [] newLocker = Some newLocker" by simp
  from group_refresh_loses_lock [OF m1 this _ _ m2, of "''b/o''" "''b/p''" 25 20 "[''b/p'', ''b/o'']" "sample_args ''u2'' [''b/p'']"] m1 m2
  show ?thesis by (simp add: sample_args_def)
qed

end
