(* ===== verification/Lock_Rest.thy ===== *)
theory Lock_Rest
  imports Local_Locker "HOL-Library.List_Lexorder" "HOL-Library.Char_ord"
begin

text \<open>
  The lock service between nodes: the handlers of \<^verbatim>\<open>cmd/lock-rest-server.go\<close> around the lock server
  of a node and the client of \<^verbatim>\<open>cmd/lock-rest-client.go\<close> that calls them. The names of a request
  travel as the lines of the body and are sorted on arrival; the other arguments travel as query
  values, which URL encoding returns unchanged. A call over the network runs on the server and
  answers, or is lost with an error before or after it ran there; a request that fails the
  authentication of \<open>IsValid\<close> is one that was lost before. \<open>net_client\<close> is a client of \<open>NetLocker\<close>:
  none, the server of the node itself, or a remote one with what the network does to the call.
\<close>

definition errLockConflict :: goerr where
  "errLockConflict = ErrorsNew ''lock conflict''"

definition errLockNotFound :: goerr where
  "errLockNotFound = ErrorsNew ''lock not found''"

definition errTooLong :: goerr where
  "errTooLong = ErrorsNew ''bufio.Scanner: token too long''"

definition errServerClosed :: goerr where
  "errServerClosed = ErrorsNew ''EOF''"

subsection \<open>The body of a request\<close>

abbreviation newline :: char where
  "newline \<equiv> CHR 0x0A"

abbreviation carriage_return :: char where
  "carriage_return \<equiv> CHR 0x0D"

definition names_body :: "string list \<Rightarrow> string" where
  "names_body resources = concat (map (\<lambda>r. r @ [newline]) resources)"

definition dropCR :: "string \<Rightarrow> string" where
  "dropCR line = (if line \<noteq> [] \<and> last line = carriage_return then butlast line else line)"

text \<open>\<^verbatim>\<open>bufio.Scanner\<close> with \<open>ScanLines\<close>; \<open>None\<close> is the error for a line that does not fit its buffer.\<close>

definition maxScanTokenSize :: nat where
  "maxScanTokenSize = 65536"

fun scan_lines :: "string \<Rightarrow> string list option" where
  "scan_lines s =
     (if s = [] then Some []
      else let line = takeWhile (\<lambda>c. c \<noteq> newline) s in
        if length line \<ge> maxScanTokenSize then None
        else map_option (\<lambda>ls. dropCR line # ls) (scan_lines (drop (Suc (length line)) s)))"

declare scan_lines.simps [simp del]

definition getLockArgs :: "LockArgs \<Rightarrow> string \<Rightarrow> goerr + LockArgs" where
  "getLockArgs query body =
     (case scan_lines body of
        None \<Rightarrow> Inl errTooLong
      | Some resources \<Rightarrow> Inr (query\<lparr>la_Resources := sort resources\<rparr>))"

subsection \<open>The handlers\<close>

text \<open>The error that a handler writes to the response; \<open>None\<close> outside is the panic of the locker.\<close>

type_synonym handler = "LockArgs \<Rightarrow> lock_map \<Rightarrow> (lock_map \<times> goerr option) option"

definition LockHandler :: "gotime \<Rightarrow> handler" where
  "LockHandler now args m =
     (case Lock now m args of (m', success) \<Rightarrow> Some (m', if success then None else Some errLockConflict))"

definition RLockHandler :: "gotime \<Rightarrow> handler" where
  "RLockHandler now args m =
     map_option (\<lambda>(m', success). (m', if success then None else Some errLockConflict)) (RLock now m args)"

definition UnlockHandler :: handler where
  "UnlockHandler args m = (case Unlock m args of (m', _, err) \<Rightarrow> Some (m', err))"

definition RUnlockHandler :: handler where
  "RUnlockHandler args m = map_option (\<lambda>(m', _, err). (m', err)) (RUnlock m args)"

definition RefreshHandler :: "gotime \<Rightarrow> goerr option \<Rightarrow> handler" where
  "RefreshHandler now ctxErr args m =
     map_option (\<lambda>(m', refreshed, err).
       (m', case err of Some e \<Rightarrow> Some e | None \<Rightarrow> if refreshed then None else Some errLockNotFound))
     (Refresh now ctxErr m args)"

definition ForceUnlockHandler :: "goerr option \<Rightarrow> handler" where
  "ForceUnlockHandler ctxErr args m = (case ForceUnlock ctxErr m args of (m', _, err) \<Rightarrow> Some (m', err))"

subsection \<open>The client\<close>

datatype transport = Delivered | RequestLost goerr | ReplyLost goerr

text \<open>A panic of a handler is recovered by the HTTP server, which closes the connection.\<close>

definition serve :: "handler \<Rightarrow> LockArgs \<Rightarrow> lock_map \<Rightarrow> lock_map \<times> goerr option" where
  "serve h args m =
     (case getLockArgs args (names_body (la_Resources args)) of
        Inl err \<Rightarrow> (m, Some err)
      | Inr args' \<Rightarrow> (case h args' m of None \<Rightarrow> (m, Some errServerClosed) | Some r \<Rightarrow> r))"

definition restCall :: "transport \<Rightarrow> handler \<Rightarrow> LockArgs \<Rightarrow> lock_map \<Rightarrow> lock_map \<times> bool \<times> goerr option" where
  "restCall t h args m =
     (case t of
        RequestLost err \<Rightarrow> (m, False, Some err)
      | ReplyLost err \<Rightarrow> (fst (serve h args m), False, Some err)
      | Delivered \<Rightarrow>
          (case serve h args m of
             (m', None) \<Rightarrow> (m', True, None)
           | (m', Some err) \<Rightarrow>
               if err = errLockConflict \<or> err = errLockNotFound then (m', False, None) else (m', False, Some err)))"

datatype net_client = NilClient | LocalClient | RemoteClient transport

text \<open>
  A call through a client other than the nil one. \<open>None\<close> is a panic of the server of the node itself.
\<close>

definition netLock :: "net_client \<Rightarrow> gotime \<Rightarrow> LockArgs \<Rightarrow> lock_map \<Rightarrow> (lock_map \<times> bool \<times> goerr option) option" where
  "netLock c now args m =
     (case c of
        NilClient \<Rightarrow> None
      | LocalClient \<Rightarrow> (case Lock now m args of (m', b) \<Rightarrow> Some (m', b, None))
      | RemoteClient t \<Rightarrow> Some (restCall t (LockHandler now) args m))"

definition netRLock :: "net_client \<Rightarrow> gotime \<Rightarrow> LockArgs \<Rightarrow> lock_map \<Rightarrow> (lock_map \<times> bool \<times> goerr option) option" where
  "netRLock c now args m =
     (case c of
        NilClient \<Rightarrow> None
      | LocalClient \<Rightarrow> map_option (\<lambda>(m', b). (m', b, None)) (RLock now m args)
      | RemoteClient t \<Rightarrow> Some (restCall t (RLockHandler now) args m))"

definition netUnlock :: "net_client \<Rightarrow> LockArgs \<Rightarrow> lock_map \<Rightarrow> (lock_map \<times> bool \<times> goerr option) option" where
  "netUnlock c args m =
     (case c of
        NilClient \<Rightarrow> None
      | LocalClient \<Rightarrow> Some (Unlock m args)
      | RemoteClient t \<Rightarrow> Some (restCall t UnlockHandler args m))"

definition netRUnlock :: "net_client \<Rightarrow> LockArgs \<Rightarrow> lock_map \<Rightarrow> (lock_map \<times> bool \<times> goerr option) option" where
  "netRUnlock c args m =
     (case c of
        NilClient \<Rightarrow> None
      | LocalClient \<Rightarrow> RUnlock m args
      | RemoteClient t \<Rightarrow> Some (restCall t RUnlockHandler args m))"

definition netRefresh ::
  "net_client \<Rightarrow> gotime \<Rightarrow> goerr option \<Rightarrow> LockArgs \<Rightarrow> lock_map \<Rightarrow> (lock_map \<times> bool \<times> goerr option) option" where
  "netRefresh c now ctxErr args m =
     (case c of
        NilClient \<Rightarrow> None
      | LocalClient \<Rightarrow> Refresh now ctxErr m args
      | RemoteClient t \<Rightarrow> Some (restCall t (RefreshHandler now ctxErr) args m))"

subsection \<open>The names arrive\<close>

definition wire_safe :: "string \<Rightarrow> bool" where
  "wire_safe r \<longleftrightarrow> newline \<notin> set r \<and> (r = [] \<or> last r \<noteq> carriage_return) \<and> length r < maxScanTokenSize"

lemma takeWhile_line: "newline \<notin> set r \<Longrightarrow> takeWhile (\<lambda>c. c \<noteq> newline) (r @ newline # s) = r"
  by (induction r) auto

lemma scan_lines_Cons:
  "wire_safe r \<Longrightarrow> scan_lines (r @ newline # s) = map_option (\<lambda>ls. r # ls) (scan_lines s)"
  by (subst scan_lines.simps) (auto simp: wire_safe_def takeWhile_line Let_def dropCR_def)

lemma scan_lines_names: "list_all wire_safe rs \<Longrightarrow> scan_lines (names_body rs) = Some rs"
proof (induction rs)
  case (Cons r rs)
  then show ?case using scan_lines_Cons [of r "names_body rs"] by (simp add: names_body_def)
qed (simp add: names_body_def scan_lines.simps)

lemma getLockArgs_names:
  "list_all wire_safe (la_Resources args) \<Longrightarrow>
     getLockArgs args (names_body (la_Resources args)) = Inr (args\<lparr>la_Resources := sort (la_Resources args)\<rparr>)"
  by (simp add: getLockArgs_def scan_lines_names)

text \<open>A single safe name makes the remote call the local one.\<close>

lemma serve_names:
  assumes "list_all wire_safe (la_Resources args)" and "sorted (la_Resources args)"
  shows "serve h args m = (case h args m of None \<Rightarrow> (m, Some errServerClosed) | Some r \<Rightarrow> r)"
proof -
  have "args\<lparr>la_Resources := sort (la_Resources args)\<rparr> = args" by (simp add: sorted_sort_id [OF assms(2)])
  then show ?thesis by (simp add: serve_def getLockArgs_names [OF assms(1)])
qed

end
