(* ===== verification/Dsync.thy ===== *)
theory Dsync
  imports Lock_Rest Quorum_Systems
begin

text \<open>
  The distributed lock of \<^verbatim>\<open>pkg/dsync/drwmutex.go\<close>: an attempt asks every lock server, keeps the
  lock when a quorum granted it and gives back what it got otherwise. The lock servers are the list
  of their lock maps; the clients of an attempt say how each call fares. What is concurrent in the
  source is an input here: the order in which the answers arrive in the channel, with the deadline of
  the attempt among them, and the outcome of each release. Go routines that call different servers
  do not share state, so their effects are given server by server. \<open>None\<close> is a panic.
\<close>

definition isLocked :: "string \<Rightarrow> bool" where
  "isLocked uid \<longleftrightarrow> length uid > 0"

subsection \<open>Quorums\<close>

text \<open>\<open>lockBlocking\<close>: the quorum and the tolerance for \<open>n\<close> lockers.\<close>

definition lock_quorum :: "nat \<Rightarrow> bool \<Rightarrow> int \<times> int" where
  "lock_quorum n isReadLock =
     (let tolerance = int n div 2;
          quorum = int n - tolerance;
          quorum = (if \<not> isReadLock \<and> quorum = tolerance then quorum + 1 else quorum)
      in (quorum, int n - quorum))"

definition locked_count :: "string list \<Rightarrow> int" where
  "locked_count locks = int (length (filter isLocked locks))"

definition checkQuorumLocked :: "string list \<Rightarrow> int \<Rightarrow> bool" where
  "checkQuorumLocked locks quorum \<longleftrightarrow> locked_count locks \<ge> quorum"

definition checkFailedUnlocks :: "string list \<Rightarrow> int \<Rightarrow> bool" where
  "checkFailedUnlocks locks tolerance =
     (let unlocksFailed = locked_count locks in
      if int (length locks) - tolerance = tolerance then unlocksFailed \<ge> tolerance
      else unlocksFailed > tolerance)"

subsection \<open>Releasing\<close>

definition release_args :: "string \<Rightarrow> string \<Rightarrow> string list \<Rightarrow> LockArgs" where
  "release_args owner uid names =
     \<lparr>la_UID = uid, la_Resources = names, la_Source = [], la_Owner = owner, la_Quorum = 0\<rparr>"

definition sendRelease ::
  "net_client \<Rightarrow> string \<Rightarrow> string \<Rightarrow> bool \<Rightarrow> string list \<Rightarrow> lock_map \<Rightarrow> (lock_map \<times> bool) option" where
  "sendRelease c owner uid isReadLock names m =
     (if c = NilClient then Some (m, False)
      else map_option (\<lambda>(m', _, err). (m', err = None))
        (if isReadLock then netRUnlock c (release_args owner uid names) m
         else netUnlock c (release_args owner uid names) m))"

text \<open>The go routine of \<open>releaseAll\<close> for one server: its lock map and its place in \<open>locks\<close>.\<close>

definition release_one ::
  "net_client \<Rightarrow> string \<Rightarrow> bool \<Rightarrow> string list \<Rightarrow> string \<Rightarrow> lock_map \<Rightarrow> (lock_map \<times> string) option" where
  "release_one c owner isReadLock names lock m =
     (if isLocked lock
      then map_option (\<lambda>(m', ok). (m', if ok then [] else lock)) (sendRelease c owner lock isReadLock names m)
      else Some (m, lock))"

definition releaseAll ::
  "net_client list \<Rightarrow> int \<Rightarrow> string \<Rightarrow> string list \<Rightarrow> bool \<Rightarrow> string list \<Rightarrow> lock_map list
     \<Rightarrow> (lock_map list \<times> string list \<times> bool) option" where
  "releaseAll clnts tolerance owner locks isReadLock names nodes =
     map_option (\<lambda>rs. (map fst rs, map snd rs, \<not> checkFailedUnlocks (map snd rs) tolerance))
       (those (map (\<lambda>i. release_one (clnts ! i) owner isReadLock names (locks ! i) (nodes ! i)) [0..<length nodes]))"

subsection \<open>An attempt\<close>

text \<open>The go routine of \<open>lock\<close> for one server: its lock map and the \<open>lockUID\<close> it sends.\<close>

definition lock_one :: "net_client \<Rightarrow> gotime \<Rightarrow> bool \<Rightarrow> LockArgs \<Rightarrow> lock_map \<Rightarrow> (lock_map \<times> string) option" where
  "lock_one c now isReadLock args m =
     (if c = NilClient then Some (m, [])
      else map_option (\<lambda>(m', locked, _). (m', if locked then la_UID args else []))
        (if isReadLock then netRLock c now args m else netLock c now args m))"

text \<open>
  The loop that reads the answers. An event is the answer of a server or the deadline, which stays
  ready once it has passed, so a loop that has read all the events meets the deadline.
\<close>

datatype lock_event = GrantEv nat string | DeadlineEv

fun lock_loop ::
  "int \<Rightarrow> nat \<Rightarrow> lock_event list \<Rightarrow> string list \<Rightarrow> int \<Rightarrow> string list \<times> int \<times> lock_event list" where
  "lock_loop tolerance 0 evs locks locksFailed = (locks, locksFailed, evs)"
| "lock_loop tolerance (Suc n) evs locks locksFailed =
     (case evs of
        GrantEv i uid # evs' \<Rightarrow>
          if isLocked uid then lock_loop tolerance n evs' (locks[i := uid]) locksFailed
          else if locksFailed + 1 > tolerance then (locks, locksFailed + 1, evs')
          else lock_loop tolerance n evs' locks (locksFailed + 1)
      | _ \<Rightarrow>
          if locksFailed + 1 > tolerance then (locks, locksFailed + 1, tl evs)
          else lock_loop tolerance n (tl evs) locks (locksFailed + 1))"

text \<open>The grants that nobody read are released in the background.\<close>

fun late_release ::
  "net_client list \<Rightarrow> string \<Rightarrow> bool \<Rightarrow> string list \<Rightarrow> lock_event list \<Rightarrow> lock_map list \<Rightarrow> lock_map list option" where
  "late_release clnts owner isReadLock names [] nodes = Some nodes"
| "late_release clnts owner isReadLock names (GrantEv i uid # evs) nodes =
     (if isLocked uid
      then do { (m, _) \<leftarrow> sendRelease (clnts ! i) owner uid isReadLock names (nodes ! i);
                late_release clnts owner isReadLock names evs (nodes[i := m]) }
      else late_release clnts owner isReadLock names evs nodes)"
| "late_release clnts owner isReadLock names (DeadlineEv # evs) nodes =
     late_release clnts owner isReadLock names evs nodes"

text \<open>
  What the environment decides for an attempt: the clients during the calls, the arrival of the
  answers (the index of a server, or the deadline), the clients during the releases.
\<close>

record attempt_env =
  ae_now :: gotime
  ae_clnts :: "net_client list"
  ae_arrivals :: "nat option list"
  ae_release :: "net_client list"
  ae_late :: "net_client list"

definition lock ::
  "attempt_env \<Rightarrow> string \<Rightarrow> string list \<Rightarrow> string \<Rightarrow> string \<Rightarrow> bool \<Rightarrow> int \<Rightarrow> int \<Rightarrow> string list \<Rightarrow> lock_map list
     \<Rightarrow> (lock_map list \<times> string list \<times> bool) option" where
  "lock env owner locks0 opsID source isReadLock tolerance quorum names nodes =
     (let locks = map (\<lambda>_. []) locks0;
          args = \<lparr>la_UID = opsID, la_Resources = names, la_Source = source, la_Owner = owner, la_Quorum = quorum\<rparr>
      in do {
        rs \<leftarrow> those (map (\<lambda>i. lock_one (ae_clnts env ! i) (ae_now env) isReadLock args (nodes ! i)) [0..<length nodes]);
        let evs = map (\<lambda>a. case a of Some i \<Rightarrow> GrantEv i (snd (rs ! i)) | None \<Rightarrow> DeadlineEv) (ae_arrivals env);
        let (locks1, locksFailed, rest) = lock_loop tolerance (length nodes) evs locks 0;
        let quorumLocked = (checkQuorumLocked locks1 quorum \<and> locksFailed \<le> tolerance);
        (nodes2, locks2, _) \<leftarrow> (if quorumLocked then Some (map fst rs, locks1, True)
          else releaseAll (ae_release env) tolerance owner locks1 isReadLock names (map fst rs));
        nodes3 \<leftarrow> late_release (ae_late env) owner isReadLock names rest nodes2;
        Some (nodes3, locks2, quorumLocked)
      })"

subsection \<open>Unlocking and refreshing\<close>

text \<open>
  The loop of \<open>Unlock\<close> and \<open>RUnlock\<close>, which ends when \<open>releaseAll\<close> is content: one list of clients
  per round. \<open>Inl\<close> is a loop that is still running after the rounds.
\<close>

fun unlock_rounds ::
  "net_client list list \<Rightarrow> int \<Rightarrow> string \<Rightarrow> string list \<Rightarrow> bool \<Rightarrow> string list \<Rightarrow> lock_map list
     \<Rightarrow> (lock_map list \<times> string list + lock_map list \<times> string list) option" where
  "unlock_rounds [] tolerance owner locks isReadLock names nodes = Some (Inl (nodes, locks))"
| "unlock_rounds (clnts # rounds) tolerance owner locks isReadLock names nodes =
     do { (nodes', locks', ok) \<leftarrow> releaseAll clnts tolerance owner locks isReadLock names nodes;
          if ok then Some (Inr (nodes', locks'))
          else unlock_rounds rounds tolerance owner locks' isReadLock names nodes' }"

record DRWMutex =
  dm_Names :: "string list"
  dm_writeLocks :: "string list"
  dm_readersLocks :: "string list list"

text \<open>\<open>copy\<close> of a slice over another one.\<close>

definition copy_slice :: "'a list \<Rightarrow> 'a list \<Rightarrow> 'a list" where
  "copy_slice dst src = take (length dst) src @ drop (length src) dst"

definition NewDRWMutex :: "nat \<Rightarrow> string list \<Rightarrow> DRWMutex" where
  "NewDRWMutex n names = \<lparr>dm_Names = names, dm_writeLocks = replicate n [], dm_readersLocks = []\<rparr>"

text \<open>\<open>lockBlocking\<close> with one environment per attempt; without a success it returns when the context is done.\<close>

fun lock_attempts ::
  "attempt_env list \<Rightarrow> string \<Rightarrow> string list \<Rightarrow> string \<Rightarrow> string \<Rightarrow> bool \<Rightarrow> int \<Rightarrow> int \<Rightarrow> string list \<Rightarrow> lock_map list
     \<Rightarrow> (lock_map list \<times> string list option) option" where
  "lock_attempts [] owner locks opsID source isReadLock tolerance quorum names nodes = Some (nodes, None)"
| "lock_attempts (env # envs) owner locks opsID source isReadLock tolerance quorum names nodes =
     do { (nodes', locks', locked) \<leftarrow> lock env owner locks opsID source isReadLock tolerance quorum names nodes;
          if locked then Some (nodes', Some locks')
          else lock_attempts envs owner locks' opsID source isReadLock tolerance quorum names nodes' }"

definition lockBlocking ::
  "attempt_env list \<Rightarrow> string \<Rightarrow> DRWMutex \<Rightarrow> string \<Rightarrow> string \<Rightarrow> bool \<Rightarrow> lock_map list
     \<Rightarrow> (lock_map list \<times> DRWMutex \<times> bool) option" where
  "lockBlocking envs owner dm opsID source isReadLock nodes =
     (case lock_quorum (length nodes) isReadLock of (quorum, tolerance) \<Rightarrow>
       do { (nodes', r) \<leftarrow> lock_attempts envs owner (replicate (length nodes) []) opsID source isReadLock tolerance quorum
              (dm_Names dm) nodes;
            Some (case r of
              None \<Rightarrow> (nodes', dm, False)
            | Some locks \<Rightarrow>
                (nodes',
                 if isReadLock
                 then dm\<lparr>dm_readersLocks := dm_readersLocks dm @ [copy_slice (replicate (length nodes) []) locks]\<rparr>
                 else dm\<lparr>dm_writeLocks := copy_slice (dm_writeLocks dm) locks\<rparr>,
                 True)) })"

text \<open>
  \<open>Unlock\<close> and \<open>RUnlock\<close>: the panic without an active lock, the copy of the grants, the loop. The write
  locks of the mutex stay recorded; the first reader's are dropped.
\<close>

definition Unlock_dm ::
  "net_client list list \<Rightarrow> string \<Rightarrow> DRWMutex \<Rightarrow> lock_map list
     \<Rightarrow> (lock_map list \<times> string list + lock_map list \<times> string list) option" where
  "Unlock_dm rounds owner dm nodes =
     (if \<not> list_ex isLocked (dm_writeLocks dm) then None
      else unlock_rounds rounds (int (length nodes) div 2) owner
        (copy_slice (replicate (length nodes) []) (dm_writeLocks dm)) False (dm_Names dm) nodes)"

definition RUnlock_dm ::
  "net_client list list \<Rightarrow> string \<Rightarrow> DRWMutex \<Rightarrow> lock_map list
     \<Rightarrow> (DRWMutex \<times> (lock_map list \<times> string list + lock_map list \<times> string list)) option" where
  "RUnlock_dm rounds owner dm nodes =
     (case dm_readersLocks dm of
        [] \<Rightarrow> None
      | locks # rest \<Rightarrow>
          map_option (\<lambda>r. (dm\<lparr>dm_readersLocks := rest\<rparr>, r))
            (unlock_rounds rounds (int (length nodes) div 2) owner
              (copy_slice (replicate (length nodes) []) locks) True (dm_Names dm) nodes))"

text \<open>The answer of one server to a refresh, and the loop that counts the answers.\<close>

datatype refresh_result = RefreshOffline | RefreshSucceeded | RefreshFailed

definition refresh_one ::
  "net_client \<Rightarrow> gotime \<Rightarrow> goerr option \<Rightarrow> LockArgs \<Rightarrow> lock_map \<Rightarrow> (lock_map \<times> refresh_result) option" where
  "refresh_one c now ctxErr args m =
     (if c = NilClient then Some (m, RefreshOffline)
      else map_option (\<lambda>(m', refreshed, err).
        (m', if refreshed \<and> err = None then RefreshSucceeded
             else if err \<noteq> None then RefreshOffline else RefreshFailed)) (netRefresh c now ctxErr args m))"

fun refresh_loop :: "int \<Rightarrow> refresh_result list \<Rightarrow> int \<Rightarrow> int \<Rightarrow> int \<times> int" where
  "refresh_loop quorum [] failed succeeded = (failed, succeeded)"
| "refresh_loop quorum (r # rs) failed succeeded =
     (case r of
        RefreshOffline \<Rightarrow> refresh_loop quorum rs failed succeeded
      | RefreshSucceeded \<Rightarrow>
          if failed > quorum then (failed, succeeded + 1) else refresh_loop quorum rs failed (succeeded + 1)
      | RefreshFailed \<Rightarrow>
          if failed + 1 > quorum then (failed + 1, succeeded) else refresh_loop quorum rs (failed + 1) succeeded)"

definition refresh_verdict :: "int \<Rightarrow> refresh_result list \<Rightarrow> bool" where
  "refresh_verdict quorum results =
     (case refresh_loop quorum results 0 0 of (failed, succeeded) \<Rightarrow> succeeded \<ge> quorum \<or> failed < quorum)"

text \<open>A refresh that is not cancelled: the arrivals are the servers in the order of their answers.\<close>

definition refresh ::
  "net_client list \<Rightarrow> nat list \<Rightarrow> gotime \<Rightarrow> goerr option \<Rightarrow> string \<Rightarrow> string \<Rightarrow> string \<Rightarrow> int \<Rightarrow> string list \<Rightarrow> lock_map list
     \<Rightarrow> (lock_map list \<times> bool) option" where
  "refresh clnts arrivals now ctxErr owner opsID source quorum names nodes =
     (let args = \<lparr>la_UID = opsID, la_Resources = names, la_Source = source, la_Owner = owner, la_Quorum = quorum\<rparr>
      in map_option (\<lambda>rs. (map fst rs, refresh_verdict quorum (map (\<lambda>i. snd (rs ! i)) arrivals)))
        (those (map (\<lambda>i. refresh_one (clnts ! i) now ctxErr args (nodes ! i)) [0..<length nodes])))"

subsection \<open>The quorums of the locks meet\<close>

lemma lock_quorum_tolerance: "lock_quorum n rd = (q, t) \<Longrightarrow> t = int n - q"
  by (auto simp: lock_quorum_def Let_def)

lemma lock_quorum_bounds:
  "lock_quorum n rd = (q, t) \<Longrightarrow> int n \<le> 2 * q \<and> 0 \<le> q \<and> q \<le> int n + 1 \<and> (n > 0 \<longrightarrow> q \<le> int n)"
  "lock_quorum n False = (q, t) \<Longrightarrow> int n < 2 * q"
  by (auto simp: lock_quorum_def Let_def split: if_splits)

interpretation locks: quorum_system "\<lambda>n. n" "\<lambda>n. nat (fst (lock_quorum n True))" "\<lambda>n. nat (fst (lock_quorum n False))" "\<lambda>_. True"
proof unfold_locales
  fix n :: nat
  show "n < nat (fst (lock_quorum n True)) + nat (fst (lock_quorum n False))"
    by (simp add: lock_quorum_def Let_def) linarith
  show "n < 2 * nat (fst (lock_quorum n False))"
    by (simp add: lock_quorum_def Let_def) linarith
qed

subsection \<open>Calls that reach their server\<close>

definition reaches :: "net_client \<Rightarrow> bool" where
  "reaches c \<longleftrightarrow> c = LocalClient \<or> c = RemoteClient Delivered"

definition unreached :: "net_client \<Rightarrow> bool" where
  "unreached c \<longleftrightarrow> c = NilClient \<or> (\<exists>e. c = RemoteClient (RequestLost e))"

text \<open>
  Names that the wire keeps; a read lock takes the first name, which is the same on every server
  when the names are sorted.
\<close>

definition lockable :: "bool \<Rightarrow> string list \<Rightarrow> bool" where
  "lockable isReadLock names \<longleftrightarrow> names \<noteq> [] \<and> list_all wire_safe names \<and> (isReadLock \<longrightarrow> sorted names)"

text \<open>What a request does to the lock map of a server it reaches.\<close>

definition take_lock :: "bool \<Rightarrow> gotime \<Rightarrow> LockArgs \<Rightarrow> lock_map \<Rightarrow> lock_map \<times> bool" where
  "take_lock isReadLock now args m = (if isReadLock then the (RLock now m args) else Lock now m args)"

definition give_back :: "bool \<Rightarrow> LockArgs \<Rightarrow> lock_map \<Rightarrow> lock_map \<times> bool \<times> goerr option" where
  "give_back isReadLock args m = (if isReadLock then the (RUnlock m args) else Unlock m args)"

lemma write_info_sort [simp]: "write_info now (args\<lparr>la_Resources := sort rs\<rparr>) r = write_info now (args\<lparr>la_Resources := rs\<rparr>) r"
  by (simp add: write_info_def)

lemma Lock_sort: "Lock now m (args\<lparr>la_Resources := sort (la_Resources args)\<rparr>) = Lock now m args"
proof -
  have w: "write_info now (args\<lparr>la_Resources := sort (la_Resources args)\<rparr>) = write_info now args"
    by (rule ext) simp
  have "fold (\<lambda>r m. m(r \<mapsto> [write_info now args r])) (sort (la_Resources args)) m =
    fold (\<lambda>r m. m(r \<mapsto> [write_info now args r])) (la_Resources args) m"
    by (rule ext) (simp add: fold_write_info)
  then show ?thesis by (simp add: Lock_def w canTakeLock_iff)
qed

text \<open>On resources that are all write locked, the order of the releases does not matter.\<close>

lemma fold_unlock_writers:
  assumes "\<forall>r \<in> set rs. \<exists>e. m r = Some [e] \<or> m r = None"
  shows "fold (unlock_one args) rs m x = (if x \<in> set rs then unlock_one args x m x else m x)"
  using assms
proof (induction rs arbitrary: m)
  case (Cons r rs)
  have one: "unlock_one args r m y = (if y = r then unlock_one args r m r else m y)" for y
    by (simp add: unlock_one_other)
  have rr: "unlock_one args r m r = None \<or> unlock_one args r m r = m r"
    using Cons.prems by (auto simp: unlock_one_def removeEntry_def split: if_splits)
  then have "\<forall>q \<in> set rs. \<exists>e. unlock_one args r m q = Some [e] \<or> unlock_one args r m q = None"
    using Cons.prems one by (metis list.set_intros(1,2))
  from Cons.IH [OF this]
  have ih: "fold (unlock_one args) rs (unlock_one args r m) x =
    (if x \<in> set rs then unlock_one args x (unlock_one args r m) x else unlock_one args r m x)" .
  have cong: "unlock_one args y m1 y = unlock_one args y m2 y" if "m1 y = m2 y" for y and m1 m2 :: lock_map
    using that by (simp add: unlock_one_def removeEntry_def Let_def split: option.split)
  have "unlock_one args r (unlock_one args r m) r = unlock_one args r m r"
    using rr cong [of "unlock_one args r m" r m] by (metis unlock_one_none)
  then show ?case using ih one [of x] cong [of "unlock_one args r m" x m] by (cases "x = r") auto
qed simp

lemma isWriteLock_entry: "isWriteLock (entries_of m r) \<Longrightarrow> \<exists>e. m r = Some [e]"
  by (cases "m r") (auto simp: isWriteLock_def entries_of_def length_Suc_conv)

lemma Unlock_cong:
  assumes "set rs = set (la_Resources args)" "la_UID args' = la_UID args" "la_Owner args' = la_Owner args" "la_Resources args' = rs"
  shows "Unlock m args' = Unlock m args"
proof (cases "canTakeUnlock m rs")
  case True
  then have w: "\<forall>r \<in> set rs. \<exists>e. m r = Some [e] \<or> m r = None" using isWriteLock_entry by (auto simp: canTakeUnlock_iff)
  have "is_entry args' = is_entry args" using assms(2,3) by (intro ext) (simp add: is_entry_def)
  then have "removeEntry m r args' es = removeEntry m r args es" for m r es by (simp add: removeEntry_def)
  then have "unlock_one args' = unlock_one args" by (intro ext) (simp add: unlock_one_def split: option.split)
  then have "fold (unlock_one args') rs m = fold (unlock_one args) (la_Resources args) m"
    using fold_unlock_writers [OF w] fold_unlock_writers [of "la_Resources args" m] w assms(1) by (intro ext) simp
  then show ?thesis using True assms(1,4) by (simp add: Unlock_def canTakeUnlock_iff)
next
  case False
  then show ?thesis using assms(1,4) by (simp add: Unlock_def canTakeUnlock_iff)
qed

lemma removeEntry_args:
  "la_UID args' = la_UID args \<Longrightarrow> la_Owner args' = la_Owner args \<Longrightarrow> removeEntry m r args' es = removeEntry m r args es"
proof -
  assume "la_UID args' = la_UID args" "la_Owner args' = la_Owner args"
  then have "is_entry args' = is_entry args" by (intro ext) (simp add: is_entry_def)
  then show ?thesis by (simp add: removeEntry_def)
qed

lemma RUnlock_cong:
  "la_UID args' = la_UID args \<Longrightarrow> la_Owner args' = la_Owner args \<Longrightarrow> la_Resources args' = la_Resources args \<Longrightarrow>
     RUnlock m args' = RUnlock m args"
  using removeEntry_args [of args' args] by (simp add: RUnlock_def split: list.split option.split)

lemma sorted_args: "sorted (la_Resources args) \<Longrightarrow> args\<lparr>la_Resources := sort (la_Resources args)\<rparr> = args"
  by (simp add: sorted_sort_id)

lemma some_the: "x \<noteq> None \<Longrightarrow> x = Some (the x)"
  by auto

lemma lock_one_reaches:
  assumes c: "reaches c" and nm: "lockable rd (la_Resources args)"
  shows "lock_one c now rd args m =
    (case take_lock rd now args m of (m', b) \<Rightarrow> Some (m', if b then la_UID args else []))"
proof (cases rd)
  case True
  then have s: "sorted (la_Resources args)" "list_all wire_safe (la_Resources args)" using nm by (simp_all add: lockable_def)
  have "RLock now m args \<noteq> None" using nm by (cases "la_Resources args") (auto simp: lockable_def RLock_def Let_def)
  then obtain p where "RLock now m args = Some p" by blast
  then obtain m' b where r: "RLock now m args = Some (m', b)" by (cases p) simp
  have sv: "serve (RLockHandler now) args m = (m', if b then None else Some errLockConflict)"
    by (simp add: serve_names [OF s(2,1)] RLockHandler_def r)
  have "netRLock c now args m = Some (m', b, None)"
    using c unfolding reaches_def netRLock_def by (elim disjE) (simp_all add: r restCall_def sv)
  then show ?thesis using c True r by (auto simp: lock_one_def reaches_def take_lock_def)
next
  case False
  then have s: "list_all wire_safe (la_Resources args)" using nm by (simp add: lockable_def)
  obtain m' b where r: "Lock now m args = (m', b)" by (cases "Lock now m args")
  have sv: "serve (LockHandler now) args m = (m', if b then None else Some errLockConflict)"
    by (simp add: serve_def getLockArgs_names [OF s] LockHandler_def Lock_sort r)
  have "netLock c now args m = Some (m', b, None)"
    using c unfolding reaches_def netLock_def by (elim disjE) (simp_all add: r restCall_def sv)
  then show ?thesis using c False r by (auto simp: lock_one_def reaches_def take_lock_def)
qed

lemma lock_one_unreached: "unreached c \<Longrightarrow> lock_one c now rd args m = Some (m, [])"
  unfolding unreached_def by (elim disjE exE) (auto simp: lock_one_def netLock_def netRLock_def restCall_def)

lemma sendRelease_reaches:
  assumes c: "reaches c" and nm: "lockable rd names"
  shows "sendRelease c owner uid rd names m =
    (case give_back rd (release_args owner uid names) m of (m', _, err) \<Rightarrow> Some (m', err = None))"
proof (cases rd)
  case True
  let ?args = "release_args owner uid names"
  have s: "sorted (la_Resources ?args)" "list_all wire_safe (la_Resources ?args)"
    using nm True by (simp_all add: lockable_def release_args_def)
  have "RUnlock m ?args \<noteq> None" using nm by (cases names) (auto simp: lockable_def RUnlock_def release_args_def)
  then obtain p where "RUnlock m ?args = Some p" by blast
  then obtain m' b err where r: "RUnlock m ?args = Some (m', b, err)" by (cases p) simp
  have e: "err = None \<or> err = Some errRUnlockWrite"
    using r by (auto simp: RUnlock_def split: list.splits option.splits if_splits)
  have "serve RUnlockHandler ?args m = (m', err)" by (simp add: serve_names [OF s(2,1)] RUnlockHandler_def r)
  then show ?thesis using c True r e
    by (auto simp: sendRelease_def reaches_def netRUnlock_def give_back_def restCall_def
      errRUnlockWrite_def errLockConflict_def errLockNotFound_def)
next
  case False
  let ?args = "release_args owner uid names"
  have s: "list_all wire_safe (la_Resources ?args)" using nm by (simp add: lockable_def release_args_def)
  obtain m' b err where r: "Unlock m ?args = (m', b, err)" by (cases "Unlock m ?args")
  have e: "err = None \<or> err = Some errUnlockRead" using r by (auto simp: Unlock_def split: if_splits)
  have "Unlock m (?args\<lparr>la_Resources := sort (la_Resources ?args)\<rparr>) = Unlock m ?args"
    by (rule Unlock_cong [of "sort (la_Resources ?args)"]) simp_all
  then have "serve UnlockHandler ?args m = (m', err)"
    by (simp add: serve_def getLockArgs_names [OF s] UnlockHandler_def r)
  then show ?thesis using c False r e
    by (auto simp: sendRelease_def reaches_def netUnlock_def give_back_def restCall_def
      errUnlockRead_def errLockConflict_def errLockNotFound_def)
qed

text \<open>A request without entries on a server takes the lock there and gives it back without a trace.\<close>

definition no_entry :: "LockArgs \<Rightarrow> lock_map \<Rightarrow> bool" where
  "no_entry args m \<longleftrightarrow> (\<forall>r es. m r = Some es \<longrightarrow> (\<forall>e \<in> set es. \<not> is_entry args e))"

lemma take_lock_refused: "take_lock rd now args m = (m', False) \<Longrightarrow> lockable rd (la_Resources args) \<Longrightarrow> m' = m"
proof -
  assume t: "take_lock rd now args m = (m', False)" and nm: "lockable rd (la_Resources args)"
  show "m' = m"
  proof (cases rd)
    case True
    obtain a rs where "la_Resources args = a # rs" using nm by (cases "la_Resources args") (auto simp: lockable_def)
    then show ?thesis using t True by (auto simp: take_lock_def RLock_def Let_def split: option.splits if_splits)
  qed (use t Lock_refused [of now m args] in \<open>simp add: take_lock_def\<close>)
qed

lemma take_give_back:
  assumes t: "take_lock rd now args m = (m', True)" and wf: "locker_wf m" and nm: "lockable rd (la_Resources args)"
    and ne: "no_entry args m"
  shows "give_back rd (release_args (la_Owner args) (la_UID args) (la_Resources args)) m' = (m, True, None)"
proof (cases rd)
  case True
  obtain a rs where rs: "la_Resources args = a # rs" using nm by (cases "la_Resources args") (auto simp: lockable_def)
  have "RLock now m args = Some (m', True)"
    using t True by (auto simp: take_lock_def RLock_def rs Let_def)
  from RLock_RUnlock_back [OF this wf] ne have "RUnlock m' args = Some (m, True, None)" by (simp add: no_entry_def)
  moreover have "RUnlock m' (release_args (la_Owner args) (la_UID args) (la_Resources args)) = RUnlock m' args"
    by (rule RUnlock_cong) (simp_all add: release_args_def)
  ultimately show ?thesis using True by (simp add: give_back_def)
next
  case False
  then have "Unlock m' args = (m, True, None)" using Lock_Unlock_back t by (simp add: take_lock_def)
  moreover have "Unlock m' (release_args (la_Owner args) (la_UID args) (la_Resources args)) = Unlock m' args"
    by (rule Unlock_cong [of "la_Resources args"]) (simp_all add: release_args_def)
  ultimately show ?thesis using False by (simp add: give_back_def)
qed

subsection \<open>The loop over the answers\<close>

lemma those_map: "those (map f xs) = Some ys \<longleftrightarrow> length ys = length xs \<and> (\<forall>i < length xs. f (xs ! i) = Some (ys ! i))"
proof (induction xs arbitrary: ys)
  case (Cons x xs)
  show ?case
  proof (cases "f x")
    case (Some y)
    have "those (map f (x # xs)) = Some ys \<longleftrightarrow> (\<exists>zs. those (map f xs) = Some zs \<and> ys = y # zs)"
      by (cases "those (map f xs)") (auto simp: Some)
    also have "\<dots> \<longleftrightarrow> length ys = length (x # xs) \<and> (\<forall>i < length (x # xs). f ((x # xs) ! i) = Some (ys ! i))"
    proof (cases ys)
      case (Cons y' zs)
      then show ?thesis using Cons.IH [of zs] by (auto simp: Some All_less_Suc2)
    qed simp
    finally show ?thesis .
  qed (auto simp: nth_Cons split: nat.splits)
qed auto

lemma those_upt: "those (map f [0..<n]) = Some ys \<longleftrightarrow> length ys = n \<and> (\<forall>i < n. f i = Some (ys ! i))"
  by (simp add: those_map)

lemma those_upt_Some: "\<forall>i < n. f i = Some (g i) \<Longrightarrow> those (map f [0..<n]) = Some (map g [0..<n])"
  by (simp add: those_upt)

definition apply_grants :: "lock_event list \<Rightarrow> string list \<Rightarrow> string list" where
  "apply_grants evs locks = fold (\<lambda>e l. case e of GrantEv i u \<Rightarrow> if isLocked u then l[i := u] else l | DeadlineEv \<Rightarrow> l) evs locks"

lemma lock_loop_split:
  "lock_loop tol n evs locks f = (locks', f', rest) \<Longrightarrow> \<exists>used. evs = used @ rest \<and> locks' = apply_grants used locks"
proof (induction n arbitrary: evs locks f)
  case 0
  then show ?case by (simp add: apply_grants_def)
next
  case (Suc n)
  show ?case
  proof (cases evs)
    case Nil
    then show ?thesis using Suc.prems Suc.IH [of "[]" locks "f + 1"]
      by (auto simp: apply_grants_def split: if_splits)
  next
    case (Cons e es)
    have one: "\<exists>used. evs = used @ rest \<and> locks' = apply_grants used locks"
      if "es = used @ rest" "locks' = apply_grants used (apply_grants [e] locks)" for used
      using that by (intro exI [of _ "e # used"]) (simp add: Cons apply_grants_def)
    show ?thesis
    proof (cases "\<exists>i u. e = GrantEv i u \<and> isLocked u")
      case True
      then obtain i u where e: "e = GrantEv i u" "isLocked u" by blast
      then show ?thesis using Suc.prems Suc.IH [of es "locks[i := u]" f] one by (auto simp: Cons apply_grants_def)
    next
      case False
      then have e: "apply_grants [e] locks = locks" by (cases e) (auto simp: apply_grants_def)
      have "lock_loop tol (Suc n) evs locks f =
        (if f + 1 > tol then (locks, f + 1, es) else lock_loop tol n es locks (f + 1))"
        using False by (cases e) (auto simp: Cons)
      then show ?thesis using Suc.prems Suc.IH [of es locks "f + 1"] one e
        by (auto simp: apply_grants_def split: if_splits)
    qed
  qed
qed

definition answers :: "nat option list \<Rightarrow> nat list" where
  "answers as = List.map_filter (\<lambda>a. a) as"

lemma answers_simps [simp]:
  "answers [] = []" "answers (None # as) = answers as" "answers (Some i # as) = i # answers as"
  "answers (as @ bs) = answers as @ answers bs"
  by (simp_all add: answers_def List.map_filter_simps) (induction as, simp_all add: List.map_filter_simps split: option.split)

lemma set_answers [simp]: "i \<in> set (answers as) \<longleftrightarrow> Some i \<in> set as"
  by (induction as) (auto simp: answers_def List.map_filter_simps split: option.splits)

definition answer_event :: "(nat \<Rightarrow> string) \<Rightarrow> nat option \<Rightarrow> lock_event" where
  "answer_event u a = (case a of Some i \<Rightarrow> GrantEv i (u i) | None \<Rightarrow> DeadlineEv)"

lemma length_apply_grants [simp]: "length (apply_grants evs locks) = length locks"
  unfolding apply_grants_def by (induction evs arbitrary: locks) (auto split: lock_event.split)

lemma apply_grants_nth:
  "distinct (answers as) \<Longrightarrow> i < length locks \<Longrightarrow> locks ! i = [] \<Longrightarrow>
     apply_grants (map (answer_event u) as) locks ! i = (if Some i \<in> set as then u i else [])"
proof (induction as rule: rev_induct)
  case (snoc a as)
  let ?l = "apply_grants (map (answer_event u) as) locks"
  have step: "apply_grants (map (answer_event u) (as @ [a])) locks =
    (case a of Some j \<Rightarrow> if isLocked (u j) then ?l[j := u j] else ?l | None \<Rightarrow> ?l)"
    by (cases a) (simp_all add: apply_grants_def answer_event_def)
  have ih: "?l ! i = (if Some i \<in> set as then u i else [])" using snoc by simp
  show ?case
  proof (cases a)
    case (Some j)
    then have "Some j \<notin> set as" using snoc.prems(1) by simp
    then show ?thesis unfolding step using ih snoc.prems(2) Some by (cases "i = j") (auto simp: isLocked_def)
  qed (unfold step, use ih in simp)
qed (simp add: apply_grants_def)

lemma late_release_effect:
  assumes "distinct (answers as)" and "\<forall>i \<in> set (answers as). i < length nodes"
    and "\<forall>i \<in> set (answers as). isLocked (u i) \<longrightarrow> sendRelease (clnts ! i) owner (u i) rd names (nodes ! i) = Some (back i, ok i)"
  shows "\<exists>nodes'. late_release clnts owner rd names (map (answer_event u) as) nodes = Some nodes' \<and> length nodes' = length nodes \<and>
    (\<forall>i < length nodes. nodes' ! i = (if Some i \<in> set as \<and> isLocked (u i) then back i else nodes ! i))"
  using assms
proof (induction as arbitrary: nodes)
  case (Cons a as)
  show ?case
  proof (cases a)
    case None
    then show ?thesis using Cons by (simp add: answer_event_def)
  next
    case (Some j)
    have j: "j < length nodes" "Some j \<notin> set as" using Cons.prems Some by auto
    define ns where "ns = (if isLocked (u j) then nodes[j := back j] else nodes)"
    have same: "ns ! i = nodes ! i" if "i \<noteq> j" for i using that by (simp add: ns_def)
    have len: "length ns = length nodes" by (simp add: ns_def)
    have "\<forall>i \<in> set (answers as). isLocked (u i) \<longrightarrow> sendRelease (clnts ! i) owner (u i) rd names (ns ! i) = Some (back i, ok i)"
    proof (intro ballI impI)
      fix i assume i: "i \<in> set (answers as)" "isLocked (u i)"
      then have "i \<noteq> j" using j(2) by auto
      then show "sendRelease (clnts ! i) owner (u i) rd names (ns ! i) = Some (back i, ok i)"
        using Cons.prems(3) i Some same by simp
    qed
    then obtain nodes' where n: "late_release clnts owner rd names (map (answer_event u) as) ns = Some nodes'"
      "length nodes' = length nodes"
      "\<forall>i < length nodes. nodes' ! i = (if Some i \<in> set as \<and> isLocked (u i) then back i else ns ! i)"
      using Cons.IH [of ns] Cons.prems(1,2) Some unfolding len by auto
    have "late_release clnts owner rd names (map (answer_event u) (a # as)) nodes = Some nodes'"
      using n(1) Cons.prems(3) Some by (auto simp: answer_event_def ns_def)
    then show ?thesis using n(2,3) j Some by (auto simp: nth_list_update ns_def)
  qed
qed simp

end
