(* ===== verification/Dsync_Attempt.thy ===== *)
theory Dsync_Attempt
  imports Dsync
begin

text \<open>
  Properties of one distributed lock over its life: what an attempt leaves on the lock servers, that
  unlocking ends and leaves a write quorum free, what a refresh tells.
\<close>

subsection \<open>What an attempt leaves behind\<close>

definition lock_args :: "string \<Rightarrow> string \<Rightarrow> string \<Rightarrow> int \<Rightarrow> string list \<Rightarrow> LockArgs" where
  "lock_args owner opsID source quorum names =
     \<lparr>la_UID = opsID, la_Resources = names, la_Source = source, la_Owner = owner, la_Quorum = quorum\<rparr>"

text \<open>
  Calls that ran and answered or never ran, releases that reach every server that was called, and
  answers that all arrive, once each, in any order and with any number of deadlines among them.
\<close>

definition env_ok :: "nat \<Rightarrow> attempt_env \<Rightarrow> bool" where
  "env_ok n env \<longleftrightarrow>
     (\<forall>i < n. reaches (ae_clnts env ! i) \<and> reaches (ae_release env ! i) \<and> reaches (ae_late env ! i) \<or> unreached (ae_clnts env ! i)) \<and>
     distinct (answers (ae_arrivals env)) \<and> set (answers (ae_arrivals env)) = {..<n}"

definition grants :: "attempt_env \<Rightarrow> bool \<Rightarrow> LockArgs \<Rightarrow> lock_map list \<Rightarrow> nat \<Rightarrow> bool" where
  "grants env rd args nodes i \<longleftrightarrow> reaches (ae_clnts env ! i) \<and> snd (take_lock rd (ae_now env) args (nodes ! i))"

lemma not_reaches_unreached: "reaches c \<Longrightarrow> \<not> unreached c"
  by (auto simp: reaches_def unreached_def)

lemma lock_one_env:
  assumes "env_ok n env" and "i < n" and "lockable rd (la_Resources args)"
  shows "lock_one (ae_clnts env ! i) (ae_now env) rd args (nodes ! i) =
    Some (if grants env rd args nodes i then fst (take_lock rd (ae_now env) args (nodes ! i)) else nodes ! i,
          if grants env rd args nodes i then la_UID args else [])"
proof (cases "reaches (ae_clnts env ! i)")
  case True
  obtain m' b where t: "take_lock rd (ae_now env) args (nodes ! i) = (m', b)" by fastforce
  show ?thesis
    using lock_one_reaches [OF True assms(3), of "ae_now env" "nodes ! i"] take_lock_refused [of rd "ae_now env" args "nodes ! i" m'] t True assms(3)
    by (cases b) (simp_all add: grants_def)
next
  case False
  then show ?thesis using assms lock_one_unreached by (auto simp: env_ok_def grants_def)
qed

lemma release_one_back:
  assumes "env_ok n env" and "i < n" and nm: "lockable rd names" and wf: "locker_wf (nodes ! i)"
    and ne: "no_entry (lock_args owner opsID source quorum names) (nodes ! i)"
    and g: "grants env rd (lock_args owner opsID source quorum names) nodes i"
    and c: "c = ae_release env ! i \<or> c = ae_late env ! i"
  shows "sendRelease c owner opsID rd names
    (fst (take_lock rd (ae_now env) (lock_args owner opsID source quorum names) (nodes ! i))) = Some (nodes ! i, True)"
proof -
  let ?args = "lock_args owner opsID source quorum names"
  have r: "reaches c" using assms(1,2) c g not_reaches_unreached by (auto simp: env_ok_def grants_def)
  have "take_lock rd (ae_now env) ?args (nodes ! i) = (fst (take_lock rd (ae_now env) ?args (nodes ! i)), True)"
    using g by (simp add: grants_def prod_eq_iff)
  from take_give_back [OF this wf _ ne] nm show ?thesis
    by (simp add: sendRelease_reaches [OF r nm] lock_args_def)
qed

text \<open>Without a deadline the loop reads every answer, or stops with more refusals than it tolerates.\<close>

definition refusals :: "lock_event list \<Rightarrow> int" where
  "refusals evs = int (length (filter (\<lambda>e. case e of GrantEv i u \<Rightarrow> \<not> isLocked u | DeadlineEv \<Rightarrow> True) evs))"

lemma refusals_nonneg [simp]: "0 \<le> refusals evs"
  by (simp add: refusals_def)

lemma lock_loop_reads:
  assumes "lock_loop tol n evs locks f = (locks', f', rest)" and "length evs = n" and "f \<le> tol"
  shows "if f + refusals evs \<le> tol then f' = f + refusals evs \<and> rest = [] else f' > tol"
  using assms
proof (induction n arbitrary: evs locks f)
  case 0
  then show ?case by (simp add: refusals_def)
next
  case (Suc n)
  then obtain e es where evs: "evs = e # es" "length es = n" by (cases evs) auto
  show ?case
  proof (cases "\<exists>i u. e = GrantEv i u \<and> isLocked u")
    case True
    then obtain i u where e: "e = GrantEv i u" "isLocked u" by blast
    then have r: "refusals evs = refusals es" by (simp add: refusals_def evs)
    show ?thesis unfolding r using Suc.prems(1,3) Suc.IH [of es "locks[i := u]" f] evs e by simp
  next
    case False
    then have r: "refusals evs = 1 + refusals es" by (cases e) (auto simp: refusals_def evs)
    have l: "lock_loop tol (Suc n) evs locks f = (if f + 1 > tol then (locks, f + 1, es) else lock_loop tol n es locks (f + 1))"
      using False by (cases e) (auto simp: evs)
    show ?thesis
    proof (cases "f + 1 > tol")
      case True
      moreover have "\<not> f + refusals evs \<le> tol" unfolding r using True refusals_nonneg [of es] by linarith
      ultimately show ?thesis using Suc.prems(1) l by auto
    next
      case False
      have "(if (f + 1) + refusals es \<le> tol then f' = (f + 1) + refusals es \<and> rest = [] else f' > tol)"
        using Suc.IH [of es locks "f + 1"] Suc.prems(1) evs False l by simp
      then show ?thesis unfolding r by (simp add: add.assoc)
    qed
  qed
qed

lemma refusals_answers:
  assumes "distinct (answers arrivals)" and "set (answers arrivals) = {..<n}" and "None \<notin> set arrivals"
  shows "length arrivals = n" and "refusals (map (answer_event u) arrivals) = int n - int (length (filter (\<lambda>i. isLocked (u i)) [0..<n]))"
proof -
  have "map Some (answers arrivals) = arrivals" using assms(3)
  proof (induction arrivals)
    case (Cons a as)
    then show ?case by (cases a) simp_all
  qed simp
  note arr = this
  have "set (answers arrivals) = set [0..<n]" using assms(2) by (simp add: lessThan_atLeast0)
  then have ms: "mset (answers arrivals) = mset [0..<n]"
    using set_eq_iff_mset_eq_distinct [OF assms(1), of "[0..<n]"] by simp
  have "length (answers arrivals) = n" using mset_eq_length [OF ms] by simp
  then show "length arrivals = n" using arg_cong [OF arr, of length] by simp
  have "mset (filter (\<lambda>i. \<not> isLocked (u i)) (answers arrivals)) = mset (filter (\<lambda>i. \<not> isLocked (u i)) [0..<n])"
    unfolding mset_filter ms ..
  from mset_eq_length [OF this]
  have "length (filter (\<lambda>i. \<not> isLocked (u i)) (answers arrivals)) = length (filter (\<lambda>i. \<not> isLocked (u i)) [0..<n])" .
  moreover have "length (filter (\<lambda>i. isLocked (u i)) [0..<n]) + length (filter (\<lambda>i. \<not> isLocked (u i)) [0..<n]) = n"
    using sum_length_filter_compl [of "\<lambda>i. isLocked (u i)" "[0..<n]"] by simp
  moreover have "refusals (map (answer_event u) (map Some xs)) = int (length (filter (\<lambda>i. \<not> isLocked (u i)) xs))" for xs
    by (induction xs) (simp_all add: refusals_def answer_event_def)
  from this [of "answers arrivals", unfolded arr]
  have "refusals (map (answer_event u) arrivals) = int (length (filter (\<lambda>i. \<not> isLocked (u i)) (answers arrivals)))" .
  ultimately show "refusals (map (answer_event u) arrivals) = int n - int (length (filter (\<lambda>i. isLocked (u i)) [0..<n]))"
    by linarith
qed

lemma lock_answers:
  assumes "distinct (answers arrivals)" and "set (answers arrivals) = {..<n}" and "length locks0 = n"
  obtains as bs locks1 failed where "arrivals = as @ bs"
    and "lock_loop tol n (map (answer_event u) arrivals) (map (\<lambda>_. []) locks0) 0 = (locks1, failed, map (answer_event u) bs)"
    and "length locks1 = n" and "\<forall>i < n. locks1 ! i = (if Some i \<in> set as then u i else [])"
    and "\<forall>i < n. Some i \<in> set as \<longleftrightarrow> Some i \<notin> set bs" and "distinct (answers bs)" and "\<forall>i \<in> set (answers bs). i < n"
    and "None \<notin> set arrivals \<and> 0 \<le> tol \<longrightarrow> (if int n - tol \<le> int (length (filter (\<lambda>i. isLocked (u i)) [0..<n])) then failed \<le> tol \<and> bs = [] else failed > tol)"
proof -
  obtain locks1 failed rest where
    loop: "lock_loop tol n (map (answer_event u) arrivals) (map (\<lambda>_. []) locks0) 0 = (locks1, failed, rest)"
    by (cases "lock_loop tol n (map (answer_event u) arrivals) (map (\<lambda>_. []) locks0) 0")
  obtain used where us: "map (answer_event u) arrivals = used @ rest" "locks1 = apply_grants used (map (\<lambda>_. []) locks0)"
    using lock_loop_split [OF loop] by blast
  obtain as bs where ab: "arrivals = as @ bs" "used = map (answer_event u) as" "rest = map (answer_event u) bs"
    using us(1) by (auto simp: map_eq_append_conv)
  have d: "distinct (answers as)" "distinct (answers bs)" "\<And>i. Some i \<in> set as \<Longrightarrow> Some i \<notin> set bs"
    using assms(1) by (auto simp: ab)
  have mem: "Some i \<in> set arrivals \<longleftrightarrow> i < n" for i using assms(2) by (metis lessThan_iff set_answers)
  show thesis
  proof (rule that [OF ab(1) loop [unfolded ab(3)]])
    show "\<forall>i < n. locks1 ! i = (if Some i \<in> set as then u i else [])"
      using apply_grants_nth [OF d(1), of _ "map (\<lambda>_. []) locks0" u] assms(3) by (simp add: us(2) ab(2))
    show "\<forall>i < n. Some i \<in> set as \<longleftrightarrow> Some i \<notin> set bs" using mem d(3) by (auto simp: ab(1))
    show "\<forall>i \<in> set (answers bs). i < n"
    proof
      fix i assume "i \<in> set (answers bs)"
      then have "Some i \<in> set arrivals" by (simp add: ab(1))
      then show "i < n" by (simp only: mem)
    qed
    show "None \<notin> set arrivals \<and> 0 \<le> tol \<longrightarrow> (if int n - tol \<le> int (length (filter (\<lambda>i. isLocked (u i)) [0..<n])) then failed \<le> tol \<and> bs = [] else failed > tol)"
      using lock_loop_reads [OF loop] refusals_answers(1) [OF assms(1,2)] refusals_answers(2) [OF assms(1,2), of u] by (auto simp: ab(3) split: if_splits)
  qed (use assms(3) d(2) in \<open>simp_all add: us(2)\<close>)
qed

lemma releaseAll_back:
  assumes "length locks = length nodes"
    and "\<forall>i < length nodes. isLocked (locks ! i) \<longrightarrow> sendRelease (clnts ! i) owner (locks ! i) rd names (nodes ! i) = Some (freed i, True)"
  shows "releaseAll clnts tol owner locks rd names nodes =
    Some (map (\<lambda>i. if isLocked (locks ! i) then freed i else nodes ! i) [0..<length nodes], map (\<lambda>_. []) nodes,
      \<not> checkFailedUnlocks (map (\<lambda>_. []) nodes) tol)"
proof -
  have "those (map (\<lambda>i. release_one (clnts ! i) owner rd names (locks ! i) (nodes ! i)) [0..<length nodes]) =
    Some (map (\<lambda>i. (if isLocked (locks ! i) then freed i else nodes ! i, [])) [0..<length nodes])"
    by (rule those_upt_Some) (use assms(2) in \<open>auto simp: release_one_def isLocked_def\<close>)
  then show ?thesis by (simp add: releaseAll_def comp_def map_replicate_const)
qed

text \<open>The servers after an attempt: \<open>u i\<close> is what server \<open>i\<close> answered and \<open>taken i\<close> its lock map then.\<close>

lemma lock_outcome:
  fixes nodes :: "lock_map list"
  assumes env: "distinct (answers (ae_arrivals env))" "set (answers (ae_arrivals env)) = {..<length nodes}"
    and len: "length locks0 = length nodes"
    and calls: "\<forall>i < length nodes. lock_one (ae_clnts env ! i) (ae_now env) rd (lock_args owner opsID source quorum names) (nodes ! i) = Some (taken i, u i)"
    and rel: "\<forall>i < length nodes. isLocked (u i) \<longrightarrow> sendRelease (ae_release env ! i) owner (u i) rd names (taken i) = Some (nodes ! i, True)
      \<and> sendRelease (ae_late env ! i) owner (u i) rd names (taken i) = Some (nodes ! i, True)"
    and same: "\<forall>i < length nodes. \<not> isLocked (u i) \<longrightarrow> taken i = nodes ! i"
  obtains nodes' locks' locked where
    "lock env owner locks0 opsID source rd tolerance quorum names nodes = Some (nodes', locks', locked)"
    and "length nodes' = length nodes" and "length locks' = length nodes" and "locked \<longrightarrow> quorum \<le> locked_count locks'"
    and "\<forall>i < length nodes. (isLocked (locks' ! i) \<longrightarrow> locks' ! i = u i \<and> locked) \<and>
      nodes' ! i = (if isLocked (locks' ! i) then taken i else nodes ! i)"
    and "None \<notin> set (ae_arrivals env) \<and> 0 \<le> tolerance \<and> tolerance = int (length nodes) - quorum \<longrightarrow>
      (locked \<longleftrightarrow> quorum \<le> int (length (filter (\<lambda>i. isLocked (u i)) [0..<length nodes])))"
proof -
  let ?n = "length nodes" and ?rs = "map (\<lambda>i. (taken i, u i)) [0..<length nodes]"
  have bc: "those (map (\<lambda>i. lock_one (ae_clnts env ! i) (ae_now env) rd (lock_args owner opsID source quorum names) (nodes ! i)) [0..<?n]) = Some ?rs"
    by (rule those_upt_Some) (rule calls)
  have idx: "i < ?n" if "Some i \<in> set (ae_arrivals env)" for i using that env(2) by (metis lessThan_iff set_answers)
  have evs: "map (\<lambda>a. case a of Some i \<Rightarrow> GrantEv i (snd (?rs ! i)) | None \<Rightarrow> DeadlineEv) (ae_arrivals env) =
      map (answer_event u) (ae_arrivals env)"
    by (rule map_cong) (auto simp: answer_event_def idx split: option.split)
  obtain as bs locks1 failed where ab: "ae_arrivals env = as @ bs"
    and loop: "lock_loop tolerance ?n (map (answer_event u) (ae_arrivals env)) (map (\<lambda>_. []) locks0) 0 = (locks1, failed, map (answer_event u) bs)"
    and l1: "length locks1 = ?n" "\<forall>i < ?n. locks1 ! i = (if Some i \<in> set as then u i else [])"
    and cover: "\<forall>i < ?n. Some i \<in> set as \<longleftrightarrow> Some i \<notin> set bs" and bs: "distinct (answers bs)" "\<forall>i \<in> set (answers bs). i < ?n"
    and all: "None \<notin> set (ae_arrivals env) \<and> 0 \<le> tolerance \<longrightarrow>
      (if int ?n - tolerance \<le> int (length (filter (\<lambda>i. isLocked (u i)) [0..<?n])) then failed \<le> tolerance \<and> bs = [] else failed > tolerance)"
    using lock_answers [OF env len] by blast
  define locked where "locked \<longleftrightarrow> checkQuorumLocked locks1 quorum \<and> failed \<le> tolerance"
  define nodes2 where "nodes2 = map (\<lambda>i. if \<not> locked \<and> isLocked (locks1 ! i) then nodes ! i else taken i) [0..<?n]"
  define locks2 where "locks2 = (if locked then locks1 else map (\<lambda>_. []) nodes)"
  have taken: "map fst ?rs ! i = taken i" if "i < ?n" for i using that by simp
  have "releaseAll (ae_release env) tolerance owner locks1 rd names (map fst ?rs) = Some (nodes2, locks2, \<not> checkFailedUnlocks locks2 tolerance)" if "\<not> locked"
    using releaseAll_back [of locks1 "map fst ?rs" "ae_release env" owner rd names "\<lambda>i. nodes ! i" tolerance] l1 rel that
    by (simp add: nodes2_def locks2_def isLocked_def comp_def map_replicate_const cong: if_cong)
  moreover have "nodes2 = map fst ?rs" "locks2 = locks1" if locked using that by (simp_all add: nodes2_def locks2_def)
  ultimately obtain b where b: "(if locked then Some (map fst ?rs, locks1, True)
      else releaseAll (ae_release env) tolerance owner locks1 rd names (map fst ?rs)) = Some (nodes2, locks2, b)"
    by (cases locked) auto
  have "\<forall>i \<in> set (answers bs). isLocked (u i) \<longrightarrow> sendRelease (ae_late env ! i) owner (u i) rd names (nodes2 ! i) = Some (nodes ! i, True)"
    using bs(2) cover l1(2) rel by (auto simp: nodes2_def isLocked_def)
  with late_release_effect [OF bs(1), of nodes2 u "ae_late env" owner rd names "\<lambda>i. nodes ! i" "\<lambda>_. True"] bs(2)
  obtain nodes3 where late: "late_release (ae_late env) owner rd names (map (answer_event u) bs) nodes2 = Some nodes3"
      "length nodes3 = ?n" "\<forall>i < ?n. nodes3 ! i = (if Some i \<in> set bs \<and> isLocked (u i) then nodes ! i else nodes2 ! i)"
    by (auto simp: nodes2_def)
  show thesis
  proof (rule that)
    show "lock env owner locks0 opsID source rd tolerance quorum names nodes = Some (nodes3, locks2, locked)"
      unfolding lock_def Let_def lock_args_def [symmetric] bc
      using b late(1) by (simp add: evs loop locked_def [symmetric] cong: if_cong)
    show "\<forall>i < ?n. (isLocked (locks2 ! i) \<longrightarrow> locks2 ! i = u i \<and> locked) \<and> nodes3 ! i = (if isLocked (locks2 ! i) then taken i else nodes ! i)"
      using late(3) l1 cover same by (auto simp: locks2_def nodes2_def isLocked_def)
    show "locked \<longrightarrow> quorum \<le> locked_count locks2" by (simp add: locks2_def locked_def checkQuorumLocked_def)
    have "locked_count locks1 = int (length (filter (\<lambda>i. isLocked (u i)) [0..<?n]))" if "bs = []"
    proof -
      have "locks1 = map u [0..<?n]" using l1 cover that by (intro nth_equalityI) auto
      then show ?thesis by (simp add: locked_count_def filter_map comp_def)
    qed
    then show "None \<notin> set (ae_arrivals env) \<and> 0 \<le> tolerance \<and> tolerance = int ?n - quorum \<longrightarrow>
      (locked \<longleftrightarrow> quorum \<le> int (length (filter (\<lambda>i. isLocked (u i)) [0..<?n])))"
      using all by (auto simp: locked_def checkQuorumLocked_def split: if_splits)
  qed (simp_all add: late(2) locks2_def l1(1))
qed

lemma lock_effect:
  fixes nodes :: "lock_map list"
  assumes env: "env_ok (length nodes) env" and nm: "lockable rd names" and uid: "opsID \<noteq> []"
    and len: "length locks0 = length nodes"
    and ok: "list_all (\<lambda>m. locker_wf m \<and> no_entry (lock_args owner opsID source quorum names) m) nodes"
  obtains nodes' locks' locked where
    "lock env owner locks0 opsID source rd tolerance quorum names nodes = Some (nodes', locks', locked)"
    and "length nodes' = length nodes" and "length locks' = length nodes" and "locked \<longrightarrow> quorum \<le> locked_count locks'"
    and "\<forall>i < length nodes.
      (isLocked (locks' ! i) \<longrightarrow> locks' ! i = opsID \<and> locked \<and> grants env rd (lock_args owner opsID source quorum names) nodes i) \<and>
      nodes' ! i = (if isLocked (locks' ! i) then fst (take_lock rd (ae_now env) (lock_args owner opsID source quorum names) (nodes ! i)) else nodes ! i)"
    and "None \<notin> set (ae_arrivals env) \<and> 0 \<le> tolerance \<and> tolerance = int (length nodes) - quorum \<longrightarrow>
      (locked \<longleftrightarrow> quorum \<le> int (length (filter (grants env rd (lock_args owner opsID source quorum names) nodes) [0..<length nodes])))"
proof -
  define args where "args = lock_args owner opsID source quorum names"
  define u where "u = (\<lambda>i. if grants env rd args nodes i then opsID else [])"
  define taken where "taken = (\<lambda>i. if grants env rd args nodes i then fst (take_lock rd (ae_now env) args (nodes ! i)) else nodes ! i)"
  have ul: "isLocked (u i) \<longleftrightarrow> grants env rd args nodes i" for i using uid by (simp add: u_def isLocked_def)
  have a: "la_UID args = opsID" "lockable rd (la_Resources args)" using nm by (simp_all add: args_def lock_args_def)
  have calls: "\<forall>i < length nodes. lock_one (ae_clnts env ! i) (ae_now env) rd args (nodes ! i) = Some (taken i, u i)"
    using lock_one_env [OF env _ a(2)] a(1) by (simp add: u_def taken_def)
  have rel: "\<forall>i < length nodes. isLocked (u i) \<longrightarrow> sendRelease (ae_release env ! i) owner (u i) rd names (taken i) = Some (nodes ! i, True)
      \<and> sendRelease (ae_late env ! i) owner (u i) rd names (taken i) = Some (nodes ! i, True)"
  proof (intro allI impI)
    fix i assume i: "i < length nodes" "isLocked (u i)"
    then have g: "grants env rd args nodes i" by (simp add: ul)
    have m: "locker_wf (nodes ! i)" "no_entry args (nodes ! i)" using ok i(1) by (auto simp: list_all_iff args_def)
    from release_one_back [OF env i(1) nm m(1) m(2) [unfolded args_def] g [unfolded args_def]] g
    show "sendRelease (ae_release env ! i) owner (u i) rd names (taken i) = Some (nodes ! i, True)
      \<and> sendRelease (ae_late env ! i) owner (u i) rd names (taken i) = Some (nodes ! i, True)"
      by (simp add: u_def taken_def args_def)
  qed
  have arr: "distinct (answers (ae_arrivals env))" "set (answers (ae_arrivals env)) = {..<length nodes}"
    using env by (simp_all only: env_ok_def)
  have same: "\<forall>i < length nodes. \<not> isLocked (u i) \<longrightarrow> taken i = nodes ! i" by (simp add: ul taken_def)
  show thesis
  proof (rule lock_outcome [OF arr len calls [unfolded args_def] rel same, of tolerance], rule that [folded args_def])
    fix nodes' locks' locked
    assume e: "\<forall>i<length nodes. (isLocked (locks' ! i) \<longrightarrow> locks' ! i = u i \<and> locked) \<and>
      nodes' ! i = (if isLocked (locks' ! i) then taken i else nodes ! i)"
    have "(isLocked (locks' ! i) \<longrightarrow> locks' ! i = opsID \<and> locked \<and> grants env rd args nodes i) \<and>
      nodes' ! i = (if isLocked (locks' ! i) then fst (take_lock rd (ae_now env) args (nodes ! i)) else nodes ! i)"
      if "i < length nodes" for i
    proof (cases "isLocked (locks' ! i)")
      case True
      then have "isLocked (u i)" "locks' ! i = u i" "locked" "nodes' ! i = taken i" using e that by auto
      then show ?thesis by (simp add: ul) (simp add: u_def taken_def)
    qed (use e that in simp)
    then show "\<forall>i<length nodes. (isLocked (locks' ! i) \<longrightarrow> locks' ! i = opsID \<and> locked \<and> grants env rd args nodes i) \<and>
      nodes' ! i = (if isLocked (locks' ! i) then fst (take_lock rd (ae_now env) args (nodes ! i)) else nodes ! i)"
      by blast
  qed (simp_all add: ul)
qed


definition sample_env :: attempt_env where
  "sample_env = \<lparr>ae_now = 5, ae_clnts = [LocalClient, RemoteClient Delivered, NilClient],
     ae_arrivals = [Some 2, Some 0, Some 1], ae_release = replicate 3 LocalClient, ae_late = replicate 3 LocalClient\<rparr>"

lemma sample_env_ok: "env_ok 3 sample_env"
  by (auto simp: env_ok_def sample_env_def reaches_def unreached_def less_Suc_eq numeral_3_eq_3 nth_Cons split: nat.splits)

lemma sample_lockable: "lockable rd [''b/o'']"
  by (simp add: lockable_def wire_safe_def maxScanTokenSize_def)


subsection \<open>Unlocking\<close>

definition holds_write :: "string \<Rightarrow> string \<Rightarrow> string list \<Rightarrow> lock_map \<Rightarrow> bool" where
  "holds_write owner uid names m \<longleftrightarrow>
     list_all (\<lambda>r. case m r of Some [e] \<Rightarrow> lr_Writer e \<and> lr_UID e = uid \<and> lr_Owner e = owner | _ \<Rightarrow> False) names"

definition free_of :: "string \<Rightarrow> string \<Rightarrow> string list \<Rightarrow> lock_map \<Rightarrow> bool" where
  "free_of owner uid names m \<longleftrightarrow>
     list_all (\<lambda>r. \<not> list_ex (\<lambda>e. lr_UID e = uid \<and> lr_Owner e = owner) (entries_of m r)) names"

lemma holds_writeD:
  "holds_write owner uid names m \<Longrightarrow> r \<in> set names \<Longrightarrow> \<exists>e. m r = Some [e] \<and> lr_Writer e \<and> is_entry (release_args owner uid names) e"
proof -
  assume h: "holds_write owner uid names m" and r: "r \<in> set names"
  have "case m r of Some [e] \<Rightarrow> lr_Writer e \<and> lr_UID e = uid \<and> lr_Owner e = owner | _ \<Rightarrow> False"
    using h r unfolding holds_write_def list_all_iff by blast
  then show ?thesis
    by (simp add: is_entry_def release_args_def split: option.splits list.splits)
qed

lemma Unlock_holder:
  assumes h: "holds_write owner uid names m"
  shows "Unlock m (release_args owner uid names) = (\<lambda>x. if x \<in> set names then None else m x, True, None)"
proof -
  let ?a = "release_args owner uid names"
  have rs: "la_Resources ?a = names" by (simp add: release_args_def)
  have "\<forall>r \<in> set names. isWriteLock (entries_of m r)"
  proof
    fix r assume "r \<in> set names"
    with holds_writeD [OF h] obtain e where "m r = Some [e]" "lr_Writer e" by blast
    then show "isWriteLock (entries_of m r)" by (simp add: isWriteLock_def entries_of_def)
  qed
  then have can: "canTakeUnlock m (la_Resources ?a)" by (simp add: canTakeUnlock_iff rs)
  have "\<forall>r \<in> set names. m r = None \<or> (\<exists>e. m r = Some [e] \<and> is_entry ?a e)" using holds_writeD [OF h] by blast
  from fold_unlock_own [OF this] have "fold (unlock_one ?a) names m = (\<lambda>x. if x \<in> set names then None else m x)" by (intro ext)
  then show ?thesis using can by (simp add: Unlock_def rs)
qed

lemma free_of_removed: "free_of owner uid names (\<lambda>x. if x \<in> set names then None else m x)"
  by (simp add: free_of_def list_all_iff entries_of_def)

text \<open>One server in one round: a holder that is reached is freed, one that is not stays.\<close>

lemma release_one_round:
  assumes nm: "lockable False names" and c: "reaches c \<or> unreached c"
    and h: "isLocked lk \<longrightarrow> holds_write owner lk names m"
  shows "release_one c owner False names lk m =
    Some (if isLocked lk \<and> reaches c then \<lambda>x. if x \<in> set names then None else m x else m, if reaches c then [] else lk)"
proof (cases "isLocked lk")
  case False
  then show ?thesis by (auto simp: release_one_def isLocked_def)
next
  case True
  show ?thesis
  proof (cases "reaches c")
    case reach: True
    then show ?thesis using True h Unlock_holder [of owner lk names m]
      by (simp add: release_one_def sendRelease_reaches [OF reach nm] give_back_def)
  next
    case False
    then have "unreached c" using c by simp
    then have "sendRelease c owner lk False names m = Some (m, False)"
      unfolding unreached_def by (elim disjE exE) (auto simp: sendRelease_def netUnlock_def restCall_def)
    then show ?thesis using True False by (simp add: release_one_def)
  qed
qed

definition unlock_inv :: "string \<Rightarrow> string \<Rightarrow> string list \<Rightarrow> string list \<Rightarrow> lock_map list \<Rightarrow> bool" where
  "unlock_inv owner uid names locks nodes \<longleftrightarrow> length locks = length nodes \<and>
     (\<forall>i < length nodes. isLocked (locks ! i) \<longrightarrow> locks ! i = uid \<and> holds_write owner uid names (nodes ! i)) \<and>
     (\<forall>i < length nodes. \<not> isLocked (locks ! i) \<longrightarrow> free_of owner uid names (nodes ! i))"

lemma releaseAll_round:
  assumes nm: "lockable False names" and inv: "unlock_inv owner uid names locks nodes"
    and c: "\<forall>i < length nodes. reaches (clnts ! i) \<or> unreached (clnts ! i)"
  obtains nodes' locks' where
    "releaseAll clnts tol owner locks False names nodes = Some (nodes', locks', \<not> checkFailedUnlocks locks' tol)"
    and "unlock_inv owner uid names locks' nodes'" and "length nodes' = length nodes"
    and "\<forall>i < length nodes. reaches (clnts ! i) \<longrightarrow> locks' ! i = []"
proof -
  define m' where "m' = (\<lambda>i. if isLocked (locks ! i) \<and> reaches (clnts ! i) then \<lambda>x. if x \<in> set names then None else (nodes ! i) x else nodes ! i)"
  define l' where "l' = (\<lambda>i. if reaches (clnts ! i) then [] else locks ! i)"
  have "\<forall>i < length nodes. release_one (clnts ! i) owner False names (locks ! i) (nodes ! i) = Some (m' i, l' i)"
  proof (intro allI impI)
    fix i assume i: "i < length nodes"
    have "isLocked (locks ! i) \<longrightarrow> holds_write owner (locks ! i) names (nodes ! i)"
      using inv i by (auto simp: unlock_inv_def)
    with release_one_round [OF nm _ this] c i
    show "release_one (clnts ! i) owner False names (locks ! i) (nodes ! i) = Some (m' i, l' i)"
      by (simp add: m'_def l'_def)
  qed
  from those_upt_Some [of _ _ "\<lambda>i. (m' i, l' i)", OF this]
  have r: "releaseAll clnts tol owner locks False names nodes =
      Some (map m' [0..<length nodes], map l' [0..<length nodes], \<not> checkFailedUnlocks (map l' [0..<length nodes]) tol)"
    by (simp add: releaseAll_def comp_def)
  have "\<forall>i < length nodes. isLocked (l' i) \<longrightarrow> l' i = uid \<and> holds_write owner uid names (m' i)"
    using inv by (auto simp: unlock_inv_def m'_def l'_def isLocked_def)
  moreover have "\<forall>i < length nodes. \<not> isLocked (l' i) \<longrightarrow> free_of owner uid names (m' i)"
    using inv by (auto simp: free_of_removed unlock_inv_def m'_def l'_def isLocked_def)
  ultimately have "unlock_inv owner uid names (map l' [0..<length nodes]) (map m' [0..<length nodes])"
    unfolding unlock_inv_def by auto
  with r show thesis by (rule that) (simp_all add: l'_def)
qed

text \<open>The loop as a whole.\<close>

lemma all_released: "n > 0 \<Longrightarrow> \<forall>i < n. locks ! i = [] \<Longrightarrow> length locks = n \<Longrightarrow> \<not> checkFailedUnlocks locks (int n div 2)"
proof -
  assume n: "n > 0" and l: "\<forall>i < n. locks ! i = []" "length locks = n"
  have "\<forall>x \<in> set locks. \<not> isLocked x" using l by (auto simp: in_set_conv_nth isLocked_def)
  then have "locked_count locks = 0" by (simp add: locked_count_def filter_empty_conv)
  then show ?thesis using n l(2) by (auto simp: checkFailedUnlocks_def)
qed

lemma unlock_rounds_outcome:
  assumes nm: "lockable False names" and inv: "unlock_inv owner uid names locks nodes" and n: "length nodes = n" "n > 0"
    and c: "\<forall>clnts \<in> set rounds. \<forall>i < n. reaches (clnts ! i) \<or> unreached (clnts ! i)"
    and once: "\<exists>clnts \<in> set rounds. \<forall>i < n. reaches (clnts ! i)"
  shows "\<exists>nodes' locks'. unlock_rounds rounds (int n div 2) owner locks False names nodes = Some (Inr (nodes', locks')) \<and>
    unlock_inv owner uid names locks' nodes' \<and> length nodes' = n \<and> \<not> checkFailedUnlocks locks' (int n div 2)"
  using assms
proof (induction rounds arbitrary: locks nodes)
  case (Cons clnts rounds)
  have "\<forall>i < length nodes. reaches (clnts ! i) \<or> unreached (clnts ! i)" using Cons.prems by simp
  with Cons.prems(2) obtain nodes1 locks1 where
    r: "releaseAll clnts (int n div 2) owner locks False names nodes = Some (nodes1, locks1, \<not> checkFailedUnlocks locks1 (int n div 2))"
    and i1: "unlock_inv owner uid names locks1 nodes1" and ln: "length nodes1 = length nodes"
    and fr: "\<forall>i < length nodes. reaches (clnts ! i) \<longrightarrow> locks1 ! i = []"
    by (rule releaseAll_round [OF nm])
  note l1 = ln [unfolded Cons.prems(3)] fr [unfolded Cons.prems(3)]
  show ?case
  proof (cases "checkFailedUnlocks locks1 (int n div 2)")
    case False
    then show ?thesis using r i1 l1(1) by simp
  next
    case True
    have "length locks1 = n" using i1 l1(1) by (simp add: unlock_inv_def)
    with True have "\<not> (\<forall>i < n. reaches (clnts ! i))" using all_released [OF Cons.prems(4), of locks1] l1(2) by blast
    then have "\<exists>clnts \<in> set rounds. \<forall>i < n. reaches (clnts ! i)" using Cons.prems(6) by auto
    from Cons.IH [OF nm i1 l1(1) Cons.prems(4) _ this] Cons.prems(5) show ?thesis using r True by simp
  qed
qed simp

lemma filter_length_mono:
  assumes "length xs = length ys" and "\<forall>i < length xs. P (xs ! i) \<longrightarrow> Q (ys ! i)"
  shows "length (filter P xs) \<le> length (filter Q ys)"
  unfolding length_filter_conv_card using assms by (intro card_mono) auto

lemma copy_slice_same [simp]: "length dst = length src \<Longrightarrow> copy_slice dst src = src"
  by (simp add: copy_slice_def)

lemma free_quorum:
  assumes "unlock_inv owner uid names locks nodes" and "\<not> checkFailedUnlocks locks (int (length nodes) div 2)"
  shows "fst (lock_quorum (length nodes) False) \<le> int (length (filter (free_of owner uid names) nodes))"
proof -
  have len: "length locks = length nodes" using assms(1) by (simp add: unlock_inv_def)
  have "length (filter (\<lambda>l. \<not> isLocked l) locks) \<le> length (filter (free_of owner uid names) nodes)"
    by (rule filter_length_mono) (use assms(1) in \<open>auto simp: unlock_inv_def\<close>)
  moreover have "locked_count locks + int (length (filter (\<lambda>l. \<not> isLocked l) locks)) = int (length nodes)"
    using sum_length_filter_compl [of isLocked locks] len by (simp add: locked_count_def)
  moreover have "locked_count locks \<le> int (length nodes) - fst (lock_quorum (length nodes) False)"
    using assms(2) len by (simp add: checkFailedUnlocks_def lock_quorum_def Let_def split: if_splits)
  ultimately show ?thesis by linarith
qed


definition sample_held :: lock_map where
  "sample_held = fst (Lock 5 newLocker (lock_args ''node1'' ''u1'' ''src'' 2 [''b/o'']))"

lemma sample_held_eq: "sample_held r = (if r = ''b/o'' then Some [write_info 5 (lock_args ''node1'' ''u1'' ''src'' 2 [''b/o'']) r] else None)"
  by (simp add: sample_held_def Lock_def canTakeLock_def newLocker_def lock_args_def)


text \<open>A server that does not hold the write lock on all the names refuses every release.\<close>

definition stuck :: "string list \<Rightarrow> string \<Rightarrow> lock_map \<Rightarrow> bool" where
  "stuck names lk m \<longleftrightarrow> isLocked lk \<and> \<not> canTakeUnlock m names"

lemma absent_no_unlock: "canTakeUnlock m names \<Longrightarrow> r \<in> set names \<Longrightarrow> m r \<noteq> None"
  by (auto simp: canTakeUnlock_iff entries_of_def isWriteLock_def split: option.splits dest: bspec [of _ _ r])

lemma release_one_stuck:
  assumes nm: "lockable False names" and s: "stuck names lk m"
  shows "release_one c owner False names lk m = Some (m, lk)"
proof -
  let ?a = "release_args owner lk names"
  have u: "Unlock m ?a = (m, False, Some errUnlockRead)" using s by (simp add: Unlock_def stuck_def release_args_def)
  have safe: "list_all wire_safe (la_Resources ?a)" using nm by (simp add: lockable_def release_args_def)
  have "Unlock m (?a\<lparr>la_Resources := sort (la_Resources ?a)\<rparr>) = Unlock m ?a"
    by (rule Unlock_cong [of "sort (la_Resources ?a)"]) simp_all
  then have sv: "serve UnlockHandler ?a m = (m, Some errUnlockRead)"
    by (simp add: serve_def getLockArgs_names [OF safe] UnlockHandler_def u)
  have "sendRelease c owner lk False names m = Some (m, False)"
  proof (cases c)
    case (RemoteClient t)
    have "restCall t UnlockHandler ?a m = (m, False, Some (case t of Delivered \<Rightarrow> errUnlockRead | RequestLost e \<Rightarrow> e | ReplyLost e \<Rightarrow> e))"
      by (cases t) (simp_all add: restCall_def sv errUnlockRead_def errLockConflict_def errLockNotFound_def)
    then show ?thesis by (simp add: sendRelease_def netUnlock_def RemoteClient)
  qed (simp_all add: sendRelease_def netUnlock_def u)
  then show ?thesis using s by (simp add: release_one_def stuck_def)
qed

lemma release_one_total: "release_one c owner False names lk m \<noteq> None"
  by (cases c) (auto simp: release_one_def sendRelease_def netUnlock_def)

lemma releaseAll_total:
  obtains nodes' locks' where
    "releaseAll clnts tol owner locks False names nodes = Some (nodes', locks', \<not> checkFailedUnlocks locks' tol)"
    and "length nodes' = length nodes" and "length locks' = length nodes"
    and "\<forall>i < length nodes. release_one (clnts ! i) owner False names (locks ! i) (nodes ! i) = Some (nodes' ! i, locks' ! i)"
proof -
  define g where "g = (\<lambda>i. the (release_one (clnts ! i) owner False names (locks ! i) (nodes ! i)))"
  have g: "\<forall>i < length nodes. release_one (clnts ! i) owner False names (locks ! i) (nodes ! i) = Some (g i)"
    using release_one_total by (simp add: g_def)
  from those_upt_Some [OF this]
  have "releaseAll clnts tol owner locks False names nodes =
    Some (map fst (map g [0..<length nodes]), map snd (map g [0..<length nodes]), \<not> checkFailedUnlocks (map snd (map g [0..<length nodes])) tol)"
    by (simp add: releaseAll_def)
  then show thesis by (rule that) (use g in simp_all)
qed

lemma spinning_rounds:
  assumes nm: "lockable False names" and len: "length locks = length nodes"
    and many: "int (length nodes) div 2 < int (length (filter (\<lambda>i. stuck names (locks ! i) (nodes ! i)) [0..<length nodes]))"
  shows "\<exists>st. unlock_rounds rounds (int (length nodes) div 2) owner locks False names nodes = Some (Inl st)"
  using len many
proof (induction rounds arbitrary: locks nodes)
  case (Cons clnts rounds)
  let ?tol = "int (length nodes) div 2"
  obtain nodes1 locks1 where
    r: "releaseAll clnts ?tol owner locks False names nodes = Some (nodes1, locks1, \<not> checkFailedUnlocks locks1 ?tol)"
    and l: "length nodes1 = length nodes" "length locks1 = length nodes"
    and o: "\<forall>i < length nodes. release_one (clnts ! i) owner False names (locks ! i) (nodes ! i) = Some (nodes1 ! i, locks1 ! i)"
    by (rule releaseAll_total)
  have keep: "nodes1 ! i = nodes ! i \<and> locks1 ! i = locks ! i" if "i < length nodes" "stuck names (locks ! i) (nodes ! i)" for i
    using o that release_one_stuck [OF nm that(2)] by auto
  have s: "length (filter (\<lambda>i. stuck names (locks ! i) (nodes ! i)) [0..<length nodes]) \<le>
      length (filter (\<lambda>i. stuck names (locks1 ! i) (nodes1 ! i)) [0..<length nodes1])"
    by (rule filter_length_mono) (use keep l in auto)
  have "length (filter (\<lambda>i. stuck names (locks1 ! i) (nodes1 ! i)) [0..<length nodes1]) \<le> length (filter isLocked locks1)"
    by (rule filter_length_mono) (use l in \<open>auto simp: stuck_def\<close>)
  then have "checkFailedUnlocks locks1 ?tol"
    using s Cons.prems(2) by (auto simp: checkFailedUnlocks_def locked_count_def)
  moreover have "\<exists>st. unlock_rounds rounds ?tol owner locks1 False names nodes1 = Some (Inl st)"
    using Cons.IH [of locks1 nodes1] l s Cons.prems(2) by simp
  ultimately show ?case using r by simp
qed simp



subsection \<open>Refreshing\<close>

definition refresh_count :: "refresh_result \<Rightarrow> refresh_result list \<Rightarrow> int" where
  "refresh_count r rs = int (length (filter (\<lambda>x. x = r) rs))"

lemma refresh_count_simps [simp]:
  "refresh_count r [] = 0" "refresh_count r (x # rs) = (if x = r then 1 else 0) + refresh_count r rs" "0 \<le> refresh_count r rs"
  by (simp_all add: refresh_count_def)

text \<open>Stopping early does not change the verdict.\<close>

lemma refresh_loop_verdict:
  assumes "f \<le> q" and "f + refresh_count RefreshFailed rs + (s + refresh_count RefreshSucceeded rs) \<le> 2 * q"
  shows "(case refresh_loop q rs f s of (f', s') \<Rightarrow> s' \<ge> q \<or> f' < q) \<longleftrightarrow>
    s + refresh_count RefreshSucceeded rs \<ge> q \<or> f + refresh_count RefreshFailed rs < q"
  using assms
proof (induction rs arbitrary: f s)
  case (Cons r rs)
  note nn = refresh_count_simps(3) [of RefreshFailed rs] refresh_count_simps(3) [of RefreshSucceeded rs]
  show ?case
  proof (cases r)
    case RefreshOffline
    then show ?thesis using Cons by simp
  next
    case RefreshSucceeded
    then show ?thesis using Cons.IH [of f "s + 1"] Cons.prems by (simp add: algebra_simps)
  next
    case RefreshFailed
    then have p: "f + (1 + refresh_count RefreshFailed rs) + (s + refresh_count RefreshSucceeded rs) \<le> 2 * q" using Cons.prems(2) by simp
    show ?thesis
    proof (cases "f + 1 > q")
      case True
      then have "\<not> s \<ge> q" "\<not> s + refresh_count RefreshSucceeded rs \<ge> q" "\<not> f + 1 + refresh_count RefreshFailed rs < q"
        using Cons.prems(1) p nn by linarith+
      then show ?thesis using True RefreshFailed by simp
    next
      case False
      then show ?thesis using Cons.IH [of "f + 1" s] Cons.prems RefreshFailed by (simp add: algebra_simps)
    qed
  qed
qed auto

lemma refresh_one_reaches:
  assumes c: "reaches c" and nm: "lockable True (la_Resources args)"
  shows "\<exists>m'. refresh_one c now None args m =
    Some (m', if list_ex (is_entry args) (entries_of m (hd (la_Resources args))) then RefreshSucceeded else RefreshFailed)"
proof -
  obtain a rs where rs: "la_Resources args = a # rs" using nm by (cases "la_Resources args") (auto simp: lockable_def)
  have s: "list_all wire_safe (la_Resources args)" "sorted (la_Resources args)" using nm by (simp_all add: lockable_def)
  let ?held = "list_ex (is_entry args) (entries_of m a)"
  define m' where "m' = (if ?held then m(a \<mapsto> refresh_first now args (entries_of m a)) else m)"
  have r: "Refresh now None m args = Some (m', ?held, None)"
    by (cases "m a") (simp_all add: Refresh_def rs entries_of_def m'_def)
  have sv: "serve (RefreshHandler now None) args m = (m', if ?held then None else Some errLockNotFound)"
    by (simp add: serve_names [OF s] RefreshHandler_def r)
  have "netRefresh c now None args m = Some (m', ?held, None)"
    using c unfolding reaches_def netRefresh_def by (elim disjE) (simp_all add: r restCall_def sv)
  then show ?thesis using c by (auto simp: refresh_one_def reaches_def rs)
qed

lemma refresh_counts:
  assumes "mset arrivals = mset [0..<length nodes]" and "\<forall>i < length nodes. res i = (if P (nodes ! i) then RefreshSucceeded else RefreshFailed)"
  shows "refresh_count RefreshFailed (map res arrivals) = int (length (filter (\<lambda>m. \<not> P m) nodes))"
    and "refresh_count RefreshSucceeded (map res arrivals) = int (length nodes) - int (length (filter (\<lambda>m. \<not> P m) nodes))"
proof -
  have "refresh_count r (map res arrivals) = refresh_count r (map res [0..<length nodes])" for r
    unfolding refresh_count_def filter_map length_map using mset_eq_length [of "filter _ arrivals" "filter _ [0..<length nodes]"] assms(1)
    by (metis mset_filter)
  moreover have "map res [0..<length nodes] = map (\<lambda>m. if P m then RefreshSucceeded else RefreshFailed) nodes"
    by (rule nth_equalityI) (use assms(2) in simp_all)
  moreover have "refresh_count RefreshFailed (map (\<lambda>m. if P m then RefreshSucceeded else RefreshFailed) ns) = int (length (filter (\<lambda>m. \<not> P m) ns))"
    "refresh_count RefreshSucceeded (map (\<lambda>m. if P m then RefreshSucceeded else RefreshFailed) ns) = int (length ns) - int (length (filter (\<lambda>m. \<not> P m) ns))" for ns
    by (induction ns) auto
  ultimately show "refresh_count RefreshFailed (map res arrivals) = int (length (filter (\<lambda>m. \<not> P m) nodes))"
    and "refresh_count RefreshSucceeded (map res arrivals) = int (length nodes) - int (length (filter (\<lambda>m. \<not> P m) nodes))"
    by simp_all
qed



subsection \<open>Names on the wire\<close>

text \<open>
  The names of a request reach a remote lock server as they were sent, in sorted order, when no
  name contains a line feed, ends with a carriage return or exceeds the buffer of the scanner. The
  server then grants a write lock exactly when it would grant it to a caller of its own node.
\<close>

theorem names_reach_server:
  assumes "list_all wire_safe names"
  shows "getLockArgs (lock_args owner opsID source quorum names) (names_body names) =
      Inr (lock_args owner opsID source quorum (sort names))
    \<and> serve (LockHandler now) (lock_args owner opsID source quorum names) m =
      (case Lock now m (lock_args owner opsID source quorum names) of
         (m', granted) \<Rightarrow> (m', if granted then None else Some errLockConflict))"
proof -
  let ?a = "lock_args owner opsID source quorum names"
  have "getLockArgs ?a (names_body (la_Resources ?a)) = Inr (?a\<lparr>la_Resources := sort (la_Resources ?a)\<rparr>)"
    by (rule getLockArgs_names) (simp add: lock_args_def assms)
  then have g: "getLockArgs ?a (names_body names) = Inr (lock_args owner opsID source quorum (sort names))"
    and "serve (LockHandler now) ?a m = the (LockHandler now (?a\<lparr>la_Resources := sort (la_Resources ?a)\<rparr>) m)"
    by (simp_all add: lock_args_def serve_def LockHandler_def split: prod.split)
  then show ?thesis by (simp add: LockHandler_def Lock_sort split: prod.split)
qed

theorem names_reach_server_witness:
  "getLockArgs (lock_args ''node1'' ''u1'' ''src'' 2 [''b/o'', ''b/p'']) (names_body [''b/o'', ''b/p'']) =
     Inr (lock_args ''node1'' ''u1'' ''src'' 2 (sort [''b/o'', ''b/p'']))"
proof -
  have "list_all wire_safe [''b/o'', ''b/p'']" by (simp add: wire_safe_def maxScanTokenSize_def)
  from names_reach_server [OF this] show ?thesis by blast
qed

text \<open>A name with a line feed arrives as two names.\<close>

lemma split_name_arrives:
  assumes "wire_safe a" and "wire_safe b" and "nm = a @ newline # b" and "la_Resources args = [nm]"
  shows "lock_one (RemoteClient Delivered) now False args m =
    (case Lock now m (args\<lparr>la_Resources := [a, b]\<rparr>) of (m', g) \<Rightarrow> Some (m', if g then la_UID args else []))"
proof -
  have "names_body [nm] = names_body [a, b]" by (simp add: names_body_def assms(3))
  then have "getLockArgs args (names_body (la_Resources args)) = Inr (args\<lparr>la_Resources := sort [a, b]\<rparr>)"
    using assms scan_lines_names [of "[a, b]"] by (simp add: getLockArgs_def)
  moreover have "Lock now m (args\<lparr>la_Resources := sort [a, b]\<rparr>) = Lock now m (args\<lparr>la_Resources := [a, b]\<rparr>)"
    using Lock_sort [of now m "args\<lparr>la_Resources := [a, b]\<rparr>"] by simp
  ultimately have sv: "serve (LockHandler now) args m =
      (case Lock now m (args\<lparr>la_Resources := [a, b]\<rparr>) of (m', g) \<Rightarrow> (m', if g then None else Some errLockConflict))"
    by (simp add: serve_def LockHandler_def split: prod.split)
  show ?thesis
    by (cases "Lock now m (args\<lparr>la_Resources := [a, b]\<rparr>)") (simp add: lock_one_def netLock_def restCall_def sv)
qed

lemma Lock_free_names:
  "\<forall>r \<in> set (la_Resources args). m r = None \<Longrightarrow>
     Lock now m args = (\<lambda>x. if x \<in> set (la_Resources args) then Some [write_info now args x] else m x, True)"
  by (simp add: Lock_def canTakeLock_iff fold_write_info fun_eq_iff)

lemma Lock_taken_name: "\<exists>r \<in> set (la_Resources args). m r \<noteq> None \<Longrightarrow> Lock now m args = (m, False)"
  by (auto simp: Lock_def canTakeLock_iff)

definition plain_env :: "net_client list \<Rightarrow> attempt_env" where
  "plain_env clnts = \<lparr>ae_now = 5, ae_clnts = clnts, ae_arrivals = [Some 0, Some 1, Some 2], ae_release = clnts, ae_late = clnts\<rparr>"

text \<open>Three servers that all answer, at least two of them with a grant.\<close>

lemma lock_three:
  assumes "lock_one c0 5 False (lock_args owner uid src 2 names) m0 = Some (n0, u0)"
    and "lock_one c1 5 False (lock_args owner uid src 2 names) m1 = Some (n1, u1)"
    and "lock_one c2 5 False (lock_args owner uid src 2 names) m2 = Some (n2, u2)"
    and "isLocked u0" and "isLocked u1"
  shows "\<exists>locks. lock (plain_env [c0, c1, c2]) owner [[], [], []] uid src False 1 2 names [m0, m1, m2] = Some ([n0, n1, n2], locks, True)"
  using assms unfolding lock_def Let_def lock_args_def [symmetric]
  by (simp add: plain_env_def numeral_3_eq_3 numeral_2_eq_2 checkQuorumLocked_def locked_count_def isLocked_def)

text \<open>
  (C33) Two writers hold the same lock. An object name with a line feed is one name for the lock server
  of the caller's own node and two names for every other server. On three servers without any lock, a
  writer on the first node is granted the write lock by all three, and a writer on the second node is
  then granted the write lock on the same name by two of them, which is a quorum.
\<close>

theorem newline_name_two_writers:
  assumes "wire_safe a" and "wire_safe b" and "nm = a @ newline # b" and "u1 \<noteq> []" and "u2 \<noteq> []"
  shows "\<exists>nodes1 locks1 nodes2 locks2.
    lock (plain_env [LocalClient, RemoteClient Delivered, RemoteClient Delivered]) o1 [[], [], []] u1 src False 1 2 [nm]
      [newLocker, newLocker, newLocker] = Some (nodes1, locks1, True)
    \<and> lock (plain_env [RemoteClient Delivered, LocalClient, RemoteClient Delivered]) o2 [[], [], []] u2 src False 1 2 [nm] nodes1 =
      Some (nodes2, locks2, True)"
proof -
  have ne: "nm \<noteq> a" "nm \<noteq> b" using assms(3) by auto
  let ?a1 = "lock_args o1 u1 src 2 [nm]" and ?a2 = "lock_args o2 u2 src 2 [nm]"
  have la: "la_Resources (lock_args o' u' src 2 [nm]) = [nm]" "la_UID (lock_args o' u' src 2 [nm]) = u'" for o' u'
    by (simp_all add: lock_args_def)
  note remote = split_name_arrives [OF assms(1-3) la(1), unfolded la(2)]
  have loc: "lock_one LocalClient 5 False (lock_args o' u' src 2 [nm]) m =
      (case Lock 5 m (lock_args o' u' src 2 [nm]) of (m', g) \<Rightarrow> Some (m', if g then u' else []))" for o' u' m
    by (simp add: lock_one_def netLock_def la split: prod.split)
  define n0 where "n0 = fst (Lock 5 newLocker ?a1)"
  define n1 where "n1 = fst (Lock 5 newLocker (?a1\<lparr>la_Resources := [a, b]\<rparr>))"
  have n: "Lock 5 newLocker ?a1 = (n0, True)" "Lock 5 newLocker (?a1\<lparr>la_Resources := [a, b]\<rparr>) = (n1, True)"
    "n0 a = None" "n0 b = None" "n1 nm = None" "n1 a \<noteq> None"
    using ne by (simp_all add: n0_def n1_def Lock_free_names newLocker_def la)
  from lock_three [of LocalClient o1 u1 src "[nm]" newLocker n0 u1 "RemoteClient Delivered" newLocker n1 u1 "RemoteClient Delivered" newLocker n1 u1]
  obtain locks1 where one: "lock (plain_env [LocalClient, RemoteClient Delivered, RemoteClient Delivered]) o1 [[], [], []] u1 src False 1 2 [nm]
      [newLocker, newLocker, newLocker] = Some ([n0, n1, n1], locks1, True)"
    using assms(4) by (auto simp: remote loc n isLocked_def)
  define k0 where "k0 = fst (Lock 5 n0 (?a2\<lparr>la_Resources := [a, b]\<rparr>))"
  define k1 where "k1 = fst (Lock 5 n1 ?a2)"
  have k: "Lock 5 n0 (?a2\<lparr>la_Resources := [a, b]\<rparr>) = (k0, True)" "Lock 5 n1 ?a2 = (k1, True)"
    "Lock 5 n1 (?a2\<lparr>la_Resources := [a, b]\<rparr>) = (n1, False)"
    using n(3-6) by (simp_all add: k0_def k1_def Lock_free_names Lock_taken_name la)
  from lock_three [of "RemoteClient Delivered" o2 u2 src "[nm]" n0 k0 u2 LocalClient n1 k1 u2 "RemoteClient Delivered" n1 n1 "[]"]
  obtain locks2 where "lock (plain_env [RemoteClient Delivered, LocalClient, RemoteClient Delivered]) o2 [[], [], []] u2 src False 1 2 [nm] [n0, n1, n1] =
      Some ([k0, k1, n1], locks2, True)"
    using assms(5) by (auto simp: remote loc k isLocked_def)
  with one show ?thesis by blast
qed

theorem newline_name_two_writers_witness:
  "\<exists>nodes1 locks1 nodes2 locks2.
    lock (plain_env [LocalClient, RemoteClient Delivered, RemoteClient Delivered]) ''node1'' [[], [], []] ''u1'' ''src'' False 1 2
      [''b/x'' @ newline # ''y''] [newLocker, newLocker, newLocker] = Some (nodes1, locks1, True)
    \<and> lock (plain_env [RemoteClient Delivered, LocalClient, RemoteClient Delivered]) ''node2'' [[], [], []] ''u2'' ''src'' False 1 2
      [''b/x'' @ newline # ''y''] nodes1 = Some (nodes2, locks2, True)"
  by (rule newline_name_two_writers [of "''b/x''" "''y''"]) (simp_all add: wire_safe_def maxScanTokenSize_def)

end
