(* ===== verification/Dsync_Mutex.thy ===== *)
theory Dsync_Mutex
  imports Dsync_Attempt
begin

text \<open>
  Mutual exclusion of the distributed lock under any interleaving of requests, answers, releases,
  refreshes and expiry. The contract of a lock server is a locale; the lock server of
  \<^verbatim>\<open>cmd/local-locker.go\<close> is its interpretation. The step relation takes the code of \<open>lock\<close>,
  \<open>releaseAll\<close>, \<open>Unlock\<close> and \<open>RUnlock\<close> of \<^verbatim>\<open>pkg/dsync/drwmutex.go\<close> apart into the
  calls to single servers.
\<close>

subsection \<open>The contract of a lock server\<close>

locale net_locker =
  fixes wf :: "'s \<Rightarrow> bool" and valid :: "'r \<Rightarrow> bool" and other :: "'r \<Rightarrow> 'r \<Rightarrow> bool"
    and entries :: "'r \<Rightarrow> 's \<Rightarrow> nat" and conflict :: "'r \<Rightarrow> 'r \<Rightarrow> bool"
    and grant :: "'r \<Rightarrow> 't \<Rightarrow> 's \<Rightarrow> 's option" and give :: "'r \<Rightarrow> 's \<Rightarrow> 's"
  assumes grant_own: "wf s \<Longrightarrow> valid c \<Longrightarrow> grant c t s = Some s' \<Longrightarrow> wf s' \<and> Suc (entries c s) \<le> entries c s'"
    and grant_other: "wf s \<Longrightarrow> valid c \<Longrightarrow> valid d \<Longrightarrow> other c d \<Longrightarrow> grant c t s = Some s' \<Longrightarrow> entries d s \<le> entries d s'"
    and give_own: "wf s \<Longrightarrow> valid c \<Longrightarrow> wf (give c s) \<and> entries c s - 1 \<le> entries c (give c s)"
    and give_other: "wf s \<Longrightarrow> valid c \<Longrightarrow> valid d \<Longrightarrow> other c d \<Longrightarrow> entries d s \<le> entries d (give c s)"
    and exclusive: "wf s \<Longrightarrow> valid c \<Longrightarrow> valid d \<Longrightarrow> other c d \<Longrightarrow> conflict c d \<Longrightarrow> entries c s = 0 \<or> entries d s = 0"
begin

text \<open>What a server owes: at least as many entries of a request as the request counts on.\<close>

definition owes :: "('r \<Rightarrow> nat) \<Rightarrow> 's \<Rightarrow> bool" where
  "owes k s \<longleftrightarrow> wf s \<and> (\<forall>c. valid c \<longrightarrow> k c \<le> entries c s)"

lemma owes_grant:
  assumes "owes k s" and "valid c" and "grant c t s = Some s'" and "\<And>d. valid d \<Longrightarrow> d \<noteq> c \<Longrightarrow> k' d \<noteq> 0 \<Longrightarrow> other c d \<and> k' d \<le> k d"
    and "k' c \<le> Suc (k c)"
  shows "owes k' s'"
  unfolding owes_def
proof (intro conjI allI impI)
  have wf: "wf s" using assms(1) by (simp add: owes_def)
  have le: "k d \<le> entries d s" if "valid d" for d using assms(1) that by (simp add: owes_def)
  show "wf s'" using grant_own [OF wf assms(2,3)] by blast
  show "k' d \<le> entries d s'" if d: "valid d" for d
  proof (cases "d = c \<or> k' d = 0")
    case True
    then show ?thesis using grant_own [OF wf assms(2,3)] le [OF assms(2)] assms(5) by auto
  next
    case False
    then show ?thesis using grant_other [OF wf assms(2) d _ assms(3)] assms(4) [OF d] le [OF d] d by (meson le_trans)
  qed
qed

lemma owes_give:
  assumes "owes k s" and "valid c" and "\<And>d. valid d \<Longrightarrow> d \<noteq> c \<Longrightarrow> k' d \<noteq> 0 \<Longrightarrow> other c d \<and> k' d \<le> k d" and "k' c \<le> k c - 1"
  shows "owes k' (give c s)"
  unfolding owes_def
proof (intro conjI allI impI)
  have wf: "wf s" using assms(1) by (simp add: owes_def)
  have le: "k d \<le> entries d s" if "valid d" for d using assms(1) that by (simp add: owes_def)
  show "wf (give c s)" using give_own [OF wf assms(2)] by blast
  show "k' d \<le> entries d (give c s)" if d: "valid d" for d
  proof (cases "d = c \<or> k' d = 0")
    case True
    then show ?thesis using give_own [OF wf assms(2)] le [OF assms(2)] assms(4) by auto
  next
    case False
    then show ?thesis using give_other [OF wf assms(2) d] assms(3) [OF d] le [OF d] d by (meson le_trans)
  qed
qed

lemma owes_mono:
  assumes "owes k s" and "wf s'" and "\<And>d. valid d \<Longrightarrow> k' d \<noteq> 0 \<Longrightarrow> k' d \<le> k d \<and> entries d s \<le> entries d s'"
  shows "owes k' s'"
  unfolding owes_def
proof (intro conjI allI impI)
  show "k' d \<le> entries d s'" if d: "valid d" for d
  proof (cases "k' d = 0")
    case False
    then have "k' d \<le> k d" "k d \<le> entries d s" "entries d s \<le> entries d s'"
      using assms(1,3) d by (auto simp: owes_def)
    then show ?thesis by linarith
  qed simp
qed (rule assms(2))

text \<open>Two requests that count on more servers than there are in total do not conflict.\<close>

lemma holders_compatible:
  assumes "\<forall>i < n. owes (k i) (srv i)" and "valid c" and "valid d" and "other c d"
    and "C \<subseteq> {..<n}" and "D \<subseteq> {..<n}" and "n < card C + card D"
    and "\<forall>i \<in> C. 0 < k i c" and "\<forall>i \<in> D. 0 < k i d"
  shows "\<not> conflict c d"
proof
  assume x: "conflict c d"
  obtain i where i: "i \<in> C" "i \<in> D" using quorums_meet [of "{..<n}" C D] assms(5-7) by auto
  then have "i < n" using assms(5) by auto
  then have o: "wf (srv i)" "k i c \<le> entries c (srv i)" "k i d \<le> entries d (srv i)"
    using assms(1-3) by (auto simp: owes_def)
  then show False using exclusive [OF o(1) assms(2-4) x] assms(8,9) i by auto
qed

end

subsection \<open>Requests\<close>

record lock_request =
  dr_owner :: string
  dr_uid :: string
  dr_source :: string
  dr_read :: bool
  dr_names :: "string list"
  dr_quorum :: int

definition request_args :: "lock_request \<Rightarrow> LockArgs" where
  "request_args c = lock_args (dr_owner c) (dr_uid c) (dr_source c) (dr_quorum c) (dr_names c)"

definition valid_request :: "lock_request \<Rightarrow> bool" where
  "valid_request c \<longleftrightarrow> dr_names c \<noteq> [] \<and> dr_uid c \<noteq> []"

definition other_request :: "lock_request \<Rightarrow> lock_request \<Rightarrow> bool" where
  "other_request c d \<longleftrightarrow> (dr_uid c, dr_owner c) \<noteq> (dr_uid d, dr_owner d)"

definition request_give :: "lock_request \<Rightarrow> lock_map \<Rightarrow> lock_map" where
  "request_give c m = fst (give_back (dr_read c) (release_args (dr_owner c) (dr_uid c) (dr_names c)) m)"

definition request_grant :: "lock_request \<Rightarrow> gotime \<Rightarrow> lock_map \<Rightarrow> lock_map option" where
  "request_grant c now m =
     (case take_lock (dr_read c) now (request_args c) m of (m', g) \<Rightarrow> if g then Some m' else None)"

text \<open>The entries of a request on a server: those of the first name, or one if it has all its names.\<close>

definition write_entry :: "LockArgs \<Rightarrow> lock_map \<Rightarrow> string \<Rightarrow> bool" where
  "write_entry args m r = (case m r of Some [e] \<Rightarrow> lr_Writer e \<and> is_entry args e | _ \<Rightarrow> False)"

definition request_entries :: "lock_request \<Rightarrow> lock_map \<Rightarrow> nat" where
  "request_entries c m =
     (if dr_read c then length (filter (is_entry (request_args c)) (entries_of m (hd (dr_names c))))
      else if list_all (write_entry (request_args c) m) (dr_names c) then 1 else 0)"

definition conflicting :: "lock_request \<Rightarrow> lock_request \<Rightarrow> bool" where
  "conflicting c d \<longleftrightarrow>
     (if dr_read c then \<not> dr_read d \<and> hd (dr_names c) \<in> set (dr_names d)
      else if dr_read d then hd (dr_names d) \<in> set (dr_names c)
      else set (dr_names c) \<inter> set (dr_names d) \<noteq> {})"


lemma is_entry_request: "is_entry (request_args c) e \<longleftrightarrow> lr_UID e = dr_uid c \<and> lr_Owner e = dr_owner c"
  by (simp add: is_entry_def request_args_def lock_args_def)

lemma is_entry_release: "is_entry (release_args (dr_owner c) (dr_uid c) (dr_names c)) = is_entry (request_args c)"
  by (intro ext) (simp add: is_entry_def release_args_def request_args_def lock_args_def)

lemma request_resources [simp]: "la_Resources (request_args c) = dr_names c" "la_Resources (release_args ow u ns) = ns"
  by (simp_all add: request_args_def lock_args_def release_args_def)

lemma not_both: "other_request c d \<Longrightarrow> is_entry (request_args c) e \<Longrightarrow> \<not> is_entry (request_args d) e"
  by (auto simp: other_request_def is_entry_request)

lemma write_entryD: "write_entry args m r \<Longrightarrow> \<exists>e. m r = Some [e] \<and> lr_Writer e \<and> is_entry args e"
  unfolding write_entry_def by (simp split: option.splits list.splits)

lemma write_entry_cong: "m' r = m r \<Longrightarrow> write_entry args m' r = write_entry args m r"
  by (simp add: write_entry_def)

lemma read_entries: "dr_read c \<Longrightarrow> request_entries c m = length (filter (is_entry (request_args c)) (entries_of m (hd (dr_names c))))"
  by (simp add: request_entries_def)

lemma write_entries_le: "\<not> dr_read c \<Longrightarrow> request_entries c m \<le> 1"
  by (simp add: request_entries_def)

lemma write_entries_mono:
  assumes "\<not> dr_read c" and "\<And>r. r \<in> set (dr_names c) \<Longrightarrow> list_all (write_entry (request_args c) m) (dr_names c) \<Longrightarrow> write_entry (request_args c) m' r"
  shows "request_entries c m \<le> request_entries c m'"
  using assms by (auto simp: request_entries_def list_all_iff)

lemma entries_conflict:
  assumes c: "\<not> dr_read c" "r \<in> set (dr_names c)" "request_entries c m \<noteq> 0"
  obtains e where "m r = Some [e]" and "lr_Writer e" and "is_entry (request_args c) e"
proof -
  have "write_entry (request_args c) m r" using c by (auto simp: request_entries_def list_all_iff split: if_splits)
  then show thesis using write_entryD that by blast
qed

lemma exclusive_entries:
  assumes o: "other_request c d" and c: "\<not> dr_read c" "r \<in> set (dr_names c)" "request_entries c m \<noteq> 0"
    and d: "valid_request d" "if dr_read d then hd (dr_names d) = r else r \<in> set (dr_names d)"
  shows "request_entries d m = 0"
proof -
  obtain e where e: "m r = Some [e]" "is_entry (request_args c) e" by (rule entries_conflict [OF c])
  have ne: "\<not> is_entry (request_args d) e" by (rule not_both [OF o e(2)])
  show ?thesis
  proof (cases "dr_read d")
    case True
    then show ?thesis using d(2) e(1) ne by (simp add: read_entries entries_of_def)
  next
    case False
    then have "\<not> write_entry (request_args d) m r" using e(1) ne by (simp add: write_entry_def)
    then show ?thesis using False d(2) by (auto simp: request_entries_def list_all_iff)
  qed
qed

lemma other_sym: "other_request c d \<Longrightarrow> other_request d c"
  by (auto simp: other_request_def)

lemma conflicting_cases:
  assumes "conflicting c d" and "valid_request c" and "valid_request d"
  obtains (writer) r where "\<not> dr_read c" and "r \<in> set (dr_names c)" and "if dr_read d then hd (dr_names d) = r else r \<in> set (dr_names d)"
  | (reader) "dr_read c" and "\<not> dr_read d" and "hd (dr_names c) \<in> set (dr_names d)"
  using assms by (auto simp: conflicting_def split: if_splits)

lemma request_exclusive:
  assumes "other_request c d" "valid_request c" "valid_request d" "conflicting c d"
  shows "request_entries c m = 0 \<or> request_entries d m = 0"
  using assms(4,2,3)
proof (cases rule: conflicting_cases)
  case (writer r)
  then show ?thesis using exclusive_entries [OF assms(1), of r m] assms(3) by (cases "request_entries c m = 0") auto
next
  case reader
  then show ?thesis using exclusive_entries [OF other_sym [OF assms(1)], of "hd (dr_names c)" m] assms(2) by auto
qed

subsection \<open>The lock server keeps the contract\<close>

lemma read_granted:
  assumes g: "request_grant c now m = Some m'" and rd: "dr_read c" and ns: "dr_names c = r # rs"
  shows "m' = m(r \<mapsto> entries_of m r @ [read_info now (request_args c) r])" and "m r = Some es \<Longrightarrow> \<not> isWriteLock es"
proof -
  have "RLock now m (request_args c) \<noteq> None" using ns by (simp add: RLock_def Let_def)
  then obtain p where "RLock now m (request_args c) = Some p" by blast
  moreover have "p = (m', True)" using g rd calculation by (auto simp: request_grant_def take_lock_def split: prod.splits if_splits)
  ultimately have "RLock now m (request_args c) = Some (m', True)" by simp
  from RLock_granted [OF this, of r rs] ns show "m' = m(r \<mapsto> entries_of m r @ [read_info now (request_args c) r])"
    and "m r = Some es \<Longrightarrow> \<not> isWriteLock es" by simp_all
qed

lemma write_granted:
  assumes "request_grant c now m = Some m'" and "\<not> dr_read c"
  shows "m' x = (if x \<in> set (dr_names c) then Some [write_info now (request_args c) x] else m x)"
    and "x \<in> set (dr_names c) \<Longrightarrow> m x = None"
proof -
  have l: "Lock now m (request_args c) = (m', True)"
    using assms by (auto simp: request_grant_def take_lock_def split: prod.splits if_splits)
  show "m' x = (if x \<in> set (dr_names c) then Some [write_info now (request_args c) x] else m x)"
    using Lock_granted [OF l, of x] by simp
  show "x \<in> set (dr_names c) \<Longrightarrow> m x = None" using Lock_granted_iff [of now m "request_args c"] l by simp
qed

lemma valid_names: "valid_request c \<Longrightarrow> \<exists>r rs. dr_names c = r # rs"
  by (cases "dr_names c") (simp_all add: valid_request_def)

lemma request_grant_wf: "locker_wf m \<Longrightarrow> request_grant c now m = Some m' \<Longrightarrow> valid_request c \<Longrightarrow> locker_wf m'"
proof -
  assume m: "locker_wf m" and g: "request_grant c now m = Some m'" and v: "valid_request c"
  show ?thesis
  proof (cases "dr_read c")
    case True
    obtain r rs where ns: "dr_names c = r # rs" using valid_names [OF v] by blast
    note e = read_granted [OF g True ns]
    show ?thesis
    proof (cases "m r")
      case None
      then show ?thesis using m unfolding e(1) by (intro locker_wf_upd) (simp_all add: entries_of_def entries_wf_def read_info_def write_info_def)
    next
      case (Some es)
      have "entries_wf r (es @ [read_info now (request_args c) r])"
        by (rule append_reader_wf [OF locker_wfD [OF m Some] e(2) [OF Some]]) (simp_all add: read_info_def write_info_def)
      then show ?thesis using m Some unfolding e(1) by (intro locker_wf_upd) (simp_all add: entries_of_def)
    qed
  next
    case False
    then show ?thesis using Lock_wf [OF m, of now "request_args c"] g
      by (auto simp: request_grant_def take_lock_def split: prod.splits if_splits)
  qed
qed

lemma request_grant_own:
  assumes g: "request_grant c now m = Some m'" and v: "valid_request c"
  shows "Suc (request_entries c m) \<le> request_entries c m'"
proof -
  obtain r rs where ns: "dr_names c = r # rs" using valid_names [OF v] by blast
  show ?thesis
  proof (cases "dr_read c")
    case True
    then show ?thesis using read_granted [OF g True ns] by (simp add: read_entries ns entries_of_def)
  next
    case False
    have "\<not> write_entry (request_args c) m r" using write_granted(2) [OF g False, of r] ns by (simp add: write_entry_def)
    moreover have "list_all (write_entry (request_args c) m') (dr_names c)"
      using write_granted(1) [OF g False] by (simp add: list_all_iff write_entry_def)
    ultimately show ?thesis using False ns by (simp add: request_entries_def)
  qed
qed

lemma request_grant_other:
  assumes g: "request_grant c now m = Some m'" and v: "valid_request c" "valid_request d" and o: "other_request c d"
  shows "request_entries d m \<le> request_entries d m'"
proof (cases "dr_read c")
  case True
  obtain r rs where ns: "dr_names c = r # rs" using valid_names [OF v(1)] by blast
  note e = read_granted [OF g True ns]
  show ?thesis
  proof (cases "dr_read d")
    case True
    then show ?thesis by (simp add: read_entries e(1) entries_of_def)
  next
    case False
    show ?thesis
    proof (rule write_entries_mono [OF False])
      fix q assume q: "q \<in> set (dr_names d)" and all: "list_all (write_entry (request_args d) m) (dr_names d)"
      then have w: "write_entry (request_args d) m q" by (simp add: list_all_iff)
      then obtain x where "m q = Some [x]" "lr_Writer x" using write_entryD by blast
      then have "q \<noteq> r" using e(2) by (auto simp: isWriteLock_def)
      then show "write_entry (request_args d) m' q" using w by (simp add: e(1) write_entry_def)
    qed
  qed
next
  case False
  note e = write_granted [OF g False]
  show ?thesis
  proof (cases "dr_read d")
    case True
    then show ?thesis using e [of "hd (dr_names d)"] by (simp add: read_entries entries_of_def)
  next
    case d: False
    show ?thesis
    proof (rule write_entries_mono [OF d])
      fix q assume q: "q \<in> set (dr_names d)" and all: "list_all (write_entry (request_args d) m) (dr_names d)"
      then have w: "write_entry (request_args d) m q" by (simp add: list_all_iff)
      then have "q \<notin> set (dr_names c)" using e(2) [of q] by (auto simp: write_entry_def)
      then show "write_entry (request_args d) m' q" using w write_entry_cong [of m' q m] e(1) [of q] by simp
    qed
  qed
qed

text \<open>Releasing.\<close>

lemma read_given:
  assumes "dr_read c" and "dr_names c = r # rs"
  shows "request_give c m = (case m r of None \<Rightarrow> m | Some es \<Rightarrow> if isWriteLock es then m else unlock_one (request_args c) r m)"
proof -
  let ?a = "release_args (dr_owner c) (dr_uid c) (dr_names c)"
  have "removeEntry m r ?a es = removeEntry m r (request_args c) es" for es
    by (rule removeEntry_args) (simp_all add: release_args_def request_args_def lock_args_def)
  then show ?thesis using assms
    by (simp add: request_give_def give_back_def RUnlock_def unlock_one_def split: option.split)
qed

lemma write_given:
  assumes "\<not> dr_read c"
  shows "request_give c m x = (if canTakeUnlock m (dr_names c) \<and> x \<in> set (dr_names c) then unlock_one (request_args c) x m x else m x)"
proof -
  let ?a = "release_args (dr_owner c) (dr_uid c) (dr_names c)"
  have "Unlock m ?a = Unlock m (request_args c)"
    by (rule Unlock_cong [of "dr_names c"]) (simp_all add: release_args_def request_args_def lock_args_def)
  moreover have "fold (unlock_one (request_args c)) (dr_names c) m x =
      (if x \<in> set (dr_names c) then unlock_one (request_args c) x m x else m x)" if "canTakeUnlock m (dr_names c)"
    by (rule fold_unlock_writers) (use that isWriteLock_entry in \<open>auto simp: canTakeUnlock_iff\<close>)
  ultimately show ?thesis using assms by (simp add: request_give_def give_back_def Unlock_def)
qed

lemma unlock_one_filter:
  assumes "\<And>e. is_entry args e \<Longrightarrow> \<not> P e"
  shows "filter P (entries_of (unlock_one args r m) x) = filter P (entries_of m x)"
proof (cases "x = r \<and> m r \<noteq> None")
  case True
  then obtain es where es: "m r = Some es" by blast
  have f: "filter P (remove_first (is_entry args) es) = filter P es" by (rule filter_remove_first) (use assms in blast)
  show ?thesis
  proof (cases "list_ex (is_entry args) es \<and> length es = 1")
    case one: True
    then have "filter P es = []" using assms by (cases es) auto
    then show ?thesis using True es one by (simp add: unlock_one_def removeEntry_def entries_of_def)
  next
    case False
    then show ?thesis using True es f by (auto simp: unlock_one_def removeEntry_def entries_of_def Let_def)
  qed
next
  case False
  then show ?thesis by (cases "m r") (auto simp: entries_of_def unlock_one_other)
qed

lemma filter_remove_first_own: "length (filter P xs) - 1 \<le> length (filter P (remove_first P xs))"
  by (induction xs) auto

lemma unlock_one_own_count:
  "length (filter (is_entry args) (entries_of m r)) - 1 \<le> length (filter (is_entry args) (entries_of (unlock_one args r m) r))"
proof (cases "m r")
  case (Some es)
  have "length (filter (is_entry args) es) \<le> Suc 0" if "length es = Suc 0"
    unfolding that [symmetric] by (rule length_filter_le)
  then show ?thesis
    using filter_remove_first_own [of "is_entry args" es] Some
    by (auto simp: unlock_one_def removeEntry_def entries_of_def Let_def)
qed (simp add: entries_of_def)

lemma request_give_wf: "locker_wf m \<Longrightarrow> valid_request c \<Longrightarrow> locker_wf (request_give c m)"
proof -
  assume m: "locker_wf m" and v: "valid_request c"
  obtain r rs where ns: "dr_names c = r # rs" using valid_names [OF v] by blast
  show ?thesis
  proof (cases "dr_read c")
    case True
    then show ?thesis using m unlock_one_wf [OF m] by (simp add: read_given [OF True ns] split: option.split)
  next
    case False
    then show ?thesis using Unlock_wf [OF m] by (simp add: request_give_def give_back_def)
  qed
qed

lemma request_give_own: "valid_request c \<Longrightarrow> request_entries c m - 1 \<le> request_entries c (request_give c m)"
proof (cases "dr_read c")
  case True
  assume "valid_request c"
  then obtain r rs where ns: "dr_names c = r # rs" using valid_names by blast
  show ?thesis using True ns unlock_one_own_count [of "request_args c" m r]
    by (simp add: read_entries read_given [OF True ns] split: option.split)
next
  case False
  then show ?thesis using write_entries_le [OF False, of m] by simp
qed

lemma unlock_one_writer:
  assumes "write_entry (request_args d) m q" and "other_request c d"
  shows "unlock_one (request_args c) q m q = m q"
proof -
  obtain e where e: "m q = Some [e]" "is_entry (request_args d) e" using write_entryD [OF assms(1)] by blast
  have "\<not> is_entry (request_args c) e" using not_both [OF other_sym [OF assms(2)] e(2)] .
  then show ?thesis by (simp add: unlock_one_def removeEntry_def e(1))
qed

lemma request_give_other:
  assumes v: "valid_request c" "valid_request d" and o: "other_request c d"
  shows "request_entries d m \<le> request_entries d (request_give c m)"
proof (cases "dr_read d")
  case True
  have f: "filter (is_entry (request_args d)) (entries_of (unlock_one (request_args c) r m) x) =
      filter (is_entry (request_args d)) (entries_of m x)" for r x
    by (rule unlock_one_filter) (rule not_both [OF o])
  have "filter (is_entry (request_args d)) (entries_of (request_give c m) x) = filter (is_entry (request_args d)) (entries_of m x)" for x
  proof (cases "dr_read c")
    case rc: True
    obtain r rs where ns: "dr_names c = r # rs" using valid_names [OF v(1)] by blast
    show ?thesis using f by (simp add: read_given [OF rc ns] split: option.split)
  next
    case False
    have "entries_of (request_give c m) x = (if canTakeUnlock m (dr_names c) \<and> x \<in> set (dr_names c)
        then entries_of (unlock_one (request_args c) x m) x else entries_of m x)"
      by (simp add: entries_of_def write_given [OF False])
    then show ?thesis using f by simp
  qed
  then show ?thesis using True by (simp add: read_entries)
next
  case d: False
  show ?thesis
  proof (rule write_entries_mono [OF d])
    fix q assume q: "q \<in> set (dr_names d)" and all: "list_all (write_entry (request_args d) m) (dr_names d)"
    then have w: "write_entry (request_args d) m q" by (simp add: list_all_iff)
    have "request_give c m q = m q"
    proof (cases "dr_read c")
      case rc: True
      obtain r rs where ns: "dr_names c = r # rs" using valid_names [OF v(1)] by blast
      obtain e where "m q = Some [e]" "lr_Writer e" using write_entryD [OF w] by blast
      then show ?thesis by (cases "q = r") (auto simp: read_given [OF rc ns] isWriteLock_def unlock_one_other split: option.split)
    next
      case False
      then show ?thesis using unlock_one_writer [OF w o] by (simp add: write_given [OF False])
    qed
    then show "write_entry (request_args d) (request_give c m) q" using w write_entry_cong by blast
  qed
qed

interpretation srv: net_locker locker_wf valid_request other_request request_entries conflicting request_grant request_give
  by unfold_locales (simp_all add: request_grant_wf request_grant_own request_grant_other
    request_give_wf request_give_own [simplified] request_give_other request_exclusive)

subsection \<open>Interleavings\<close>

text \<open>
  A request is idle, in an attempt, holds its lock, or gives back what it has. \<open>ds_locks\<close> are the
  grants it has recorded, \<open>ds_flight\<close> counts the grants of its servers that it has not read, from
  this attempt or an earlier one: all attempts of a request carry the same identifier.
\<close>

datatype lock_phase = Idle | Acquiring | Holding | Releasing

record dsync_state =
  ds_servers :: "lock_map list"
  ds_phase :: "lock_request \<Rightarrow> lock_phase"
  ds_locks :: "lock_request \<Rightarrow> nat \<Rightarrow> bool"
  ds_flight :: "lock_request \<Rightarrow> nat \<Rightarrow> nat"

definition set_server :: "nat \<Rightarrow> lock_map \<Rightarrow> dsync_state \<Rightarrow> dsync_state" where
  "set_server i m st = st\<lparr>ds_servers := (ds_servers st)[i := m]\<rparr>"

definition set_phase :: "lock_request \<Rightarrow> lock_phase \<Rightarrow> dsync_state \<Rightarrow> dsync_state" where
  "set_phase c p st = st\<lparr>ds_phase := (ds_phase st)(c := p)\<rparr>"

definition set_lock :: "lock_request \<Rightarrow> nat \<Rightarrow> bool \<Rightarrow> dsync_state \<Rightarrow> dsync_state" where
  "set_lock c i b st = st\<lparr>ds_locks := (ds_locks st)(c := (ds_locks st c)(i := b))\<rparr>"

definition set_flight :: "lock_request \<Rightarrow> nat \<Rightarrow> nat \<Rightarrow> dsync_state \<Rightarrow> dsync_state" where
  "set_flight c i k st = st\<lparr>ds_flight := (ds_flight st)(c := (ds_flight st c)(i := k))\<rparr>"

definition counts_on :: "dsync_state \<Rightarrow> lock_request \<Rightarrow> nat \<Rightarrow> nat" where
  "counts_on st c i = ds_flight st c i + (if ds_locks st c i then 1 else 0)"

definition holders :: "dsync_state \<Rightarrow> lock_request \<Rightarrow> nat set" where
  "holders st c = {i. i < length (ds_servers st) \<and> ds_locks st c i}"

text \<open>The names whose entries a request relies on.\<close>

definition locked_names :: "lock_request \<Rightarrow> string list" where
  "locked_names c = (if dr_read c then [hd (dr_names c)] else dr_names c)"

definition fresh_on :: "gotime \<Rightarrow> int \<Rightarrow> lock_request \<Rightarrow> lock_map \<Rightarrow> bool" where
  "fresh_on now interval c m \<longleftrightarrow>
     list_all (\<lambda>r. list_all (\<lambda>e. is_entry (request_args c) e \<longrightarrow> \<not> expired now interval e) (entries_of m r)) (locked_names c)"

text \<open>
  The steps for the requests in \<open>R\<close>: an attempt starts with no recorded grants; a call is granted by a
  server; a grant is read by the attempt; a quorum of grants is a lock; an attempt gives up, a holder
  unlocks; a recorded grant is released; a grant that was not read is released in the background, or
  its answer or release is lost; a server renews a lock or runs a pass of the expiry, which the
  refreshes of the locks that are relied on have kept ahead of.
\<close>

inductive dsync_step :: "lock_request set \<Rightarrow> dsync_state \<Rightarrow> dsync_state \<Rightarrow> bool" for R where
  start: "c \<in> R \<Longrightarrow> ds_phase st c = Idle \<or> ds_phase st c = Releasing \<Longrightarrow>
    dsync_step R st (set_phase c Acquiring (st\<lparr>ds_locks := (ds_locks st)(c := \<lambda>_. False)\<rparr>))"
| granted: "c \<in> R \<Longrightarrow> i < length (ds_servers st) \<Longrightarrow> request_grant c now (ds_servers st ! i) = Some m \<Longrightarrow>
    dsync_step R st (set_flight c i (Suc (ds_flight st c i)) (set_server i m st))"
| answer: "c \<in> R \<Longrightarrow> i < length (ds_servers st) \<Longrightarrow> ds_phase st c = Acquiring \<Longrightarrow> ds_flight st c i = Suc k \<Longrightarrow> \<not> ds_locks st c i \<Longrightarrow>
    dsync_step R st (set_flight c i k (set_lock c i True st))"
| success: "c \<in> R \<Longrightarrow> ds_phase st c = Acquiring \<Longrightarrow>
    fst (lock_quorum (length (ds_servers st)) (dr_read c)) \<le> int (card (holders st c)) \<Longrightarrow>
    dsync_step R st (set_phase c Holding st)"
| give_up: "c \<in> R \<Longrightarrow> ds_phase st c = Acquiring \<Longrightarrow> dsync_step R st (set_phase c Releasing st)"
| unlocking: "c \<in> R \<Longrightarrow> ds_phase st c = Holding \<Longrightarrow> dsync_step R st (set_phase c Releasing st)"
| release: "c \<in> R \<Longrightarrow> i < length (ds_servers st) \<Longrightarrow> ds_phase st c = Releasing \<Longrightarrow> ds_locks st c i \<Longrightarrow>
    dsync_step R st (set_lock c i False (set_server i (request_give c (ds_servers st ! i)) st))"
| late: "c \<in> R \<Longrightarrow> i < length (ds_servers st) \<Longrightarrow> ds_flight st c i = Suc k \<Longrightarrow>
    dsync_step R st (set_flight c i k (set_server i (request_give c (ds_servers st ! i)) st))"
| lost: "c \<in> R \<Longrightarrow> ds_flight st c i = Suc k \<Longrightarrow> dsync_step R st (set_flight c i k st)"
| renew: "i < length (ds_servers st) \<Longrightarrow> Refresh now e (ds_servers st ! i) args = Some (m, b, e') \<Longrightarrow>
    dsync_step R st (set_server i m st)"
| expiry: "i < length (ds_servers st) \<Longrightarrow>
    \<forall>c \<in> R. counts_on st c i \<noteq> 0 \<longrightarrow> fresh_on now interval c (ds_servers st ! i) \<Longrightarrow>
    dsync_step R st (set_server i (expireOldLocks keys now interval (ds_servers st ! i)) st)"

inductive_cases dsync_stepE: "dsync_step R st st'"

definition dsync_init :: "nat \<Rightarrow> dsync_state" where
  "dsync_init n = \<lparr>ds_servers = replicate n newLocker, ds_phase = \<lambda>_. Idle, ds_locks = \<lambda>_ _. False, ds_flight = \<lambda>_ _. 0\<rparr>"

inductive dsync_reach :: "lock_request set \<Rightarrow> nat \<Rightarrow> dsync_state \<Rightarrow> bool" for R n where
  reach_init: "dsync_reach R n (dsync_init n)"
| reach_step: "dsync_reach R n st \<Longrightarrow> dsync_step R st st' \<Longrightarrow> dsync_reach R n st'"

text \<open>The requests of a run: each has names and an identifier of its own.\<close>

definition requests_ok :: "lock_request set \<Rightarrow> bool" where
  "requests_ok R \<longleftrightarrow> (\<forall>c \<in> R. valid_request c) \<and> (\<forall>c \<in> R. \<forall>d \<in> R. c \<noteq> d \<longrightarrow> other_request c d)"

definition relied :: "lock_request set \<Rightarrow> dsync_state \<Rightarrow> nat \<Rightarrow> lock_request \<Rightarrow> nat" where
  "relied R st i c = (if c \<in> R then counts_on st c i else 0)"

definition dsync_inv :: "lock_request set \<Rightarrow> nat \<Rightarrow> dsync_state \<Rightarrow> bool" where
  "dsync_inv R n st \<longleftrightarrow> length (ds_servers st) = n \<and>
     (\<forall>i < n. srv.owes (relied R st i) (ds_servers st ! i)) \<and>
     (\<forall>c \<in> R. ds_phase st c = Holding \<longrightarrow> fst (lock_quorum n (dr_read c)) \<le> int (card (holders st c)))"

lemmas ds_simps = set_server_def set_phase_def set_lock_def set_flight_def counts_on_def relied_def holders_def

text \<open>Refreshing and expiry keep the entries that are relied on.\<close>

lemma refresh_first_own: "length (filter (is_entry a) (refresh_first now args es)) = length (filter (is_entry a) es)"
proof (induction es)
  case (Cons e es)
  have "is_entry a (e\<lparr>lr_TimeLastRefresh := now\<rparr>) = is_entry a e" by (simp add: is_entry_def)
  then show ?case using Cons by simp
qed simp

lemma Refresh_entries:
  assumes "Refresh now e m args = Some (m', b, e')"
  shows "request_entries d m \<le> request_entries d m'"
proof -
  have "m' = m \<or> (\<exists>r es. m r = Some es \<and> m' = m(r \<mapsto> refresh_first now args es))"
    using assms by (auto simp: Refresh_def split: option.splits list.splits if_splits)
  then show ?thesis
  proof (elim disjE exE conjE)
    fix r es assume m: "m r = Some es" and m': "m' = m(r \<mapsto> refresh_first now args es)"
    show ?thesis
    proof (cases "dr_read d")
      case True
      then show ?thesis using m m' by (simp add: read_entries entries_of_def refresh_first_own)
    next
      case False
      show ?thesis
      proof (rule write_entries_mono [OF False])
        fix q assume q: "q \<in> set (dr_names d)" "list_all (write_entry (request_args d) m) (dr_names d)"
        then have "write_entry (request_args d) m q" by (simp add: list_all_iff)
        then obtain x where x: "m q = Some [x]" "lr_Writer x" "is_entry (request_args d) x" using write_entryD by blast
        then show "write_entry (request_args d) m' q"
          using m m' by (cases "q = r") (auto simp: write_entry_def is_entry_def)
      qed
    qed
  qed simp
qed

lemma expiry_entries:
  assumes wf: "locker_wf m" and fresh: "fresh_on now interval d m"
  shows "request_entries d m \<le> request_entries d (expireOldLocks keys now interval m)"
proof -
  let ?m = "expireOldLocks keys now interval m"
  have keep: "filter (is_entry (request_args d)) (entries_of ?m r) = filter (is_entry (request_args d)) (entries_of m r)"
    if "r \<in> set (locked_names d)" for r
    by (rule expireOldLocks_own [OF wf]) (use fresh that in \<open>auto simp: fresh_on_def list_all_iff\<close>)
  show ?thesis
  proof (cases "dr_read d")
    case True
    then show ?thesis using keep [of "hd (dr_names d)"] by (simp add: read_entries locked_names_def)
  next
    case False
    show ?thesis
    proof (rule write_entries_mono [OF False])
      fix q assume q: "q \<in> set (dr_names d)" "list_all (write_entry (request_args d) m) (dr_names d)"
      then have "write_entry (request_args d) m q" by (simp add: list_all_iff)
      then obtain x where x: "m q = Some [x]" "lr_Writer x" "is_entry (request_args d) x" using write_entryD by blast
      have f: "filter (is_entry (request_args d)) (entries_of ?m q) = [x]"
        using keep [of q] q(1) False x by (simp add: locked_names_def entries_of_def)
      have "length (entries_of ?m q) \<le> 1" using expireOldLocks_le [OF wf, of keys now interval q] x(1) by (simp add: entries_of_def)
      with f have "entries_of ?m q = [x]" by (cases "entries_of ?m q") (auto split: if_splits)
      then have "?m q = Some [x]" by (cases "?m q") (auto simp: entries_of_def)
      then show "write_entry (request_args d) ?m q" using x by (simp add: write_entry_def)
    qed
  qed
qed

subsection \<open>The invariant\<close>

lemma dsync_inv_server:
  assumes inv: "dsync_inv R n st" and i: "i < n" and sv: "ds_servers st' = (ds_servers st)[i := m]"
    and others: "\<And>c j. j \<noteq> i \<Longrightarrow> counts_on st' c j \<le> counts_on st c j"
    and own: "srv.owes (relied R st' i) m"
    and hold: "\<And>c. c \<in> R \<Longrightarrow> ds_phase st' c = Holding \<Longrightarrow> fst (lock_quorum n (dr_read c)) \<le> int (card (holders st' c))"
  shows "dsync_inv R n st'"
  unfolding dsync_inv_def
proof (intro conjI allI impI ballI hold)
  have len: "length (ds_servers st) = n" using inv by (simp add: dsync_inv_def)
  then show "length (ds_servers st') = n" by (simp add: sv)
  fix j assume j: "j < n"
  show "srv.owes (relied R st' j) (ds_servers st' ! j)"
  proof (cases "j = i")
    case True
    then show ?thesis using own i len by (simp add: sv)
  next
    case False
    have o: "srv.owes (relied R st j) (ds_servers st ! j)" using inv j by (simp add: dsync_inv_def)
    then have "srv.owes (relied R st' j) (ds_servers st ! j)"
      by (rule srv.owes_mono) (use o others [OF False] in \<open>auto simp: relied_def srv.owes_def\<close>)
    then show ?thesis using False by (simp add: sv)
  qed
qed

text \<open>A step that changes no server.\<close>

lemma dsync_inv_local:
  assumes inv: "dsync_inv R n st" and sv: "ds_servers st' = ds_servers st"
    and counts: "\<And>c j. c \<in> R \<Longrightarrow> counts_on st' c j \<le> counts_on st c j"
    and hold: "\<And>c. c \<in> R \<Longrightarrow> ds_phase st' c = Holding \<Longrightarrow> fst (lock_quorum n (dr_read c)) \<le> int (card (holders st' c))"
  shows "dsync_inv R n st'"
  unfolding dsync_inv_def
proof (intro conjI allI impI ballI hold)
  show "length (ds_servers st') = n" using inv by (simp add: dsync_inv_def sv)
  fix j assume "j < n"
  then have o: "srv.owes (relied R st j) (ds_servers st ! j)" using inv by (simp add: dsync_inv_def)
  then show "srv.owes (relied R st' j) (ds_servers st' ! j)"
    unfolding sv by (rule srv.owes_mono) (use o counts in \<open>auto simp: relied_def srv.owes_def\<close>)
qed

lemma owes_server: "dsync_inv R n st \<Longrightarrow> i < n \<Longrightarrow> srv.owes (relied R st i) (ds_servers st ! i)"
  and inv_length: "dsync_inv R n st \<Longrightarrow> length (ds_servers st) = n"
  and inv_hold: "dsync_inv R n st \<Longrightarrow> c \<in> R \<Longrightarrow> ds_phase st c = Holding \<Longrightarrow> fst (lock_quorum n (dr_read c)) \<le> int (card (holders st c))"
  by (simp_all add: dsync_inv_def)

lemma owes_wf: "srv.owes k m \<Longrightarrow> locker_wf m"
  by (simp add: srv.owes_def)

lemma requests_other:
  "requests_ok R \<Longrightarrow> c \<in> R \<Longrightarrow> relied R st i d \<noteq> 0 \<Longrightarrow> d \<noteq> c \<Longrightarrow> other_request c d"
  by (auto simp: requests_ok_def relied_def split: if_splits)

lemma dsync_inv_step:
  assumes R: "requests_ok R" and inv: "dsync_inv R n st" and step: "dsync_step R st st'"
  shows "dsync_inv R n st'"
  using step
proof (cases rule: dsync_step.cases)
  case (start c)
  then show ?thesis using inv_hold [OF inv]
    by (intro dsync_inv_local [OF inv]) (auto simp: ds_simps)
next
  case (granted c i now m)
  note len = inv_length [OF inv]
  have v: "valid_request c" using R granted by (simp add: requests_ok_def)
  have "srv.owes (relied R st' i) m"
    by (rule srv.owes_grant [OF owes_server [OF inv] v granted(4)])
      (use granted len requests_other [OF R granted(2), of st' i] in \<open>auto simp: ds_simps\<close>)
  then show ?thesis using granted len inv_hold [OF inv]
    by (intro dsync_inv_server [OF inv, of i _ m]) (auto simp: ds_simps)
next
  case (answer c i k)
  then show ?thesis using inv_hold [OF inv]
    by (intro dsync_inv_local [OF inv]) (auto simp: ds_simps)
next
  case (success c)
  then show ?thesis using inv_hold [OF inv] inv_length [OF inv]
    by (intro dsync_inv_local [OF inv]) (auto simp: ds_simps split: if_splits)
next
  case (give_up c)
  then show ?thesis using inv_hold [OF inv]
    by (intro dsync_inv_local [OF inv]) (auto simp: ds_simps split: if_splits)
next
  case (unlocking c)
  then show ?thesis using inv_hold [OF inv]
    by (intro dsync_inv_local [OF inv]) (auto simp: ds_simps split: if_splits)
next
  case (release c i)
  note len = inv_length [OF inv]
  have v: "valid_request c" using R release by (simp add: requests_ok_def)
  have "srv.owes (relied R st' i) (request_give c (ds_servers st ! i))"
    by (rule srv.owes_give [OF owes_server [OF inv] v])
      (use release len requests_other [OF R release(2), of st' i] in \<open>auto simp: ds_simps\<close>)
  then show ?thesis using release len inv_hold [OF inv]
    by (intro dsync_inv_server [OF inv, of i _ "request_give c (ds_servers st ! i)"]) (auto simp: ds_simps)
next
  case (late c i k)
  note len = inv_length [OF inv]
  have v: "valid_request c" using R late by (simp add: requests_ok_def)
  have "srv.owes (relied R st' i) (request_give c (ds_servers st ! i))"
    by (rule srv.owes_give [OF owes_server [OF inv] v])
      (use late len requests_other [OF R late(2), of st' i] in \<open>auto simp: ds_simps\<close>)
  then show ?thesis using late len inv_hold [OF inv]
    by (intro dsync_inv_server [OF inv, of i _ "request_give c (ds_servers st ! i)"]) (auto simp: ds_simps)
next
  case (lost c i k)
  then show ?thesis using inv_hold [OF inv]
    by (intro dsync_inv_local [OF inv]) (auto simp: ds_simps)
next
  case (renew i now e args m b e')
  note len = inv_length [OF inv]
  have o: "srv.owes (relied R st i) (ds_servers st ! i)" using owes_server [OF inv] renew len by simp
  have "srv.owes (relied R st' i) m"
    by (rule srv.owes_mono [OF o Refresh_wf [OF owes_wf [OF o] renew(3)]])
      (use Refresh_entries [OF renew(3)] renew(1) in \<open>auto simp: ds_simps\<close>)
  then show ?thesis using renew len inv_hold [OF inv]
    by (intro dsync_inv_server [OF inv, of i _ m]) (auto simp: ds_simps)
next
  case (expiry i now interval keys)
  note len = inv_length [OF inv]
  have o: "srv.owes (relied R st i) (ds_servers st ! i)" using owes_server [OF inv] expiry len by simp
  let ?m = "expireOldLocks keys now interval (ds_servers st ! i)"
  have "srv.owes (relied R st' i) ?m"
    by (rule srv.owes_mono [OF o expireOldLocks_wf [OF owes_wf [OF o]]])
      (use expiry_entries [OF owes_wf [OF o], of now interval] expiry(1,3) in \<open>auto simp: ds_simps split: if_splits\<close>)
  then show ?thesis using expiry len inv_hold [OF inv]
    by (intro dsync_inv_server [OF inv, of i _ ?m]) (auto simp: ds_simps)
qed

lemma dsync_reach_inv: "dsync_reach R n st \<Longrightarrow> requests_ok R \<Longrightarrow> dsync_inv R n st"
proof (induction rule: dsync_reach.induct)
  case reach_init
  then show ?case by (simp add: dsync_inv_def dsync_init_def srv.owes_def relied_def counts_on_def newLocker_def)
next
  case (reach_step st st')
  then show ?case using dsync_inv_step by blast
qed

lemma quorums_overlap:
  assumes "conflicting c d"
  shows "int n < fst (lock_quorum n (dr_read c)) + fst (lock_quorum n (dr_read d))"
proof -
  have "\<not> (dr_read c \<and> dr_read d)" using assms by (auto simp: conflicting_def)
  moreover have "int n \<noteq> 2 * (int n div 2) \<longrightarrow> 2 * (int n div 2) < int n" by presburger
  ultimately show ?thesis by (cases "dr_read c"; cases "dr_read d") (simp_all add: lock_quorum_def Let_def)
qed

lemma holders_exclude:
  assumes inv: "dsync_inv R n st" and R: "requests_ok R" and c: "c \<in> R" "ds_phase st c = Holding"
    and d: "d \<in> R" "ds_phase st d = Holding" and ne: "c \<noteq> d"
  shows "\<not> conflicting c d"
proof
  assume x: "conflicting c d"
  have "int n < int (card (holders st c)) + int (card (holders st d))"
    using quorums_overlap [OF x, of n] inv_hold [OF inv c] inv_hold [OF inv d] by linarith
  then have "n < card (holders st c) + card (holders st d)" by linarith
  moreover have "valid_request c" "valid_request d" "other_request c d" using R c(1) d(1) ne by (auto simp: requests_ok_def)
  moreover have "\<forall>i < n. srv.owes (relied R st i) (ds_servers st ! i)" using owes_server [OF inv] by blast
  ultimately have "\<not> conflicting c d"
    by (intro srv.holders_compatible [of n "relied R st" "\<lambda>i. ds_servers st ! i" c d "holders st c" "holders st d"])
      (use c(1) d(1) inv_length [OF inv] in \<open>auto simp: holders_def relied_def counts_on_def\<close>)
  then show False using x by contradiction
qed


text \<open>One server is enough for a run in which two requests hold their locks.\<close>

lemma acquire_on_one:
  assumes r: "dsync_reach R 1 st" and c: "c \<in> R" "ds_phase st c = Idle" "ds_flight st c 0 = 0"
    and g: "request_grant c now (ds_servers st ! 0) = Some m" and len: "length (ds_servers st) = 1"
  obtains st' where "dsync_reach R 1 st'" and "ds_phase st' = (ds_phase st)(c := Holding)" and "ds_servers st' = [m]"
    and "\<And>d. d \<noteq> c \<Longrightarrow> ds_flight st' d = ds_flight st d"
proof -
  define s1 where "s1 = set_phase c Acquiring (st\<lparr>ds_locks := (ds_locks st)(c := \<lambda>_. False)\<rparr>)"
  have r1: "dsync_reach R 1 s1" unfolding s1_def by (rule reach_step [OF r], rule dsync_step.start) (use c in auto)
  define s2 where "s2 = set_flight c 0 (Suc (ds_flight s1 c 0)) (set_server 0 m s1)"
  have r2: "dsync_reach R 1 s2" unfolding s2_def
    by (rule reach_step [OF r1], rule dsync_step.granted [of _ _ _ _ now]) (use c g len in \<open>auto simp: s1_def set_phase_def\<close>)
  define s3 where "s3 = set_flight c 0 0 (set_lock c 0 True s2)"
  have r3: "dsync_reach R 1 s3" unfolding s3_def
    by (rule reach_step [OF r2], rule dsync_step.answer) (use c len in \<open>auto simp: s2_def s1_def ds_simps\<close>)
  have "holders s3 c = {0}" using len by (auto simp: s3_def s2_def s1_def ds_simps)
  then have q: "fst (lock_quorum (length (ds_servers s3)) (dr_read c)) \<le> int (card (holders s3 c))"
    using len by (simp add: s3_def s2_def s1_def ds_simps lock_quorum_def Let_def)
  have r4: "dsync_reach R 1 (set_phase c Holding s3)"
    by (rule reach_step [OF r3], rule dsync_step.success) (use c q in \<open>auto simp: s3_def s2_def s1_def ds_simps\<close>)
  show thesis
  proof (rule that [OF r4])
    show "ds_servers (set_phase c Holding s3) = [m]"
      using len by (cases "ds_servers st") (auto simp: s3_def s2_def s1_def ds_simps)
  qed (auto simp: s3_def s2_def s1_def ds_simps)
qed

definition sample_request :: "bool \<Rightarrow> string \<Rightarrow> string \<Rightarrow> lock_request" where
  "sample_request rd uid name = \<lparr>dr_owner = ''node1'', dr_uid = uid, dr_source = [], dr_read = rd, dr_names = [name], dr_quorum = 1\<rparr>"


end
