(* ===== verification/NS_Lock.thy ===== *)
theory NS_Lock
  imports File_Info
begin

text \<open>
  The locks of a single node: the mutex of \<^verbatim>\<open>pkg/lsync/lrwmutex.go\<close> and the reference counted
  map of such mutexes of \<^verbatim>\<open>cmd/namespace-lock.go\<close>. The map holds pointers, so the mutexes live in
  a store and a caller of \<open>lock\<close> keeps the address it got from the map while it waits. \<open>None\<close> is a
  panic: of a nil pointer, of \<open>Unlock\<close> without a lock, or of the critical error for a negative count.
  A resource is the joined path of volume and object.
\<close>

subsection \<open>The mutex\<close>

record LRWMutex =
  lm_id :: string
  lm_source :: string
  lm_isWriteLock :: bool
  lm_ref :: int

definition NewLRWMutex :: LRWMutex where
  "NewLRWMutex = \<lparr>lm_id = [], lm_source = [], lm_isWriteLock = False, lm_ref = 0\<rparr>"

text \<open>One attempt to lock, under the inner mutex.\<close>

definition lm_lock :: "string \<Rightarrow> string \<Rightarrow> bool \<Rightarrow> LRWMutex \<Rightarrow> LRWMutex \<times> bool" where
  "lm_lock uid source isWriteLock lm0 =
     (let lm = lm0\<lparr>lm_id := uid, lm_source := source\<rparr> in
      if isWriteLock then
        (if lm_ref lm = 0 \<and> \<not> lm_isWriteLock lm then (lm\<lparr>lm_ref := 1, lm_isWriteLock := True\<rparr>, True) else (lm, False))
      else
        (if \<not> lm_isWriteLock lm then (lm\<lparr>lm_ref := lm_ref lm + 1\<rparr>, True) else (lm, False)))"

definition lm_unlock :: "bool \<Rightarrow> LRWMutex \<Rightarrow> LRWMutex \<times> bool" where
  "lm_unlock isWriteLock lm =
     (if isWriteLock then
        (if lm_isWriteLock lm \<and> lm_ref lm = 1 then (lm\<lparr>lm_ref := 0, lm_isWriteLock := False\<rparr>, True) else (lm, False))
      else
        (if \<not> lm_isWriteLock lm then
           (if lm_ref lm > 0 then (lm\<lparr>lm_ref := lm_ref lm - 1\<rparr>, True) else (lm, False))
         else (lm, False)))"

text \<open>\<open>Unlock\<close> and \<open>RUnlock\<close> panic when there was no lock to release.\<close>

definition lm_Unlock :: "bool \<Rightarrow> LRWMutex \<Rightarrow> LRWMutex option" where
  "lm_Unlock isWriteLock lm = (case lm_unlock isWriteLock lm of (lm', ok) \<Rightarrow> if ok then Some lm' else None)"

definition lm_ForceUnlock :: "LRWMutex \<Rightarrow> LRWMutex" where
  "lm_ForceUnlock lm = lm\<lparr>lm_ref := 0, lm_isWriteLock := False\<rparr>"

subsection \<open>The map of mutexes\<close>

record nsLock =
  nl_ref :: int
  nl_mutex :: LRWMutex

record nsLockMap =
  ns_lockMap :: "string \<rightharpoonup> nat"
  ns_store :: "nat \<rightharpoonup> nsLock"

definition newNSLock :: nsLockMap where
  "newNSLock = \<lparr>ns_lockMap = Map.empty, ns_store = Map.empty\<rparr>"

text \<open>The first critical section of \<open>lock\<close>, with the address of a new lock in case it needs one.\<close>

definition ns_enter :: "nat \<Rightarrow> string \<Rightarrow> nsLockMap \<Rightarrow> (nsLockMap \<times> nat) option" where
  "ns_enter new resource n =
     (let (nsLk, store) =
        (case ns_lockMap n resource of
           None \<Rightarrow> (new, (ns_store n)(new \<mapsto> \<lparr>nl_ref = 0, nl_mutex = NewLRWMutex\<rparr>))
         | Some p \<Rightarrow> (p, ns_store n))
      in do {
        l \<leftarrow> store nsLk;
        Some (\<lparr>ns_lockMap = (ns_lockMap n)(resource \<mapsto> nsLk),
               ns_store = store(nsLk \<mapsto> l\<lparr>nl_ref := nl_ref l + 1\<rparr>)\<rparr>, nsLk)
      })"

text \<open>An attempt on the mutex at the address that the caller keeps.\<close>

definition ns_try :: "nat \<Rightarrow> string \<Rightarrow> string \<Rightarrow> bool \<Rightarrow> nsLockMap \<Rightarrow> (nsLockMap \<times> bool) option" where
  "ns_try p opsID source readLock n = do {
     l \<leftarrow> ns_store n p;
     let (lm, ok) = lm_lock opsID source (\<not> readLock) (nl_mutex l);
     Some (n\<lparr>ns_store := (ns_store n)(p \<mapsto> l\<lparr>nl_mutex := lm\<rparr>)\<rparr>, ok)
   }"

text \<open>Dropping a reference through the map, which removes the entry with the last one.\<close>

definition ns_drop :: "string \<Rightarrow> nsLockMap \<Rightarrow> nsLockMap option" where
  "ns_drop resource n = do {
     p \<leftarrow> ns_lockMap n resource;
     l \<leftarrow> ns_store n p;
     let l' = l\<lparr>nl_ref := nl_ref l - 1\<rparr>;
     let n' = n\<lparr>ns_store := (ns_store n)(p \<mapsto> l')\<rparr>;
     if nl_ref l' < 0 then None
     else if nl_ref l' = 0 then Some (n'\<lparr>ns_lockMap := (ns_lockMap n')(resource := None)\<rparr>)
     else Some n'
   }"

definition ns_unlock :: "string \<Rightarrow> bool \<Rightarrow> nsLockMap \<Rightarrow> nsLockMap option" where
  "ns_unlock resource readLock n =
     (case ns_lockMap n resource of
        None \<Rightarrow> Some n
      | Some p \<Rightarrow> do {
          l \<leftarrow> ns_store n p;
          lm \<leftarrow> lm_Unlock (\<not> readLock) (nl_mutex l);
          ns_drop resource (n\<lparr>ns_store := (ns_store n)(p \<mapsto> l\<lparr>nl_mutex := lm\<rparr>)\<rparr>)
        })"

subsection \<open>Threads\<close>

text \<open>
  A caller before its call, waiting with the address of the mutex, holding the lock, and after. Each
  caller has a resource and locks it for reading or writing; its identifier and source go to the mutex.
\<close>

datatype ns_phase = Before | Waiting nat | Held | After

record ns_job =
  nj_resource :: string
  nj_read :: bool
  nj_opsID :: string
  nj_source :: string

record ns_state =
  ns_locks :: nsLockMap
  ns_phase :: "nat \<Rightarrow> ns_phase"

definition ns_go :: "nat \<Rightarrow> ns_phase \<Rightarrow> nsLockMap \<Rightarrow> ns_state \<Rightarrow> ns_state" where
  "ns_go t p n st = \<lparr>ns_locks = n, ns_phase = (ns_phase st)(t := p)\<rparr>"

text \<open>
  The critical sections of \<open>lock\<close> and \<open>unlock\<close> in any order, for the callers in \<open>T\<close>: entering, an
  attempt that fails or succeeds, giving up when the time is over, and unlocking.
\<close>

inductive ns_step :: "nat set \<Rightarrow> (nat \<Rightarrow> ns_job) \<Rightarrow> ns_state \<Rightarrow> ns_state \<Rightarrow> bool" for T job where
  enter: "t \<in> T \<Longrightarrow> ns_phase st t = Before \<Longrightarrow> ns_store (ns_locks st) new = None \<Longrightarrow>
    ns_enter new (nj_resource (job t)) (ns_locks st) = Some (n, p) \<Longrightarrow> ns_step T job st (ns_go t (Waiting p) n st)"
| try_fail: "t \<in> T \<Longrightarrow> ns_phase st t = Waiting p \<Longrightarrow>
    ns_try p (nj_opsID (job t)) (nj_source (job t)) (nj_read (job t)) (ns_locks st) = Some (n, False) \<Longrightarrow>
    ns_step T job st (ns_go t (Waiting p) n st)"
| try_ok: "t \<in> T \<Longrightarrow> ns_phase st t = Waiting p \<Longrightarrow>
    ns_try p (nj_opsID (job t)) (nj_source (job t)) (nj_read (job t)) (ns_locks st) = Some (n, True) \<Longrightarrow>
    ns_step T job st (ns_go t Held n st)"
| timeout: "t \<in> T \<Longrightarrow> ns_phase st t = Waiting p \<Longrightarrow> ns_drop (nj_resource (job t)) (ns_locks st) = Some n \<Longrightarrow>
    ns_step T job st (ns_go t After n st)"
| unlocking: "t \<in> T \<Longrightarrow> ns_phase st t = Held \<Longrightarrow>
    ns_unlock (nj_resource (job t)) (nj_read (job t)) (ns_locks st) = Some n \<Longrightarrow> ns_step T job st (ns_go t After n st)"

definition ns_init :: ns_state where
  "ns_init = \<lparr>ns_locks = newNSLock, ns_phase = \<lambda>_. Before\<rparr>"

inductive ns_reach :: "nat set \<Rightarrow> (nat \<Rightarrow> ns_job) \<Rightarrow> ns_state \<Rightarrow> bool" for T job where
  ns_reach_init: "ns_reach T job ns_init"
| ns_reach_step: "ns_reach T job st \<Longrightarrow> ns_step T job st st' \<Longrightarrow> ns_reach T job st'"

subsection \<open>The invariant\<close>

definition ns_users :: "nat set \<Rightarrow> (nat \<Rightarrow> ns_job) \<Rightarrow> (nat \<Rightarrow> ns_phase) \<Rightarrow> string \<Rightarrow> nat set" where
  "ns_users T job ph r = {t \<in> T. nj_resource (job t) = r \<and> ph t \<noteq> Before \<and> ph t \<noteq> After}"

definition ns_holders :: "nat set \<Rightarrow> (nat \<Rightarrow> ns_job) \<Rightarrow> (nat \<Rightarrow> ns_phase) \<Rightarrow> string \<Rightarrow> nat set" where
  "ns_holders T job ph r = {t \<in> T. nj_resource (job t) = r \<and> ph t = Held}"

text \<open>The mutex knows its holders: one writer, or readers only.\<close>

definition mutex_ok :: "(nat \<Rightarrow> ns_job) \<Rightarrow> nat set \<Rightarrow> LRWMutex \<Rightarrow> bool" where
  "mutex_ok job H lm \<longleftrightarrow> lm_ref lm = int (card H) \<and>
     (if lm_isWriteLock lm then \<exists>t. H = {t} \<and> \<not> nj_read (job t) else \<forall>t \<in> H. nj_read (job t))"

definition lock_ok :: "(nat \<Rightarrow> ns_job) \<Rightarrow> nat set \<Rightarrow> nat set \<Rightarrow> nsLock \<Rightarrow> bool" where
  "lock_ok job U H l \<longleftrightarrow> nl_ref l = int (card U) \<and> mutex_ok job H (nl_mutex l)"

definition entry_ok :: "(nat \<Rightarrow> ns_job) \<Rightarrow> nat set \<Rightarrow> nat set \<Rightarrow> nsLockMap \<Rightarrow> string \<Rightarrow> bool" where
  "entry_ok job U H n r =
     (case ns_lockMap n r of
        None \<Rightarrow> U = {}
      | Some p \<Rightarrow> U \<noteq> {} \<and> (case ns_store n p of None \<Rightarrow> False | Some l \<Rightarrow> lock_ok job U H l))"

definition ns_inv :: "nat set \<Rightarrow> (nat \<Rightarrow> ns_job) \<Rightarrow> ns_state \<Rightarrow> bool" where
  "ns_inv T job st \<longleftrightarrow>
     (\<forall>r. entry_ok job (ns_users T job (ns_phase st) r) (ns_holders T job (ns_phase st) r) (ns_locks st) r) \<and>
     (\<forall>t \<in> T. \<forall>p. ns_phase st t = Waiting p \<longrightarrow> ns_lockMap (ns_locks st) (nj_resource (job t)) = Some p) \<and>
     (\<forall>r r' p. ns_lockMap (ns_locks st) r = Some p \<longrightarrow> ns_lockMap (ns_locks st) r' = Some p \<longrightarrow> r = r')"

lemma holders_users: "ns_holders T job ph r \<subseteq> ns_users T job ph r"
  by (auto simp: ns_holders_def ns_users_def)

lemma finite_users [simp]: "finite T \<Longrightarrow> finite (ns_users T job ph r)" "finite T \<Longrightarrow> finite (ns_holders T job ph r)"
  by (simp_all add: ns_users_def ns_holders_def)

lemma ns_inv_entry:
  assumes "ns_inv T job st" and "t \<in> ns_users T job (ns_phase st) r"
  obtains p l where "ns_lockMap (ns_locks st) r = Some p" and "ns_store (ns_locks st) p = Some l"
    and "lock_ok job (ns_users T job (ns_phase st) r) (ns_holders T job (ns_phase st) r) l"
proof -
  have "entry_ok job (ns_users T job (ns_phase st) r) (ns_holders T job (ns_phase st) r) (ns_locks st) r"
    using assms(1) by (simp add: ns_inv_def)
  then show thesis using assms(2) that by (auto simp: entry_ok_def split: option.splits)
qed

text \<open>
  A step of \<open>t\<close> on the lock at \<open>p\<close> of its resource: the lock changes to one that fits the new users
  and holders, or the entry goes with the last user; nothing else changes.
\<close>

definition step_ok :: "(nat \<Rightarrow> ns_job) \<Rightarrow> nat set \<Rightarrow> nat set \<Rightarrow> string \<Rightarrow> nat \<Rightarrow> nsLockMap \<Rightarrow> nsLockMap \<Rightarrow> bool" where
  "step_ok job U H r p n n' \<longleftrightarrow>
     (\<forall>q. q \<noteq> r \<longrightarrow> ns_lockMap n' q = ns_lockMap n q) \<and> (\<forall>q. q \<noteq> p \<longrightarrow> ns_store n' q = ns_store n q) \<and>
     (if U = {} then ns_lockMap n' r = None
      else ns_lockMap n' r = Some p \<and> (\<exists>l. ns_store n' p = Some l \<and> lock_ok job U H l))"

lemma step_ok_Some: "step_ok job U H r p n n' \<Longrightarrow> u \<in> U \<Longrightarrow> ns_lockMap n' r = Some p"
  by (auto simp: step_ok_def split: if_splits)

lemma card_minus: "finite H \<Longrightarrow> t \<in> H \<Longrightarrow> int (card (H - {t})) = int (card H) - 1 \<and> card H > 0"
  using card.remove [of H t] by simp

lemma ns_inv_step:
  assumes inv: "ns_inv T job st" and t: "t \<in> T" "nj_resource (job t) = r"
    and p: "ns_lockMap (ns_locks st) r = Some p \<or> (ns_lockMap (ns_locks st) r = None \<and> ns_store (ns_locks st) p = None)"
    and ok: "step_ok job (ns_users T job ((ns_phase st)(t := ph)) r) (ns_holders T job ((ns_phase st)(t := ph)) r) r p (ns_locks st) n"
    and w: "\<forall>q. ph = Waiting q \<longrightarrow> q = p"
  shows "ns_inv T job (ns_go t ph n st)"
  unfolding ns_inv_def
proof (intro conjI allI ballI impI)
  let ?ph = "(ns_phase st)(t := ph)"
  let ?m = "ns_lockMap (ns_locks st)"
  have inj: "?m r1 = Some q \<Longrightarrow> ?m r2 = Some q \<Longrightarrow> r1 = r2" for r1 r2 q using inv by (simp add: ns_inv_def)
  have entry: "entry_ok job (ns_users T job (ns_phase st) q) (ns_holders T job (ns_phase st) q) (ns_locks st) q" for q
    using inv by (simp add: ns_inv_def)
  have nop: "?m q \<noteq> Some p" if "q \<noteq> r" for q
  proof
    assume q: "?m q = Some p"
    then have "ns_store (ns_locks st) p \<noteq> None" using entry [of q] by (auto simp: entry_ok_def split: option.splits)
    then have "?m r = Some p" using p by auto
    then show False using inj [OF q] that by blast
  qed
  have same: "ns_users T job ?ph q = ns_users T job (ns_phase st) q" "ns_holders T job ?ph q = ns_holders T job (ns_phase st) q"
    if "q \<noteq> r" for q using that t(2) by (auto simp: ns_users_def ns_holders_def)
  have m': "ns_lockMap n q = ?m q" if "q \<noteq> r" for q using ok that by (simp add: step_ok_def)
  have s': "ns_store n q = ns_store (ns_locks st) q" if "q \<noteq> p" for q using ok that by (simp add: step_ok_def)
  have mr: "ns_lockMap n r = None \<or> ns_lockMap n r = Some p" using ok by (auto simp: step_ok_def split: if_splits)
  show "entry_ok job (ns_users T job (ns_phase (ns_go t ph n st)) q) (ns_holders T job (ns_phase (ns_go t ph n st)) q) (ns_locks (ns_go t ph n st)) q" for q
  proof (cases "q = r")
    case True
    then show ?thesis using ok by (auto simp: ns_go_def entry_ok_def step_ok_def split: if_splits option.splits)
  next
    case False
    have "ns_store n a = ns_store (ns_locks st) a" if "?m q = Some a" for a using s' [of a] nop [OF False] that by auto
    then show ?thesis using entry [of q] m' [OF False] same [OF False] by (auto simp: ns_go_def entry_ok_def split: option.splits)
  qed
  show "ns_lockMap (ns_locks (ns_go t ph n st)) (nj_resource (job u)) = Some a"
    if u: "u \<in> T" "ns_phase (ns_go t ph n st) u = Waiting a" for u a
  proof (cases "u = t")
    case True
    then have a: "ph = Waiting a" "a = p" using u w by (auto simp: ns_go_def)
    have "t \<in> ns_users T job ?ph r" using t a(1) by (simp add: ns_users_def)
    then show ?thesis using step_ok_Some [OF ok] True t(2) a(2) by (simp add: ns_go_def)
  next
    case False
    then have old: "ns_phase st u = Waiting a" using u by (simp add: ns_go_def)
    then have mu: "?m (nj_resource (job u)) = Some a" using inv u(1) by (simp add: ns_inv_def)
    show ?thesis
    proof (cases "nj_resource (job u) = r")
      case True
      have "u \<in> ns_users T job ?ph r" using u(1) old True False by (simp add: ns_users_def)
      moreover have "a = p" using mu True p by auto
      ultimately show ?thesis using step_ok_Some [OF ok] True by (simp add: ns_go_def)
    qed (use m' mu in \<open>simp add: ns_go_def\<close>)
  qed
  show "r1 = r2" if "ns_lockMap (ns_locks (ns_go t ph n st)) r1 = Some a" "ns_lockMap (ns_locks (ns_go t ph n st)) r2 = Some a" for r1 r2 a
  proof -
    have h: "ns_lockMap n r1 = Some a" "ns_lockMap n r2 = Some a" using that by (simp_all add: ns_go_def)
    show ?thesis
    proof (cases "r1 = r \<or> r2 = r")
      case True
      then have "a = p" using h mr by auto
      then show ?thesis using h m' nop by metis
    next
      case False
      then show ?thesis using h m' inj by metis
    qed
  qed
qed

lemma mutex_lock_ok:
  assumes m: "mutex_ok job H lm" and fin: "finite H" and t: "t \<notin> H" and l: "lm_lock uid src (\<not> nj_read (job t)) lm = (lm', b)"
  shows "mutex_ok job (if b then insert t H else H) lm'"
proof (cases b)
  case True
  then show ?thesis using m l t fin
    by (auto simp: mutex_ok_def lm_lock_def Let_def split: if_splits)
next
  case False
  then have "lm_ref lm' = lm_ref lm \<and> lm_isWriteLock lm' = lm_isWriteLock lm"
    using l by (auto simp: lm_lock_def Let_def split: if_splits)
  then show ?thesis using m False by (simp add: mutex_ok_def)
qed

lemma mutex_unlock_ok:
  assumes m: "mutex_ok job H lm" and fin: "finite H" and t: "t \<in> H"
  shows "\<exists>lm'. lm_Unlock (\<not> nj_read (job t)) lm = Some lm' \<and> mutex_ok job (H - {t}) lm'"
proof -
  have c: "int (card (H - {t})) = int (card H) - 1" and pos: "card H > 0"
    using card_minus [OF fin t] by auto
  show ?thesis
  proof (cases "lm_isWriteLock lm")
    case True
    then have "H = {t}" "\<not> nj_read (job t)" "lm_ref lm = 1" using m t by (auto simp: mutex_ok_def)
    then show ?thesis using True by (simp add: lm_Unlock_def lm_unlock_def mutex_ok_def)
  next
    case False
    then have "nj_read (job t)" "lm_ref lm > 0" using m t pos by (auto simp: mutex_ok_def)
    then show ?thesis using m False c by (simp add: lm_Unlock_def lm_unlock_def mutex_ok_def)
  qed
qed

text \<open>Dropping a reference of \<open>t\<close>, when the mutex already fits the holders without it.\<close>

lemma ns_drop_ok:
  assumes p: "ns_lockMap n r = Some p" and l: "ns_store n p = Some l" and ref: "nl_ref l = int (card U)"
    and fin: "finite U" and t: "t \<in> U" and mx: "mutex_ok job H (nl_mutex l)" and H: "U - {t} = {} \<longrightarrow> H = {}"
  shows "\<exists>n'. ns_drop r n = Some n' \<and> step_ok job (U - {t}) H r p n n'"
proof -
  have c: "int (card (U - {t})) = int (card U) - 1" and pos: "card U > 0"
    using card_minus [OF fin t] by auto
  have z: "int (card U) = 1 \<longleftrightarrow> U - {t} = {}" using c fin by (metis card_0_eq diff_eq_eq finite_Diff of_nat_eq_0_iff eq_iff_diff_eq_0)
  show ?thesis
  proof (cases "U - {t} = {}")
    case True
    then show ?thesis using p l ref z by (simp add: ns_drop_def step_ok_def Let_def)
  next
    case False
    then have "int (card U) \<noteq> 1" using z by blast
    then show ?thesis using p l ref c pos mx False by (simp add: ns_drop_def step_ok_def lock_ok_def Let_def)
  qed
qed

subsection \<open>Every step keeps it, and none panics\<close>

lemma users_upd:
  assumes "t \<in> T" and "nj_resource (job t) = r"
  shows "ns_users T job (ph(t := x)) r = (if x = Before \<or> x = After then ns_users T job ph r - {t} else insert t (ns_users T job ph r))"
    and "ns_holders T job (ph(t := x)) r = (if x = Held then insert t (ns_holders T job ph r) else ns_holders T job ph r - {t})"
  using assms by (auto simp: ns_users_def ns_holders_def)

lemma ns_enter_ok:
  assumes inv: "ns_inv T job st" and fin: "finite T" and t: "t \<in> T" "ns_phase st t = Before" and new: "ns_store (ns_locks st) new = None"
    and r: "nj_resource (job t) = r"
  shows "\<exists>n p. ns_enter new r (ns_locks st) = Some (n, p) \<and> ns_inv T job (ns_go t (Waiting p) n st)"
proof -
  let ?U = "ns_users T job (ns_phase st) r" and ?H = "ns_holders T job (ns_phase st) r"
  have nt: "t \<notin> ?U" "t \<notin> ?H" using t(2) by (simp_all add: ns_users_def ns_holders_def)
  have U': "ns_users T job ((ns_phase st)(t := Waiting p)) r = insert t ?U" "ns_holders T job ((ns_phase st)(t := Waiting p)) r = ?H" for p
    using users_upd [of t T job r "ns_phase st" "Waiting p"] t(1) r nt by auto
  have c: "int (card (insert t ?U)) = int (card ?U) + 1" using fin nt(1) by simp
  have e: "entry_ok job ?U ?H (ns_locks st) r" using inv by (simp add: ns_inv_def)
  show ?thesis
  proof (cases "ns_lockMap (ns_locks st) r")
    case None
    then have U: "?U = {}" "?H = {}" using e holders_users [of T job "ns_phase st" r] by (auto simp: entry_ok_def)
    define n where "n = \<lparr>ns_lockMap = (ns_lockMap (ns_locks st))(r \<mapsto> new),
      ns_store = (ns_store (ns_locks st))(new \<mapsto> \<lparr>nl_ref = 1, nl_mutex = NewLRWMutex\<rparr>)\<rparr>"
    have "ns_enter new r (ns_locks st) = Some (n, new)" using None by (simp add: ns_enter_def n_def)
    moreover have "step_ok job (insert t ?U) ?H r new (ns_locks st) n"
      by (simp add: step_ok_def n_def lock_ok_def mutex_ok_def U NewLRWMutex_def)
    ultimately show ?thesis using ns_inv_step [OF inv t(1) r, of new "Waiting new" n] None new U' by auto
  next
    case (Some p)
    then obtain l where l: "ns_store (ns_locks st) p = Some l" "lock_ok job ?U ?H l" using e by (auto simp: entry_ok_def split: option.splits)
    define n where "n = \<lparr>ns_lockMap = (ns_lockMap (ns_locks st))(r \<mapsto> p),
      ns_store = (ns_store (ns_locks st))(p \<mapsto> l\<lparr>nl_ref := nl_ref l + 1\<rparr>)\<rparr>"
    have "ns_enter new r (ns_locks st) = Some (n, p)" using Some l(1) by (simp add: ns_enter_def n_def)
    moreover have "step_ok job (insert t ?U) ?H r p (ns_locks st) n"
      using l(2) c by (simp add: step_ok_def n_def lock_ok_def)
    ultimately show ?thesis using ns_inv_step [OF inv t(1) r, of p "Waiting p" n] Some U' by auto
  qed
qed

lemma waiting_entry:
  assumes inv: "ns_inv T job st" and t: "t \<in> T" "ns_phase st t = Waiting p" and r: "nj_resource (job t) = r"
  obtains l where "ns_lockMap (ns_locks st) r = Some p" and "ns_store (ns_locks st) p = Some l"
    and "lock_ok job (ns_users T job (ns_phase st) r) (ns_holders T job (ns_phase st) r) l"
    and "t \<in> ns_users T job (ns_phase st) r" and "t \<notin> ns_holders T job (ns_phase st) r"
proof -
  have u: "t \<in> ns_users T job (ns_phase st) r" "t \<notin> ns_holders T job (ns_phase st) r" using t r by (simp_all add: ns_users_def ns_holders_def)
  have p: "ns_lockMap (ns_locks st) r = Some p" using inv t r by (auto simp: ns_inv_def)
  obtain q l where q: "ns_lockMap (ns_locks st) r = Some q" "ns_store (ns_locks st) q = Some l"
    "lock_ok job (ns_users T job (ns_phase st) r) (ns_holders T job (ns_phase st) r) l" by (rule ns_inv_entry [OF inv u(1)])
  have "q = p" using p q(1) by simp
  then show thesis using that [OF p _ q(3) u] q(2) by simp
qed

lemma ns_try_ok:
  assumes inv: "ns_inv T job st" and fin: "finite T" and t: "t \<in> T" "ns_phase st t = Waiting p"
  shows "\<exists>n b. ns_try p (nj_opsID (job t)) (nj_source (job t)) (nj_read (job t)) (ns_locks st) = Some (n, b) \<and>
    ns_inv T job (ns_go t (if b then Held else Waiting p) n st)"
proof -
  let ?r = "nj_resource (job t)"
  let ?U = "ns_users T job (ns_phase st) ?r" and ?H = "ns_holders T job (ns_phase st) ?r"
  obtain l where p: "ns_lockMap (ns_locks st) ?r = Some p" and l: "ns_store (ns_locks st) p = Some l" "lock_ok job ?U ?H l"
    and u: "t \<in> ?U" "t \<notin> ?H" by (rule waiting_entry [OF inv t refl])
  obtain lm b where lk: "lm_lock (nj_opsID (job t)) (nj_source (job t)) (\<not> nj_read (job t)) (nl_mutex l) = (lm, b)"
    by (cases "lm_lock (nj_opsID (job t)) (nj_source (job t)) (\<not> nj_read (job t)) (nl_mutex l)")
  define n where "n = (ns_locks st)\<lparr>ns_store := (ns_store (ns_locks st))(p \<mapsto> l\<lparr>nl_mutex := lm\<rparr>)\<rparr>"
  have tr: "ns_try p (nj_opsID (job t)) (nj_source (job t)) (nj_read (job t)) (ns_locks st) = Some (n, b)"
    using l(1) lk by (simp add: ns_try_def n_def)
  have mx: "mutex_ok job (if b then insert t ?H else ?H) lm"
    by (rule mutex_lock_ok [of job ?H "nl_mutex l" t "nj_opsID (job t)" "nj_source (job t)"]) (use l(2) fin u(2) lk in \<open>simp_all add: lock_ok_def\<close>)
  let ?ph = "if b then Held else Waiting p"
  have U': "ns_users T job ((ns_phase st)(t := ?ph)) ?r = ?U" "ns_holders T job ((ns_phase st)(t := ?ph)) ?r = (if b then insert t ?H else ?H)"
    using users_upd [of t T job ?r "ns_phase st" ?ph] t(1) u by auto
  have "step_ok job ?U (if b then insert t ?H else ?H) ?r p (ns_locks st) n"
    using l(2) u(1) mx p by (auto simp: step_ok_def n_def lock_ok_def)
  then have "ns_inv T job (ns_go t ?ph n st)"
    using ns_inv_step [OF inv t(1) refl, of p ?ph n] p U' by simp
  with tr show ?thesis by blast
qed

lemma ns_timeout_ok:
  assumes inv: "ns_inv T job st" and fin: "finite T" and t: "t \<in> T" "ns_phase st t = Waiting p"
  shows "\<exists>n. ns_drop (nj_resource (job t)) (ns_locks st) = Some n \<and> ns_inv T job (ns_go t After n st)"
proof -
  let ?r = "nj_resource (job t)"
  let ?U = "ns_users T job (ns_phase st) ?r" and ?H = "ns_holders T job (ns_phase st) ?r"
  obtain l where p: "ns_lockMap (ns_locks st) ?r = Some p" and l: "ns_store (ns_locks st) p = Some l" "lock_ok job ?U ?H l"
    and u: "t \<in> ?U" "t \<notin> ?H" by (rule waiting_entry [OF inv t refl])
  have "?U - {t} = {} \<longrightarrow> ?H = {}" using holders_users [of T job "ns_phase st" ?r] u(2) by auto
  then obtain n where n: "ns_drop ?r (ns_locks st) = Some n" "step_ok job (?U - {t}) ?H ?r p (ns_locks st) n"
    using ns_drop_ok [OF p l(1) _ _ u(1), of job ?H] l(2) fin by (auto simp: lock_ok_def)
  have U': "ns_users T job ((ns_phase st)(t := After)) ?r = ?U - {t}" "ns_holders T job ((ns_phase st)(t := After)) ?r = ?H"
    using users_upd [of t T job ?r "ns_phase st" After] t(1) u by auto
  have "ns_inv T job (ns_go t After n st)" using ns_inv_step [OF inv t(1) refl, of p After n] p U' n(2) by simp
  with n(1) show ?thesis by blast
qed

lemma ns_unlock_ok:
  assumes inv: "ns_inv T job st" and fin: "finite T" and t: "t \<in> T" "ns_phase st t = Held"
  shows "\<exists>n. ns_unlock (nj_resource (job t)) (nj_read (job t)) (ns_locks st) = Some n \<and> ns_inv T job (ns_go t After n st)"
proof -
  let ?r = "nj_resource (job t)"
  let ?U = "ns_users T job (ns_phase st) ?r" and ?H = "ns_holders T job (ns_phase st) ?r"
  have u: "t \<in> ?U" "t \<in> ?H" using t by (simp_all add: ns_users_def ns_holders_def)
  obtain p l where p: "ns_lockMap (ns_locks st) ?r = Some p" and l: "ns_store (ns_locks st) p = Some l" "lock_ok job ?U ?H l"
    by (rule ns_inv_entry [OF inv u(1)])
  obtain lm where lm: "lm_Unlock (\<not> nj_read (job t)) (nl_mutex l) = Some lm" "mutex_ok job (?H - {t}) lm"
    using mutex_unlock_ok [of job ?H "nl_mutex l" t] l(2) fin u(2) by (auto simp: lock_ok_def)
  define n1 where "n1 = (ns_locks st)\<lparr>ns_store := (ns_store (ns_locks st))(p \<mapsto> l\<lparr>nl_mutex := lm\<rparr>)\<rparr>"
  have "?U - {t} = {} \<longrightarrow> ?H - {t} = {}" using holders_users [of T job "ns_phase st" ?r] by auto
  then obtain n where n: "ns_drop ?r n1 = Some n" "step_ok job (?U - {t}) (?H - {t}) ?r p n1 n"
    using ns_drop_ok [of n1 ?r p "l\<lparr>nl_mutex := lm\<rparr>" ?U t job "?H - {t}"] p l(2) lm(2) fin u(1) by (auto simp: lock_ok_def n1_def)
  have "ns_unlock ?r (nj_read (job t)) (ns_locks st) = Some n" using p l(1) lm(1) n(1) by (simp add: ns_unlock_def n1_def)
  moreover have "step_ok job (?U - {t}) (?H - {t}) ?r p (ns_locks st) n" using n(2) by (simp add: step_ok_def n1_def)
  moreover have "ns_users T job ((ns_phase st)(t := After)) ?r = ?U - {t}" "ns_holders T job ((ns_phase st)(t := After)) ?r = ?H - {t}"
    using users_upd [of t T job ?r "ns_phase st" After] t(1) by auto
  ultimately show ?thesis using ns_inv_step [OF inv t(1) refl, of p After n] p by auto
qed

lemma ns_step_inv: "ns_step T job st st' \<Longrightarrow> ns_inv T job st \<Longrightarrow> finite T \<Longrightarrow> ns_inv T job st'"
proof (induction rule: ns_step.induct)
  case (enter t st new n p)
  then show ?case using ns_enter_ok [of T job st t new "nj_resource (job t)"] by auto
next
  case (try_fail t st p n)
  then show ?case using ns_try_ok [of T job st t p] by auto
next
  case (try_ok t st p n)
  then show ?case using ns_try_ok [of T job st t p] by auto
next
  case (timeout t st p n)
  then show ?case using ns_timeout_ok [of T job st t p] by auto
next
  case (unlocking t st n)
  then show ?case using ns_unlock_ok [of T job st t] by auto
qed

lemma ns_reach_inv: "ns_reach T job st \<Longrightarrow> finite T \<Longrightarrow> ns_inv T job st"
proof (induction rule: ns_reach.induct)
  case ns_reach_init
  then show ?case by (simp add: ns_inv_def ns_init_def newNSLock_def entry_ok_def ns_users_def)
qed (use ns_step_inv in blast)

lemma ns_inv_exclusive:
  assumes "ns_inv T job st" and "t \<in> T" "u \<in> T" "t \<noteq> u" and "ns_phase st t = Held" "ns_phase st u = Held"
    and "nj_resource (job t) = nj_resource (job u)"
  shows "nj_read (job t) \<and> nj_read (job u)"
proof -
  let ?H = "ns_holders T job (ns_phase st) (nj_resource (job t))"
  have h: "t \<in> ?H" "u \<in> ?H" "t \<in> ns_users T job (ns_phase st) (nj_resource (job t))"
    using assms by (auto simp: ns_holders_def ns_users_def)
  obtain p l where "lock_ok job (ns_users T job (ns_phase st) (nj_resource (job t))) ?H l" by (rule ns_inv_entry [OF assms(1) h(3)])
  then show ?thesis using h(1,2) assms(4) by (auto simp: lock_ok_def mutex_ok_def split: if_splits)
qed

text \<open>
  (C13) The namespace lock of a single node works for any number of callers and any interleaving of
  their critical sections. Two callers that hold the same resource both hold it for reading. The map
  has an entry for a resource exactly while somebody waits for it or holds it. No caller ever panics:
  the mutex that a waiting caller kept is still the one in the map, so its attempts and its way out
  after a timeout succeed, and the unlock of a holder finds its lock and a positive count.
\<close>

theorem ns_lock_safe:
  assumes "ns_reach T job st" and "finite T"
  shows "(t \<in> T \<and> u \<in> T \<and> t \<noteq> u \<and> ns_phase st t = Held \<and> ns_phase st u = Held \<and> nj_resource (job t) = nj_resource (job u)
      \<longrightarrow> nj_read (job t) \<and> nj_read (job u))
    \<and> (ns_lockMap (ns_locks st) r = None \<longleftrightarrow> ns_users T job (ns_phase st) r = {})
    \<and> (t \<in> T \<longrightarrow>
       (case ns_phase st t of
          Before \<Rightarrow> ns_store (ns_locks st) new = None \<longrightarrow> ns_enter new (nj_resource (job t)) (ns_locks st) \<noteq> None
        | Waiting p \<Rightarrow> ns_lockMap (ns_locks st) (nj_resource (job t)) = Some p
            \<and> ns_try p (nj_opsID (job t)) (nj_source (job t)) (nj_read (job t)) (ns_locks st) \<noteq> None
            \<and> ns_drop (nj_resource (job t)) (ns_locks st) \<noteq> None
        | Held \<Rightarrow> ns_unlock (nj_resource (job t)) (nj_read (job t)) (ns_locks st) \<noteq> None
        | After \<Rightarrow> True))"
proof (intro conjI impI)
  note inv = ns_reach_inv [OF assms]
  show "nj_read (job t)" "nj_read (job u)"
    if "t \<in> T \<and> u \<in> T \<and> t \<noteq> u \<and> ns_phase st t = Held \<and> ns_phase st u = Held \<and> nj_resource (job t) = nj_resource (job u)"
    using ns_inv_exclusive [OF inv, of t u] that by auto
  have "entry_ok job (ns_users T job (ns_phase st) r) (ns_holders T job (ns_phase st) r) (ns_locks st) r" using inv by (simp add: ns_inv_def)
  then show "ns_lockMap (ns_locks st) r = None \<longleftrightarrow> ns_users T job (ns_phase st) r = {}"
    by (auto simp: entry_ok_def split: option.splits)
  assume t: "t \<in> T"
  show "case ns_phase st t of
          Before \<Rightarrow> ns_store (ns_locks st) new = None \<longrightarrow> ns_enter new (nj_resource (job t)) (ns_locks st) \<noteq> None
        | Waiting p \<Rightarrow> ns_lockMap (ns_locks st) (nj_resource (job t)) = Some p
            \<and> ns_try p (nj_opsID (job t)) (nj_source (job t)) (nj_read (job t)) (ns_locks st) \<noteq> None
            \<and> ns_drop (nj_resource (job t)) (ns_locks st) \<noteq> None
        | Held \<Rightarrow> ns_unlock (nj_resource (job t)) (nj_read (job t)) (ns_locks st) \<noteq> None
        | After \<Rightarrow> True"
  proof (cases "ns_phase st t")
    case Before
    then show ?thesis using ns_enter_ok [OF inv assms(2) t Before _ refl, of new] by auto
  next
    case (Waiting p)
    have "ns_lockMap (ns_locks st) (nj_resource (job t)) = Some p" by (rule waiting_entry [OF inv t Waiting refl])
    then show ?thesis using ns_try_ok [OF inv assms(2) t Waiting] ns_timeout_ok [OF inv assms(2) t Waiting] Waiting by auto
  next
    case Held
    then show ?thesis using ns_unlock_ok [OF inv assms(2) t Held] by auto
  qed simp
qed

text \<open>Two readers of one name that hold it together.\<close>

definition demo_job :: "nat \<Rightarrow> ns_job" where
  "demo_job t = \<lparr>nj_resource = ''b/o'', nj_read = True, nj_opsID = ''id'', nj_source = ''src''\<rparr>"

definition demo_locks :: "int \<Rightarrow> int \<Rightarrow> nsLockMap" where
  "demo_locks u h = \<lparr>ns_lockMap = [''b/o'' \<mapsto> 0], ns_store = [0 \<mapsto> \<lparr>nl_ref = u, nl_mutex =
     NewLRWMutex\<lparr>lm_ref := h, lm_id := (if h = 0 then [] else ''id''), lm_source := (if h = 0 then [] else ''src'')\<rparr>\<rparr>]\<rparr>"

lemma demo_reach:
  "ns_reach {0, 1} demo_job \<lparr>ns_locks = demo_locks 2 2, ns_phase = (\<lambda>_. Before)(0 := Held, 1 := Held)\<rparr>"
proof -
  note demo = ns_go_def demo_job_def demo_locks_def ns_enter_def ns_try_def lm_lock_def NewLRWMutex_def ns_init_def newNSLock_def
  have "ns_step {0, 1} demo_job ns_init \<lparr>ns_locks = demo_locks 1 0, ns_phase = (\<lambda>_. Before)(0 := Waiting 0)\<rparr>"
    using ns_step.enter [of 0 "{0, 1}" ns_init 0 demo_job "demo_locks 1 0" 0] by (simp add: demo)
  moreover have "ns_step {0, 1} demo_job \<lparr>ns_locks = demo_locks 1 0, ns_phase = (\<lambda>_. Before)(0 := Waiting 0)\<rparr>
      \<lparr>ns_locks = demo_locks 1 1, ns_phase = (\<lambda>_. Before)(0 := Held)\<rparr>"
    using ns_step.try_ok [of 0 "{0, 1}" "\<lparr>ns_locks = demo_locks 1 0, ns_phase = (\<lambda>_. Before)(0 := Waiting 0)\<rparr>" 0 demo_job "demo_locks 1 1"]
    by (simp add: demo)
  moreover have "ns_step {0, 1} demo_job \<lparr>ns_locks = demo_locks 1 1, ns_phase = (\<lambda>_. Before)(0 := Held)\<rparr>
      \<lparr>ns_locks = demo_locks 2 1, ns_phase = (\<lambda>_. Before)(0 := Held, 1 := Waiting 0)\<rparr>"
    using ns_step.enter [of 1 "{0, 1}" "\<lparr>ns_locks = demo_locks 1 1, ns_phase = (\<lambda>_. Before)(0 := Held)\<rparr>" 1 demo_job "demo_locks 2 1" 0]
    by (simp add: demo)
  moreover have "ns_step {0, 1} demo_job \<lparr>ns_locks = demo_locks 2 1, ns_phase = (\<lambda>_. Before)(0 := Held, 1 := Waiting 0)\<rparr>
      \<lparr>ns_locks = demo_locks 2 2, ns_phase = (\<lambda>_. Before)(0 := Held, 1 := Held)\<rparr>"
    using ns_step.try_ok [of 1 "{0, 1}" "\<lparr>ns_locks = demo_locks 2 1, ns_phase = (\<lambda>_. Before)(0 := Held, 1 := Waiting 0)\<rparr>" 0 demo_job "demo_locks 2 2"]
    by (simp add: demo)
  ultimately show ?thesis by (meson ns_reach_init ns_reach_step)
qed

theorem ns_lock_safe_witness:
  "nj_read (demo_job 0) \<and> nj_read (demo_job 1) \<and> ns_unlock ''b/o'' True (demo_locks 2 2) \<noteq> None"
  using ns_lock_safe [OF demo_reach, of 0 1 "''b/o''"] by (simp add: demo_job_def)

end
