(* ===== verification/Spec2Isabelle.thy ===== *)
theory Spec2Isabelle
  imports Worm_Safety Wildcard Erasure_Write Object_Quorum Block_Replication XL_Format Dsync_Mutex NS_Lock
begin

text \<open>
  A verification library for the storage core of Obstor.
\<close>

end
